(* ===== verification/Prelude.thy ===== *)
theory Prelude
  imports Main "HOL-Library.Word"
begin

text \<open>
  Shared vocabulary of the development: the machine integer types of the C++ code, the
  faults a C++ program can run into, the result type that carries them, and the generic
  lemmas and hint collections the component theories use.

  The code is built for x86-64 (\<open>-m64\<close>): \<open>size_t\<close>, \<open>unsigned long\<close> and
  \<open>uint64_t\<close> have 64 bits, \<open>unsigned int\<close> and \<open>int\<close> have 32. An \<open>int\<close>
  is kept as its 32-bit pattern and read with \<^term>\<open>sint\<close>.
\<close>

unbundle bit_operations_syntax

type_synonym u8 = "8 word"
type_synonym u16 = "16 word"
type_synonym u32 = "32 word"
type_synonym u64 = "64 word"

section \<open>Faults and results\<close>

text \<open>
  What stops a C++ function from returning a value: an access outside the object it
  indexes, signed arithmetic that leaves its type, a variadic argument fetched with a type
  that does not match, a division by zero, a conversion of a floating-point value that the
  target type cannot hold, or a loop that never ends.
\<close>

datatype fault =
    OutOfBounds
  | SignedOverflow
  | BadVaArg
  | DivideByZero
  | BadConversion
  | NoReturn

type_synonym 'a res = "fault + 'a"

definition rbind :: "'a res \<Rightarrow> ('a \<Rightarrow> 'b res) \<Rightarrow> 'b res" where
  "rbind m f = (case m of Inl e \<Rightarrow> Inl e | Inr x \<Rightarrow> f x)"

lemma rbind_simps [simp]:
  "rbind (Inl e) f = Inl e"
  "rbind (Inr x) f = f x"
  by (simp_all add: rbind_def)

lemma rbind_assoc: "rbind (rbind m f) g = rbind m (\<lambda>x. rbind (f x) g)"
  by (simp add: rbind_def split: sum.splits)

lemma rbind_Inr_iff: "rbind m f = Inr y \<longleftrightarrow> (\<exists>x. m = Inr x \<and> f x = Inr y)"
  by (auto simp: rbind_def split: sum.splits)

lemma rbind_Inr_E:
  assumes "rbind m f = Inr y"
  obtains x where "m = Inr x" "f x = Inr y"
  using assms by (auto simp: rbind_Inr_iff)

lemma rbind_cong [fundef_cong]:
  "m = m' \<Longrightarrow> (\<And>x. m' = Inr x \<Longrightarrow> f x = g x) \<Longrightarrow> rbind m f = rbind m' g"
  by (simp add: rbind_def split: sum.splits)

text \<open>A checked precondition of the next step: the fault when it does not hold.\<close>

definition require :: "bool \<Rightarrow> fault \<Rightarrow> unit res" where
  "require b e = (if b then Inr () else Inl e)"

lemma require_simps [simp]:
  "require True e = Inr ()"
  "require False e = Inl e"
  "require b e = Inr u \<longleftrightarrow> b"
  by (simp_all add: require_def)

section \<open>Words\<close>

named_theorems word_nat \<open>facts that move comparisons and arithmetic of words to naturals\<close>

lemmas [word_nat] = word_less_nat_alt word_le_nat_alt unat_mod_distrib unat_div_distrib

lemma unat_word_plus_one:
  fixes w :: "'a::len word"
  assumes "unat w < 2 ^ LENGTH('a) - 1"
  shows "unat (w + 1) = Suc (unat w)"
proof -
  have "1 + w \<noteq> 0"
  proof
    assume "1 + w = 0"
    then have "w = - 1"
      by (metis add.inverse_inverse add_eq_0_iff)
    with assms show False
      by (simp add: unsigned_minus_1_eq_mask mask_eq_exp_minus_1)
  qed
  then show ?thesis
    by (metis add.commute unatSuc)
qed

lemma unat_Suc_less:
  fixes i n :: "'a::len word"
  assumes "i < n"
  shows "unat (i + 1) = Suc (unat i)"
proof -
  have "unat i < unat n" and "unat n < 2 ^ LENGTH('a)"
    using assms by (simp_all add: word_less_nat_alt)
  then show ?thesis
    by (intro unat_word_plus_one) linarith
qed

lemma unat_diff_Suc_less:
  fixes i n :: "'a::len word"
  shows "i < n \<Longrightarrow> unat n - unat (i + 1) < unat n - unat i"
  by (simp add: unat_Suc_less word_less_nat_alt)

lemma unat_ucast_32_64 [simp]: "unat (ucast (w :: u32) :: u64) = unat w"
  using unsigned_less [of w, where ?'a = nat]
  by (simp add: unsigned_ucast_eq take_bit_nat_eq_self_iff)

lemma unat_ucast_8_64 [simp]: "unat (ucast (w :: u8) :: u64) = unat w"
  using unsigned_less [of w, where ?'a = nat]
  by (simp add: unsigned_ucast_eq take_bit_nat_eq_self_iff)

lemma unat_of_nat_64: "n < 2 ^ 64 \<Longrightarrow> unat (of_nat n :: u64) = n"
  by (simp add: unsigned_of_nat take_bit_nat_eq_self_iff)

lemma ucast_of_nat_64_32 [simp]: "ucast (of_nat n :: u64) = (of_nat n :: u32)"
  by (simp add: unsigned_of_nat word_of_nat_eq_iff)

text \<open>Assigning a bit-field of a unit: the field's bits are replaced.\<close>

definition set_bits :: "nat \<Rightarrow> nat \<Rightarrow> 'a::len word \<Rightarrow> 'a word \<Rightarrow> 'a word" where
  "set_bits pos len v w = (w AND NOT (push_bit pos (mask len))) OR push_bit pos (take_bit len v)"

lemma bit_set_bits:
  "n < LENGTH('a) \<Longrightarrow> bit (set_bits pos len v w :: 'a::len word) n =
    (if pos \<le> n \<and> n < pos + len then bit v (n - pos) else bit w n)"
  by (auto simp: set_bits_def bit_simps)

section \<open>Transition systems\<close>

text \<open>
  The interface of a machine that is given by its initial states and a step relation.
  A client that proves its invariant of the start and of one step has it of every
  reachable state.
\<close>

locale transition_system =
  fixes init :: "'s \<Rightarrow> bool"
    and step :: "'s \<Rightarrow> 's \<Rightarrow> bool"
    and invar :: "'s \<Rightarrow> bool"
  assumes invar_init: "init s \<Longrightarrow> invar s"
    and invar_step: "step s t \<Longrightarrow> invar s \<Longrightarrow> invar t"
begin

lemma invar_steps: "step\<^sup>*\<^sup>* s t \<Longrightarrow> invar s \<Longrightarrow> invar t"
  by (induction rule: rtranclp_induct) (auto intro: invar_step)

lemma invar_reachable: "init s \<Longrightarrow> step\<^sup>*\<^sup>* s t \<Longrightarrow> invar t"
  by (blast intro: invar_steps invar_init)

end

text \<open>
  The interface of a refinement: a concrete system whose steps are matched by steps of an
  abstract one. Every concrete execution then is one of the abstract system.
\<close>

locale simulation =
  fixes cinit :: "'c \<Rightarrow> bool"
    and cstep :: "'c \<Rightarrow> 'c \<Rightarrow> bool"
    and ainit :: "'a \<Rightarrow> bool"
    and astep :: "'a \<Rightarrow> 'a \<Rightarrow> bool"
    and rel :: "'c \<Rightarrow> 'a \<Rightarrow> bool"
  assumes sim_init: "cinit s \<Longrightarrow> \<exists>a. ainit a \<and> rel s a"
    and sim_step: "cstep s t \<Longrightarrow> rel s a \<Longrightarrow> \<exists>a'. astep a a' \<and> rel t a'"
begin

lemma sim_steps: "cstep\<^sup>*\<^sup>* s t \<Longrightarrow> rel s a \<Longrightarrow> \<exists>a'. astep\<^sup>*\<^sup>* a a' \<and> rel t a'"
proof (induction rule: rtranclp_induct)
  case base
  then show ?case by blast
next
  case (step t u)
  then obtain a' where "astep\<^sup>*\<^sup>* a a'" "rel t a'" by blast
  with sim_step [OF step.hyps(2)] show ?case
    by (meson rtranclp.rtrancl_into_rtrancl)
qed

lemma sim_reachable:
  "cinit s \<Longrightarrow> cstep\<^sup>*\<^sup>* s t \<Longrightarrow> \<exists>a0 a. ainit a0 \<and> astep\<^sup>*\<^sup>* a0 a \<and> rel t a"
  using sim_init sim_steps by meson

end

end
