(* ===== verification/Lock.thy ===== *)
theory Lock
  imports Prelude
begin

text \<open>
  The ticket lock of \<open>includes/atomic.h\<close>: \<open>Lock<T>\<close> with its two atomic 32-bit
  counters and the \<open>Guard<T>\<close> that releases it. Every access to a counter is one
  sequentially consistent atomic operation, so an execution is an interleaving of these
  operations, one processor at a time; a processor is a natural number.

  A processor outside the lock fetches a ticket; one that holds a ticket loads
  \<open>release\<close> and either spins or gets its \<open>Guard\<close>; destroying the guard increments
  \<open>release\<close>. The counters wrap around.
\<close>

record lock =
  acquire :: u32
  release :: u32

datatype pc = Outside | Spinning u32 | Holding

record sys =
  lck :: lock
  pcs :: "nat \<Rightarrow> pc"

definition lock_init :: lock where
  "lock_init = \<lparr>acquire = 0, release = 0\<rparr>"

section \<open>The operations\<close>

text \<open>\<open>acquire.fetch_add(1)\<close>: the ticket and the lock.\<close>

definition take_ticket :: "lock \<Rightarrow> u32 \<times> lock" where
  "take_ticket l = (acquire l, l\<lparr>acquire := acquire l + 1\<rparr>)"

text \<open>The condition the loop of \<open>lock()\<close> waits for: \<open>release.load() == ticket\<close>.\<close>

definition my_turn :: "lock \<Rightarrow> u32 \<Rightarrow> bool" where
  "my_turn l ticket \<longleftrightarrow> release l = ticket"

text \<open>\<open>~Guard()\<close>: \<open>release.fetch_add(1)\<close>.\<close>

definition drop_guard :: "lock \<Rightarrow> lock" where
  "drop_guard l = l\<lparr>release := release l + 1\<rparr>"

section \<open>The interleavings\<close>

text \<open>The processors \<open>0, \<dots>, N - 1\<close> use the lock; each step is one atomic operation.\<close>

inductive lock_step :: "nat \<Rightarrow> sys \<Rightarrow> sys \<Rightarrow> bool" for N :: nat where
  fetch: "i < N \<Longrightarrow> pcs s i = Outside \<Longrightarrow> take_ticket (lck s) = (t, l) \<Longrightarrow>
    lock_step N s (s\<lparr>lck := l, pcs := (pcs s)(i := Spinning t)\<rparr>)"
| spin: "i < N \<Longrightarrow> pcs s i = Spinning t \<Longrightarrow> \<not> my_turn (lck s) t \<Longrightarrow> lock_step N s s"
| enter: "i < N \<Longrightarrow> pcs s i = Spinning t \<Longrightarrow> my_turn (lck s) t \<Longrightarrow>
    lock_step N s (s\<lparr>pcs := (pcs s)(i := Holding)\<rparr>)"
| leave: "i < N \<Longrightarrow> pcs s i = Holding \<Longrightarrow>
    lock_step N s (s\<lparr>lck := drop_guard (lck s), pcs := (pcs s)(i := Outside)\<rparr>)"

inductive_cases lock_stepE: "lock_step N s t"

definition sys_init :: "sys \<Rightarrow> bool" where
  "sys_init s \<longleftrightarrow> lck s = lock_init \<and> (\<forall>i. pcs s i = Outside)"

section \<open>The specification: a queue\<close>

text \<open>
  What a fair lock promises is a first-in first-out queue of processors, of which the head
  may be in the critical section.
\<close>

record fifo =
  waiting :: "nat list"
  inside :: bool

inductive fifo_step :: "nat \<Rightarrow> fifo \<Rightarrow> fifo \<Rightarrow> bool" for N :: nat where
  enqueue: "i < N \<Longrightarrow> i \<notin> set (waiting q) \<Longrightarrow> fifo_step N q (q\<lparr>waiting := waiting q @ [i]\<rparr>)"
| stutter: "fifo_step N q q"
| admit: "waiting q = i # w \<Longrightarrow> \<not> inside q \<Longrightarrow> fifo_step N q (q\<lparr>inside := True\<rparr>)"
| dequeue: "waiting q = i # w \<Longrightarrow> inside q \<Longrightarrow> fifo_step N q \<lparr>waiting = w, inside = False\<rparr>"

text \<open>
  The relation between the two: the queued processors are the ones not outside, the ticket
  of the \<open>k\<close>-th is \<open>release + k\<close>, and only the head can hold the lock.
\<close>

definition ticket_of :: "sys \<Rightarrow> nat \<Rightarrow> u32" where
  "ticket_of s k = release (lck s) + of_nat k"

definition lock_rel :: "nat \<Rightarrow> sys \<Rightarrow> fifo \<Rightarrow> bool" where
  "lock_rel N s q \<longleftrightarrow>
     distinct (waiting q) \<and> set (waiting q) \<subseteq> {..<N} \<and>
     acquire (lck s) = ticket_of s (length (waiting q)) \<and>
     (\<forall>i. i \<notin> set (waiting q) \<longrightarrow> pcs s i = Outside) \<and>
     (\<forall>k < length (waiting q). pcs s (waiting q ! k) =
        (if k = 0 \<and> inside q then Holding else Spinning (ticket_of s k))) \<and>
     (inside q \<longrightarrow> waiting q \<noteq> [])"

lemma lock_rel_length:
  assumes "lock_rel N s q"
  shows "length (waiting q) \<le> N"
proof -
  have "length (waiting q) = card (set (waiting q))"
    using assms by (simp add: lock_rel_def distinct_card)
  also have "\<dots> \<le> card {..<N}"
    using assms by (intro card_mono) (auto simp: lock_rel_def)
  finally show ?thesis by simp
qed

lemma lock_rel_init: "sys_init s \<Longrightarrow> lock_rel N s \<lparr>waiting = [], inside = False\<rparr>"
  by (simp add: sys_init_def lock_rel_def lock_init_def ticket_of_def)

text \<open>With at most \<open>2 ^ 32\<close> processors, tickets in use do not collide.\<close>

lemma ticket_of_eq_0:
  assumes "k < 2 ^ 32"
  shows "ticket_of s k = release (lck s) \<longleftrightarrow> k = 0"
proof -
  have "(of_nat k :: u32) = 0 \<longleftrightarrow> k = 0"
    using assms by (auto simp: word_of_nat_eq_0_iff dest: dvd_imp_le)
  then show ?thesis by (simp add: ticket_of_def)
qed

lemma lock_relD:
  assumes "lock_rel N s q" "pcs s i \<noteq> Outside"
  obtains k where "k < length (waiting q)" "waiting q ! k = i"
    "pcs s i = (if k = 0 \<and> inside q then Holding else Spinning (ticket_of s k))"
  using assms unfolding lock_rel_def by (metis in_set_conv_nth)

lemma lock_rel_spinning:
  assumes "lock_rel N s q" "pcs s i = Spinning tk"
  shows "\<exists>k. k < length (waiting q) \<and> waiting q ! k = i \<and> tk = ticket_of s k \<and>
    \<not> (k = 0 \<and> inside q)"
  by (rule lock_relD [OF assms(1), of i]) (use assms(2) in \<open>auto split: if_splits\<close>)

lemma lock_rel_holding:
  assumes "lock_rel N s q" "pcs s i = Holding"
  shows "inside q \<and> (\<exists>w. waiting q = i # w)"
proof -
  have "pcs s i \<noteq> Outside" using assms(2) by simp
  then obtain k where "k < length (waiting q)" "waiting q ! k = i"
    "pcs s i = (if k = 0 \<and> inside q then Holding else Spinning (ticket_of s k))"
    by (rule lock_relD [OF assms(1)])
  then show ?thesis
    using assms(2) by (cases "waiting q") (auto split: if_splits)
qed

lemma lock_rel_inside:
  assumes "lock_rel N s q" "inside q"
  shows "pcs s (hd (waiting q)) = Holding"
proof -
  have "waiting q \<noteq> []"
    using assms by (simp add: lock_rel_def)
  then have "pcs s (waiting q ! 0) = Holding"
    using assms by (simp add: lock_rel_def)
  then show ?thesis
    using \<open>waiting q \<noteq> []\<close> by (simp add: hd_conv_nth)
qed

lemma sim_fetch:
  assumes "lock_rel N s q" "i < N" "pcs s i = Outside"
    "t = s\<lparr>lck := (lck s)\<lparr>acquire := acquire (lck s) + 1\<rparr>,
      pcs := (pcs s)(i := Spinning (acquire (lck s)))\<rparr>"
  shows "i \<notin> set (waiting q)" "lock_rel N t (q\<lparr>waiting := waiting q @ [i]\<rparr>)"
proof -
  show new: "i \<notin> set (waiting q)"
  proof
    assume "i \<in> set (waiting q)"
    then obtain k where "k < length (waiting q)" "waiting q ! k = i"
      by (auto simp: in_set_conv_nth)
    with assms(1,3) show False
      by (auto simp: lock_rel_def split: if_splits)
  qed
  have "waiting q ! k \<noteq> i" if "k < length (waiting q)" for k
    using new that nth_mem by blast
  with assms new show "lock_rel N t (q\<lparr>waiting := waiting q @ [i]\<rparr>)"
    by (auto simp: lock_rel_def ticket_of_def nth_append less_Suc_eq)
qed

lemma sim_enter:
  assumes "lock_rel N s q" "N \<le> 2 ^ 32" "pcs s i = Spinning tk" "my_turn (lck s) tk"
    "t = s\<lparr>pcs := (pcs s)(i := Holding)\<rparr>"
  shows "\<exists>w. waiting q = i # w" "\<not> inside q" "lock_rel N t (q\<lparr>inside := True\<rparr>)"
proof -
  obtain k where k: "k < length (waiting q)" "waiting q ! k = i" "tk = ticket_of s k"
    "\<not> (k = 0 \<and> inside q)"
    using lock_rel_spinning [OF assms(1,3)] by blast
  have "k < 2 ^ 32"
    using k(1) lock_rel_length [OF assms(1)] assms(2) by linarith
  then have "k = 0"
    using assms(4) k(3) by (metis my_turn_def ticket_of_eq_0)
  with k show head: "\<exists>w. waiting q = i # w" and ni: "\<not> inside q"
    by (cases "waiting q"; simp)+
  from head obtain w where w: "waiting q = i # w" by blast
  then have "waiting q ! j \<noteq> i" if "j < length (waiting q)" "j \<noteq> 0" for j
    using assms(1) that by (auto simp: lock_rel_def nth_Cons' split: if_splits)
  with assms w show "lock_rel N t (q\<lparr>inside := True\<rparr>)"
    by (auto simp: lock_rel_def ticket_of_def)
qed

lemma sim_leave:
  assumes "lock_rel N s q" "pcs s i = Holding"
    "t = s\<lparr>lck := drop_guard (lck s), pcs := (pcs s)(i := Outside)\<rparr>"
  shows "\<exists>w. waiting q = i # w \<and> lock_rel N t \<lparr>waiting = w, inside = False\<rparr>" "inside q"
proof -
  obtain w where w: "waiting q = i # w" and "inside q"
    using lock_rel_holding [OF assms(1,2)] by blast
  show "inside q" by (rule \<open>inside q\<close>)
  have "w ! j \<noteq> i" if "j < length w" for j
    using assms(1) that w by (auto simp: lock_rel_def)
  moreover have "pcs s (w ! j) = Spinning (ticket_of s (Suc j))" if "j < length w" for j
    using assms(1) that w by (auto simp: lock_rel_def dest!: spec [of _ "Suc j"])
  ultimately have "lock_rel N t \<lparr>waiting = w, inside = False\<rparr>"
    using assms w by (auto simp: lock_rel_def ticket_of_def drop_guard_def add.assoc)
  with w show "\<exists>w. waiting q = i # w \<and> lock_rel N t \<lparr>waiting = w, inside = False\<rparr>" by blast
qed

text \<open>Every step of the lock is a step of the queue.\<close>

lemma lock_simulates:
  assumes "lock_step N s t" "lock_rel N s q" "N \<le> 2 ^ 32"
  shows "\<exists>q'. fifo_step N q q' \<and> lock_rel N t q'"
  using assms(1)
proof cases
  case (fetch i tk l)
  then show ?thesis
    using sim_fetch [OF assms(2), of i t] by (auto simp: take_ticket_def intro: fifo_step.enqueue)
next
  case (spin i tk)
  with assms(2) show ?thesis by (auto intro: fifo_step.stutter)
next
  case (enter i tk)
  then show ?thesis
    using sim_enter [OF assms(2,3), of i tk t] by (auto intro: fifo_step.admit)
next
  case (leave i)
  then show ?thesis
    using sim_leave [OF assms(2), of i t] by (auto intro: fifo_step.dequeue)
qed

section \<open>Consequences\<close>

definition fifo_init :: "fifo \<Rightarrow> bool" where
  "fifo_init q \<longleftrightarrow> q = \<lparr>waiting = [], inside = False\<rparr>"

definition fifo_ok :: "nat \<Rightarrow> fifo \<Rightarrow> bool" where
  "fifo_ok N q \<longleftrightarrow> distinct (waiting q) \<and> set (waiting q) \<subseteq> {..<N} \<and> (inside q \<longrightarrow> waiting q \<noteq> [])"

interpretation queue_system: transition_system fifo_init "fifo_step N" "fifo_ok N" for N
proof
  show "fifo_init q \<Longrightarrow> fifo_ok N q" for q
    by (simp add: fifo_init_def fifo_ok_def)
  show "fifo_step N q q' \<Longrightarrow> fifo_ok N q \<Longrightarrow> fifo_ok N q'" for q q'
    by (auto simp: fifo_ok_def elim!: fifo_step.cases)
qed

interpretation ticket_queue: simulation
  "\<lambda>s. N \<le> 2 ^ 32 \<and> sys_init s" "lock_step N" fifo_init "fifo_step N"
  "\<lambda>s q. N \<le> 2 ^ 32 \<and> lock_rel N s q" for N
proof
  show "N \<le> 2 ^ 32 \<and> sys_init s \<Longrightarrow> \<exists>q. fifo_init q \<and> N \<le> 2 ^ 32 \<and> lock_rel N s q" for s
    by (auto simp: fifo_init_def intro: lock_rel_init)
  show "lock_step N s t \<Longrightarrow> N \<le> 2 ^ 32 \<and> lock_rel N s q \<Longrightarrow>
      \<exists>q'. fifo_step N q q' \<and> N \<le> 2 ^ 32 \<and> lock_rel N t q'" for s t q
    using lock_simulates by blast
qed

lemma lock_reachable_rel:
  assumes "sys_init s0" "(lock_step N)\<^sup>*\<^sup>* s0 s" "N \<le> 2 ^ 32"
  obtains q where "lock_rel N s q"
  using ticket_queue.sim_reachable [of N s0 s] assms by blast

lemma lock_rel_exclusive:
  assumes "lock_rel N s q" "pcs s i = Holding" "pcs s j = Holding"
  shows "i = j"
  using lock_rel_holding [OF assms(1,2)] lock_rel_holding [OF assms(1,3)] by auto

text \<open>How many guards have to be dropped before a spinning processor has its turn.\<close>

definition ahead :: "sys \<Rightarrow> u32 \<Rightarrow> nat" where
  "ahead s ticket = unat (ticket - release (lck s))"

lemma lock_rel_ahead:
  assumes "lock_rel N s q" "N \<le> 2 ^ 32" "pcs s i = Spinning tk"
  shows "ahead s tk < N \<and> waiting q ! ahead s tk = i"
proof -
  obtain k where k: "k < length (waiting q)" "waiting q ! k = i" "tk = ticket_of s k"
    using lock_rel_spinning [OF assms(1,3)] by blast
  have "k < N" using k(1) lock_rel_length [OF assms(1)] by linarith
  then have "ahead s tk = k"
    using assms(2) by (simp add: ahead_def k(3) ticket_of_def unsigned_of_nat take_bit_nat_eq_self_iff)
  with k \<open>k < N\<close> show ?thesis by simp
qed

text \<open>Somebody can always move on: a processor holds the lock, or the head has its turn.\<close>

lemma lock_rel_progress:
  assumes "lock_rel N s q" "pcs s i \<noteq> Outside"
  shows "\<exists>j < N. pcs s j = Holding \<or> (\<exists>tk. pcs s j = Spinning tk \<and> my_turn (lck s) tk)"
proof -
  have "waiting q \<noteq> []"
    using assms by (auto simp: lock_rel_def)
  then obtain j w where w: "waiting q = j # w" by (cases "waiting q") auto
  then have "j < N" and "pcs s j = (if inside q then Holding else Spinning (ticket_of s 0))"
    using assms(1) by (auto simp: lock_rel_def)
  then show ?thesis
    by (cases "inside q") (auto simp: my_turn_def ticket_of_def)
qed

text \<open>While a processor holds the lock, \<open>release\<close> stays and a new ticket has to wait.\<close>

lemma holder_pins_release:
  assumes "lock_rel N s q" "pcs s i = Holding" "lock_step N s t" "pcs t i = Holding"
  shows "release (lck t) = release (lck s)"
  using assms(3)
proof cases
  case (leave j)
  then have "j = i" using lock_rel_exclusive [OF assms(1)] assms(2) by blast
  with leave assms(4) show ?thesis by simp
qed (auto simp: take_ticket_def)

lemma nested_ticket_waits:
  assumes "lock_rel N s q" "N < 2 ^ 32" "pcs s i = Holding"
  shows "\<not> my_turn (lck s) (fst (take_ticket (lck s)))"
proof -
  have "length (waiting q) \<le> N" "waiting q \<noteq> []"
    using lock_rel_length [OF assms(1)] lock_rel_holding [OF assms(1,3)] by auto
  then have "ticket_of s (length (waiting q)) \<noteq> release (lck s)"
    using ticket_of_eq_0 [of "length (waiting q)" s] assms(2) by simp
  then show ?thesis
    using assms(1) by (simp add: my_turn_def take_ticket_def lock_rel_def)
qed

text \<open>
  Waiting comes to an end: a step that leaves a processor spinning does not move its turn
  further away, and a dropped guard brings it one closer.
\<close>

lemma ahead_step:
  assumes "lock_step N s t" "lock_rel N s q" "N \<le> 2 ^ 32"
    and "pcs s i = Spinning tk" "pcs t i = Spinning tk"
  shows "ahead t tk = (if release (lck t) = release (lck s) then ahead s tk else ahead s tk - 1)"
    "release (lck t) \<noteq> release (lck s) \<Longrightarrow> 0 < ahead s tk"
proof -
  have pos: "0 < ahead s tk" if "pcs s j = Holding" for j
  proof (rule ccontr)
    assume "\<not> 0 < ahead s tk"
    then have "waiting q ! 0 = i"
      using lock_rel_ahead [OF assms(2-4)] by simp
    then have "j = i"
      using lock_rel_holding [OF assms(2) that] by auto
    then show False
      using that assms(4) by simp
  qed
  have dec: "unat (tk - (release (lck s) + 1)) = ahead s tk - 1" if "0 < ahead s tk"
  proof -
    have split: "tk - (release (lck s) + 1) = (tk - release (lck s)) - 1"
      by (simp add: algebra_simps)
    have "tk - release (lck s) \<noteq> 0"
      using that by (auto simp: ahead_def)
    then show ?thesis
      unfolding split ahead_def by (rule unat_minus_one)
  qed
  from assms(1) show "ahead t tk = (if release (lck t) = release (lck s) then ahead s tk else ahead s tk - 1)"
  proof cases
    case (leave j)
    then show ?thesis
      using pos [OF leave(3)] dec by (simp add: drop_guard_def ahead_def)
  qed (auto simp: ahead_def take_ticket_def)
  from assms(1) show "0 < ahead s tk" if "release (lck t) \<noteq> release (lck s)"
  proof cases
    case (leave j)
    then show ?thesis
      using pos by simp
  qed (use that in \<open>auto simp: take_ticket_def\<close>)
qed

end
