(* ===== verification/Lock_Properties.thy ===== *)
theory Lock_Properties
  imports Lock
begin

text \<open>
  The properties of the ticket lock, over its reachable states, and the execution of two
  processors they are applied to: processor 0 takes the lock, processor 1 waits for it.
\<close>

definition two_outside :: sys where
  "two_outside = \<lparr>lck = lock_init, pcs = \<lambda>_. Outside\<rparr>"

definition two_contending :: sys where
  "two_contending = \<lparr>lck = \<lparr>acquire = 2, release = 0\<rparr>,
     pcs = (\<lambda>_. Outside)(0 := Holding, 1 := Spinning 1)\<rparr>"

definition two_handed_over :: sys where
  "two_handed_over = \<lparr>lck = \<lparr>acquire = 2, release = 1\<rparr>,
     pcs = (\<lambda>_. Outside)(1 := Spinning 1)\<rparr>"

lemma two_init: "sys_init two_outside"
  by (simp add: sys_init_def two_outside_def)

lemma two_reachable: "(lock_step 2)\<^sup>*\<^sup>* two_outside two_contending"
proof -
  define a where "a = \<lparr>lck = \<lparr>acquire = 1, release = 0\<rparr>, pcs = (\<lambda>_. Outside)(0 := Spinning 0)\<rparr>"
  define b where "b = a\<lparr>pcs := (pcs a)(0 := Holding)\<rparr>"
  have "lock_step 2 two_outside a"
    using lock_step.fetch [of 0 2 two_outside 0 "\<lparr>acquire = 1, release = 0\<rparr>"]
    by (simp add: a_def two_outside_def take_ticket_def lock_init_def)
  moreover have "lock_step 2 a b"
    unfolding b_def by (rule lock_step.enter [where t = 0]) (simp_all add: a_def my_turn_def)
  moreover have "lock_step 2 b two_contending"
    using lock_step.fetch [of 1 2 b 1 "\<lparr>acquire = 2, release = 0\<rparr>"]
    by (simp add: a_def b_def two_contending_def take_ticket_def)
  ultimately show ?thesis
    by (meson converse_rtranclp_into_rtranclp rtranclp.rtrancl_refl)
qed

lemma two_leave: "lock_step 2 two_contending two_handed_over"
proof -
  have "two_handed_over =
    two_contending\<lparr>lck := drop_guard (lck two_contending), pcs := (pcs two_contending)(0 := Outside)\<rparr>"
    by (simp add: two_contending_def two_handed_over_def drop_guard_def fun_eq_iff)
  then show ?thesis
    using lock_step.leave [of 0 2 two_contending] by (simp add: two_contending_def)
qed

lemma two_states:
  "pcs two_contending 0 = Holding" "pcs two_contending 1 = Spinning 1"
  "pcs two_contending (Suc 0) = Spinning 1" "pcs two_handed_over (Suc 0) = Spinning 1"
  "release (lck two_contending) = 0" "release (lck two_handed_over) = 1"
  "ahead two_contending 1 = Suc 0" "ahead two_handed_over 1 = 0"
  by (simp_all add: two_contending_def two_handed_over_def ahead_def)

text \<open>
  C1. Mutual exclusion. At most one processor is inside the critical section of a
  \<open>Lock\<close>, in every interleaving of the atomic operations of up to \<open>2 ^ 32\<close>
  processors, with both counters wrapping around.
\<close>

theorem lock_mutual_exclusion:
  assumes "sys_init s0" "(lock_step N)\<^sup>*\<^sup>* s0 s" "N \<le> 2 ^ 32"
    and "pcs s i = Holding" "i \<noteq> j"
  shows "pcs s j \<noteq> Holding"
proof -
  obtain q where "lock_rel N s q"
    using lock_reachable_rel [OF assms(1-3)] .
  then show ?thesis
    using lock_rel_exclusive [of N s q i j] assms(4,5) by blast
qed

theorem lock_mutual_exclusion_witness: "pcs two_contending 1 \<noteq> Holding"
  by (rule lock_mutual_exclusion [OF two_init two_reachable, of 0]) (simp_all add: two_states)

text \<open>
  C10. The ticket lock is a fair queue. Every execution of the lock is matched by one of the
  first-in first-out queue: the processors that hold a ticket are the queue in the order
  they fetched it, the \<open>k\<close>-th one's ticket is \<open>release + k\<close>, and only its head is
  ever let in.
\<close>

theorem lock_refines_fifo:
  assumes "sys_init s0" "(lock_step N)\<^sup>*\<^sup>* s0 s" "N \<le> 2 ^ 32"
  shows "\<exists>q0 q. fifo_init q0 \<and> (fifo_step N)\<^sup>*\<^sup>* q0 q \<and> lock_rel N s q"
  using ticket_queue.sim_reachable [of N s0 s] assms by blast

theorem lock_refines_fifo_witness:
  "\<exists>q0 q. fifo_init q0 \<and> (fifo_step 2)\<^sup>*\<^sup>* q0 q \<and> lock_rel 2 two_contending q"
  by (rule lock_refines_fifo [OF two_init two_reachable]) simp

text \<open>
  C11. Bounded waiting. A spinning processor has fewer than \<open>N\<close> guards ahead of its turn;
  some processor can move on (it is inside, or its turn has come); and no step that leaves
  the processor spinning moves its turn further away, while every guard that is dropped
  brings it one closer.
\<close>

theorem lock_bounded_waiting:
  assumes "sys_init s0" "(lock_step N)\<^sup>*\<^sup>* s0 s" "N \<le> 2 ^ 32"
    and "pcs s i = Spinning tk" "lock_step N s t" "pcs t i = Spinning tk"
  shows "ahead s tk < N \<and>
    (\<exists>j < N. pcs s j = Holding \<or> (\<exists>tj. pcs s j = Spinning tj \<and> my_turn (lck s) tj)) \<and>
    ahead t tk \<le> ahead s tk \<and>
    (release (lck t) \<noteq> release (lck s) \<longrightarrow> ahead s tk = Suc (ahead t tk))"
proof -
  obtain q where q: "lock_rel N s q"
    using lock_reachable_rel [OF assms(1-3)] .
  note dec = ahead_step [OF assms(5) q assms(3,4,6)]
  show ?thesis
    using lock_rel_ahead [OF q assms(3,4)] lock_rel_progress [OF q, of i] assms(4) dec by auto
qed

theorem lock_bounded_waiting_witness:
  "ahead two_contending 1 = Suc (ahead two_handed_over 1)"
  using lock_bounded_waiting [OF two_init two_reachable _ _ two_leave, of 1 1]
  by (simp add: two_states)

text \<open>
  C36. The lock is not reentrant. While a processor holds it, no step of another processor
  changes \<open>release\<close>, and a ticket fetched then, by the holder itself too, is not the one
  being served: a holder that locks again waits for itself.
\<close>

theorem lock_not_reentrant:
  assumes "sys_init s0" "(lock_step N)\<^sup>*\<^sup>* s0 s" "N < 2 ^ 32" "pcs s i = Holding"
  shows "\<not> my_turn (lck s) (fst (take_ticket (lck s))) \<and>
    (\<forall>t. lock_step N s t \<and> pcs t i = Holding \<longrightarrow> release (lck t) = release (lck s))"
proof -
  obtain q where q: "lock_rel N s q"
    using lock_reachable_rel [OF assms(1,2)] assms(3) by auto
  show ?thesis
    using nested_ticket_waits [OF q assms(3,4)] holder_pins_release [OF q assms(4)] by blast
qed

theorem lock_not_reentrant_witness:
  "\<not> my_turn (lck two_contending) (fst (take_ticket (lck two_contending)))"
  using lock_not_reentrant [OF two_init two_reachable, of 0] by (simp add: two_states)

end
