(* ===== verification/Memory.thy ===== *)
theory Memory
  imports Prelude
begin

text \<open>
  Byte-addressed memory, the little-endian loads and stores the code makes through typed
  pointers, and the block functions written in the repository: \<open>memset\<close> of
  \<open>stdlib.cc\<close> and \<open>interrupt.cc\<close>, and \<open>memset\<close> and \<open>memmove\<close> of
  \<open>memlib/memcpy.cc\<close>.
\<close>

type_synonym memory = "u64 \<Rightarrow> u8"

section \<open>Bytes of a word\<close>

definition word_bytes :: "'a::len word \<Rightarrow> u8 list" where
  "word_bytes w = map (\<lambda>i. ucast (drop_bit (8 * i) w)) [0..<LENGTH('a) div 8]"

definition bytes_word :: "u8 list \<Rightarrow> 'a::len word" where
  "bytes_word bs = foldr (\<lambda>b w. ucast b OR push_bit 8 w) bs 0"

lemma length_word_bytes [simp]: "length (word_bytes (w :: 'a::len word)) = LENGTH('a) div 8"
  by (simp add: word_bytes_def)

lemma bit_bytes_word:
  "bit (bytes_word bs :: 'a::len word) k \<longleftrightarrow>
    k < LENGTH('a) \<and> k div 8 < length bs \<and> bit (bs ! (k div 8)) (k mod 8)"
proof (induction bs arbitrary: k)
  case Nil
  then show ?case by (simp add: bytes_word_def)
next
  case (Cons b bs)
  have step: "bytes_word (b # bs) = (ucast b OR push_bit 8 (bytes_word bs) :: 'a word)"
    by (simp add: bytes_word_def)
  show ?case
  proof (cases "k < 8")
    case True
    then show ?thesis by (auto simp: step bit_simps)
  next
    case False
    then have "k div 8 = Suc ((k - 8) div 8)" "k mod 8 = (k - 8) mod 8"
      by (simp_all add: le_div_geq le_mod_geq)
    moreover have "\<not> bit b k"
      using False bit_imp_le_length [of b k] by auto
    ultimately show ?thesis
      using False by (auto simp: step bit_simps Cons.IH)
  qed
qed

lemma bytes_word_word_bytes:
  assumes "8 dvd LENGTH('a::len)"
  shows "bytes_word (word_bytes w) = (w :: 'a word)"
proof (rule bit_word_eqI)
  fix k assume k: "k < LENGTH('a)"
  then have "k div 8 < LENGTH('a) div 8"
    using assms by (auto elim!: dvdE)
  then show "bit (bytes_word (word_bytes w) :: 'a word) k \<longleftrightarrow> bit w k"
    using k by (simp add: bit_bytes_word word_bytes_def bit_simps)
qed

section \<open>Loads and stores\<close>

definition load_bytes :: "memory \<Rightarrow> u64 \<Rightarrow> nat \<Rightarrow> u8 list" where
  "load_bytes m a n = map (\<lambda>i. m (a + of_nat i)) [0..<n]"

definition store_bytes :: "u64 \<Rightarrow> u8 list \<Rightarrow> memory \<Rightarrow> memory" where
  "store_bytes a bs m = (\<lambda>x. if unat (x - a) < length bs then bs ! unat (x - a) else m x)"

definition load_le :: "memory \<Rightarrow> u64 \<Rightarrow> 'a::len word" where
  "load_le m a = bytes_word (load_bytes m a (LENGTH('a) div 8))"

definition store_le :: "u64 \<Rightarrow> 'a::len word \<Rightarrow> memory \<Rightarrow> memory" where
  "store_le a w m = store_bytes a (word_bytes w) m"

lemma load_store_bytes:
  assumes "length bs < 2 ^ 64"
  shows "load_bytes (store_bytes a bs m) a (length bs) = bs"
proof -
  have "unat (of_nat i :: u64) = i" if "i < length bs" for i
    using that assms by (intro unat_of_nat_64) simp
  then show ?thesis
    by (intro nth_equalityI) (auto simp: load_bytes_def store_bytes_def)
qed

lemma store_bytes_frame: "\<not> unat (x - a) < length bs \<Longrightarrow> store_bytes a bs m x = m x"
  by (simp add: store_bytes_def)

text \<open>
  The contract of a typed cell of memory: what is stored is loaded again, a load depends on
  the bytes of the cell only, and a store changes no other byte.
\<close>

locale memory_cell =
  fixes ld :: "memory \<Rightarrow> u64 \<Rightarrow> 'w"
    and st :: "u64 \<Rightarrow> 'w \<Rightarrow> memory \<Rightarrow> memory"
    and width :: nat
  assumes ld_st: "ld (st a w m) a = w"
    and ld_cong: "(\<And>i. i < width \<Longrightarrow> m (a + of_nat i) = m' (a + of_nat i)) \<Longrightarrow> ld m a = ld m' a"
    and st_frame: "\<not> unat (x - a) < width \<Longrightarrow> st a w m x = m x"
begin

text \<open>A store to a disjoint cell is not seen.\<close>

lemma ld_frame:
  assumes "\<And>i. i < width \<Longrightarrow> \<not> unat (b + of_nat i - a) < n"
    and "\<And>x. \<not> unat (x - a) < n \<Longrightarrow> m' x = m x"
  shows "ld m' b = ld m b"
  using assms by (intro ld_cong) simp

lemma ld_st_other:
  assumes "\<And>i. i < width \<Longrightarrow> \<not> unat (b + of_nat i - a) < width"
  shows "ld (st a w m) b = ld m b"
  by (rule ld_frame [OF assms]) (simp_all add: st_frame)

end

lemma memory_cell_le:
  assumes "8 dvd LENGTH('a::len)" "LENGTH('a) < 2 ^ 64" "n = LENGTH('a) div 8"
  shows "memory_cell (load_le :: memory \<Rightarrow> u64 \<Rightarrow> 'a word) store_le n"
proof
  fix a m m' x and w :: "'a word"
  have "length (word_bytes w) < 2 ^ 64"
    using assms(2) by simp
  then show "load_le (store_le a w m) a = w"
    using load_store_bytes [of "word_bytes w" a m] bytes_word_word_bytes [OF assms(1)]
    by (simp add: load_le_def store_le_def)
  show "\<not> unat (x - a) < n \<Longrightarrow> store_le a w m x = m x"
    using assms(3) by (simp add: store_le_def store_bytes_frame)
  assume "\<And>i. i < n \<Longrightarrow> m (a + of_nat i) = m' (a + of_nat i)"
  then have "load_bytes m a n = load_bytes m' a n"
    by (simp add: load_bytes_def)
  then show "load_le m a = (load_le m' a :: 'a word)"
    using assms(3) by (simp add: load_le_def)
qed

interpretation cell16: memory_cell "load_le :: memory \<Rightarrow> u64 \<Rightarrow> u16" store_le 2
  by (rule memory_cell_le) simp_all

interpretation cell32: memory_cell "load_le :: memory \<Rightarrow> u64 \<Rightarrow> u32" store_le 4
  by (rule memory_cell_le) simp_all

interpretation cell64: memory_cell "load_le :: memory \<Rightarrow> u64 \<Rightarrow> u64" store_le 8
  by (rule memory_cell_le) simp_all

text \<open>Cells at a known distance, for cells of the same and of different widths.\<close>

lemma cells_at_distance:
  assumes "of_nat n \<le> b - a" "b - a \<le> - of_nat w" "i < w" "n < 2 ^ 64" "0 < w" "w < 2 ^ 64"
  shows "\<not> unat ((b :: u64) + of_nat i - a) < n"
proof -
  have w: "unat (of_nat w :: u64) = w" "unat (of_nat n :: u64) = n" "unat (of_nat i :: u64) = i"
    using assms by (simp_all add: unat_of_nat_64)
  have "of_nat (2 ^ 64 - w) = (of_nat (2 ^ 64) - of_nat w :: u64)"
    using assms(6) by (intro of_nat_diff) simp
  also have "of_nat (2 ^ 64) = (0 :: u64)"
    by simp
  finally have "unat (- of_nat w :: u64) = unat (of_nat (2 ^ 64 - w) :: u64)"
    by simp
  also have "\<dots> = 2 ^ 64 - w"
    using assms(5) by (intro unat_of_nat_64) simp
  finally have "unat (- of_nat w :: u64) = 2 ^ 64 - w" .
  then have "unat (b - a) \<le> 2 ^ 64 - w" "n \<le> unat (b - a)"
    using assms(1,2) w by (simp_all add: word_le_nat_alt)
  then have "unat (b - a + of_nat i) = unat (b - a) + i"
    using w(3) assms(3,6) by (subst unat_word_ariths) simp
  then show ?thesis
    using \<open>n \<le> unat (b - a)\<close> by (simp add: algebra_simps)
qed

lemma region_offset:
  fixes x b :: u64
  assumes "unat (x - (b + of_nat d)) < n" "d + n \<le> 2 ^ 63"
  shows "unat (x - b) = d + unat (x - (b + of_nat d))"
proof -
  have "unat (of_nat d :: u64) = d"
    using assms(2) by (intro unat_of_nat_64) simp
  then have "unat (x - (b + of_nat d) + of_nat d) = unat (x - (b + of_nat d)) + d"
    using assms by (subst unat_word_ariths) simp
  then show ?thesis
    by simp
qed

lemma ld16_st16:
  "2 \<le> b - a \<Longrightarrow> b - a \<le> - 2 \<Longrightarrow> load_le (store_le a (w :: u16) m) b = (load_le m b :: u16)"
  using cells_at_distance [of 2 b a 2] by (intro cell16.ld_st_other) simp

lemma ld16_st32:
  "4 \<le> b - a \<Longrightarrow> b - a \<le> - 2 \<Longrightarrow> load_le (store_le a (w :: u32) m) b = (load_le m b :: u16)"
  using cells_at_distance [of 4 b a 2] by (intro cell16.ld_frame [where n = 4] cell32.st_frame) simp_all

lemma ld32_st16:
  "2 \<le> b - a \<Longrightarrow> b - a \<le> - 4 \<Longrightarrow> load_le (store_le a (w :: u16) m) b = (load_le m b :: u32)"
  using cells_at_distance [of 2 b a 4] by (intro cell32.ld_frame [where n = 2] cell16.st_frame) simp_all

lemma ld32_st32:
  "4 \<le> b - a \<Longrightarrow> b - a \<le> - 4 \<Longrightarrow> load_le (store_le a (w :: u32) m) b = (load_le m b :: u32)"
  using cells_at_distance [of 4 b a 4] by (intro cell32.ld_st_other) simp

lemma ld16_st64:
  "8 \<le> b - a \<Longrightarrow> b - a \<le> - 2 \<Longrightarrow> load_le (store_le a (w :: u64) m) b = (load_le m b :: u16)"
  using cells_at_distance [of 8 b a 2] by (intro cell16.ld_frame [where n = 8] cell64.st_frame) simp_all

lemma ld64_st16:
  "2 \<le> b - a \<Longrightarrow> b - a \<le> - 8 \<Longrightarrow> load_le (store_le a (w :: u16) m) b = (load_le m b :: u64)"
  using cells_at_distance [of 2 b a 8] by (intro cell64.ld_frame [where n = 2] cell16.st_frame) simp_all

named_theorems cells \<open>what a typed load sees of a typed store\<close>

lemmas [cells] = cell16.ld_st cell32.ld_st cell64.ld_st
  ld16_st16 ld16_st32 ld32_st16 ld32_st32 ld16_st64 ld64_st16

lemma load_zero [simp]: "load_le (\<lambda>_. 0) a = 0"
  by (rule bit_word_eqI) (auto simp: load_le_def bit_bytes_word load_bytes_def)

section \<open>\<open>memset\<close>\<close>

text \<open>\<open>stdlib.cc\<close>, with a copy in \<open>interrupt.cc\<close>.\<close>

function memset_loop :: "u64 \<Rightarrow> u8 \<Rightarrow> u64 \<Rightarrow> u64 \<Rightarrow> memory \<Rightarrow> memory" where
  "memset_loop ptr byte sz i m =
     (if i < sz then memset_loop ptr byte sz (i + 1) (m(ptr + i := byte)) else m)"
  by pat_completeness auto
termination
  by (relation "measure (\<lambda>(ptr, byte, sz, i, m). unat sz - unat i)") (simp_all add: unat_diff_Suc_less)

declare memset_loop.simps [simp del]

definition memset :: "u64 \<Rightarrow> u8 \<Rightarrow> u64 \<Rightarrow> memory \<Rightarrow> memory" where
  "memset dst byte sz m = memset_loop dst byte sz 0 m"

lemma memset_loop_eq:
  "memset_loop ptr byte sz i m a = (if i \<le> a - ptr \<and> a - ptr < sz then byte else m a)"
proof (induction ptr byte sz i m rule: memset_loop.induct)
  case (1 ptr byte sz i m)
  show ?case
  proof (cases "i < sz")
    case True
    have Suc: "i \<le> x \<longleftrightarrow> i + 1 \<le> x \<or> x = i" for x :: u64
      unfolding word_le_nat_alt word_unat_eq_iff unat_Suc_less [OF True] by linarith
    have addr: "a = ptr + i \<longleftrightarrow> a - ptr = i"
      by (auto simp: diff_eq_eq add.commute)
    show ?thesis
      unfolding memset_loop.simps [of ptr byte sz i m] if_P [OF True] 1 [OF True] Suc [of "a - ptr"]
      using True by (auto simp: addr)
  next
    case False
    then show ?thesis by (subst memset_loop.simps) auto
  qed
qed

lemma memset_eq: "memset dst byte sz m a = (if a - dst < sz then byte else m a)"
  by (simp add: memset_def memset_loop_eq)

text \<open>\<open>memset\<close> of \<open>memlib/memcpy.cc\<close> has an \<open>if\<close> where a loop would be.\<close>

definition memlib_memset :: "u64 \<Rightarrow> u8 \<Rightarrow> u64 \<Rightarrow> memory \<Rightarrow> memory" where
  "memlib_memset dst byte sz m =
     (let i = (0 :: u64) in if i < sz then m(dst + i := byte) else m)"

section \<open>\<open>memmove\<close>\<close>

text \<open>
  \<open>memlib/memcpy.cc\<close>. The index is an \<open>int\<close>: the size is converted to it, it is
  converted back to the type of the size in the comparison, and stepping it past its range
  overflows.
\<close>

function move_down :: "u64 \<Rightarrow> u64 \<Rightarrow> int \<Rightarrow> memory \<Rightarrow> memory res" where
  "move_down dst src i m =
     (if i = 0 then Inr m
      else if i \<le> - (2 ^ 31) then Inl SignedOverflow
      else let i = i - 1 in move_down dst src i (m(dst + of_int i := m (src + of_int i))))"
  by pat_completeness auto
termination
  by (relation "measure (\<lambda>(dst, src, i, m). nat (i + 2 ^ 31))") auto

function move_up :: "u64 \<Rightarrow> u64 \<Rightarrow> u64 \<Rightarrow> int \<Rightarrow> memory \<Rightarrow> memory res" where
  "move_up dst src sz i m =
     (if of_int i < sz
      then let m = m(dst + of_int i := m (src + of_int i))
           in if 2 ^ 31 - 1 \<le> i then Inl SignedOverflow else move_up dst src sz (i + 1) m
      else Inr m)"
  by pat_completeness auto
termination
  by (relation "measure (\<lambda>(dst, src, sz, i, m). nat (2 ^ 31 - i))") auto

declare move_down.simps [simp del] move_up.simps [simp del]

definition memmove :: "u64 \<Rightarrow> u64 \<Rightarrow> u64 \<Rightarrow> memory \<Rightarrow> memory res" where
  "memmove dst src sz m =
     (if src < dst then move_down dst src (sint (ucast sz :: u32)) m else move_up dst src sz 0 m)"

text \<open>
  Overlap: a block of \<open>n\<close> bytes at \<open>dst\<close> as the copy of the one at \<open>src\<close>, from
  the memory before the call. The loops copy in the direction in which no byte is read after
  it was overwritten.
\<close>

definition copied :: "u64 \<Rightarrow> u64 \<Rightarrow> nat \<Rightarrow> nat \<Rightarrow> memory \<Rightarrow> memory" where
  "copied dst src k n m = (\<lambda>a. if k \<le> unat (a - dst) \<and> unat (a - dst) < n
     then m (src + (a - dst)) else m a)"

lemma add_eq_no_overflow:
  fixes a b x y :: u64
  assumes "unat a + unat x < 2 ^ 64" "unat b + unat y < 2 ^ 64" "a + x = b + y"
  shows "unat a + unat x = unat b + unat y"
proof -
  have "unat (a + x) = unat a + unat x" "unat (b + y) = unat b + unat y"
    using assms(1,2) unat_add_lem [of a x] unat_add_lem [of b y] by simp_all
  then show ?thesis using assms(3) by simp
qed

lemma addr_offset:
  fixes a dst :: u64
  assumes "n < 2 ^ 64"
  shows "a = dst + of_nat n \<longleftrightarrow> unat (a - dst) = n"
  using unat_of_nat_64 [OF assms] by (metis add.commute add_diff_cancel_left' diff_add_cancel unsigned_word_eqI)

lemma copied_down:
  assumes "unat src < unat dst" "unat dst + Suc n \<le> 2 ^ 64"
  shows "copied dst src 0 n (m(dst + of_nat n := m (src + of_nat n))) = copied dst src 0 (Suc n) m"
proof
  fix a
  have n: "n < 2 ^ 64" using assms(2) by simp
  have "src + (a - dst) \<noteq> dst + of_nat n" if "unat (a - dst) < n"
    using add_eq_no_overflow [of src "a - dst" dst "of_nat n"] that assms unat_of_nat_64 [OF n] by auto
  moreover have "unat (a - dst) = n \<Longrightarrow> a - dst = of_nat n"
    using addr_offset [OF n, of a dst] by auto
  ultimately show "copied dst src 0 n (m(dst + of_nat n := m (src + of_nat n))) a =
      copied dst src 0 (Suc n) m a"
    by (auto simp: copied_def addr_offset [OF n] less_Suc_eq)
qed

lemma copied_up:
  assumes "unat dst \<le> unat src" "unat src + n \<le> 2 ^ 64" "k < n"
  shows "copied dst src (Suc k) n (m(dst + of_nat k := m (src + of_nat k))) = copied dst src k n m"
proof
  fix a
  have k: "k < 2 ^ 64" using assms by simp
  have "src + (a - dst) \<noteq> dst + of_nat k" if "k < unat (a - dst)" "unat (a - dst) < n"
    using add_eq_no_overflow [of src "a - dst" dst "of_nat k"] that assms unat_of_nat_64 [OF k] by auto
  moreover have "unat (a - dst) = k \<Longrightarrow> a - dst = of_nat k"
    using addr_offset [OF k, of a dst] by auto
  ultimately show "copied dst src (Suc k) n (m(dst + of_nat k := m (src + of_nat k))) a =
      copied dst src k n m a"
    using assms(3) by (auto simp: copied_def addr_offset [OF k] le_eq_less_or_eq Suc_le_eq)
qed

lemma move_down_eq:
  assumes "n < 2 ^ 31" "unat src < unat dst" "unat dst + n \<le> 2 ^ 64"
  shows "move_down dst src (int n) m = Inr (copied dst src 0 n m)"
  using assms
proof (induction n arbitrary: m)
  case 0
  then show ?case by (simp add: move_down.simps copied_def)
next
  case (Suc n)
  then have "move_down dst src (int n) m' = Inr (copied dst src 0 n m')" for m'
    by simp
  with Suc.prems copied_down [of src dst n m] show ?case
    by (subst move_down.simps) (simp add: Let_def)
qed

lemma move_up_eq:
  assumes "unat sz < 2 ^ 31" "unat dst \<le> unat src" "unat src + unat sz \<le> 2 ^ 64" "k \<le> unat sz"
  shows "move_up dst src sz (int k) m = Inr (copied dst src k (unat sz) m)"
  using assms(4)
proof (induction "unat sz - k" arbitrary: k m)
  case 0
  then have "k = unat sz" by simp
  then show ?case
    by (subst move_up.simps) (auto simp: copied_def fun_eq_iff)
next
  case (Suc n)
  then have k: "k < unat sz" by simp
  then have "unat (of_nat k :: u64) = k"
    using assms(1) by (intro unat_of_nat_64) simp
  then have "(of_nat k :: u64) < sz"
    using k by (simp add: word_less_nat_alt)
  moreover have "move_up dst src sz (int (Suc k)) m' = Inr (copied dst src (Suc k) (unat sz) m')" for m'
    using Suc k by (intro Suc.hyps) simp_all
  ultimately show ?case
    using k assms copied_up [of dst src "unat sz" k m]
    by (subst move_up.simps) (simp add: Let_def add.commute)
qed

lemma sint_ucast_small:
  assumes "unat (w :: u64) < 2 ^ 31"
  shows "sint (ucast w :: u32) = int (unat w)"
proof -
  have "int (unat w) < int (2 ^ 31)"
    using assms by (simp only: of_nat_less_iff)
  then have w: "0 \<le> uint w" "uint w < 2 ^ 31"
    by simp_all
  then have "uint (ucast w :: u32) = uint w"
    by (subst unsigned_ucast_eq, intro take_bit_int_eq_self) simp_all
  moreover have "signed_take_bit 31 (uint w) = uint w"
    using w by (intro signed_take_bit_int_eq_self) linarith+
  ultimately show ?thesis
    by (simp add: sint_uint)
qed

lemma memmove_eq:
  assumes "unat sz < 2 ^ 31" "unat src + unat sz \<le> 2 ^ 64" "unat dst + unat sz \<le> 2 ^ 64"
  shows "memmove dst src sz m = Inr (copied dst src 0 (unat sz) m)"
proof (cases "src < dst")
  case True
  then have "unat src < unat dst"
    by (simp add: word_less_nat_alt)
  then have "move_down dst src (int (unat sz)) m = Inr (copied dst src 0 (unat sz) m)"
    using assms by (intro move_down_eq)
  then show ?thesis
    using True sint_ucast_small [OF assms(1)] by (simp only: memmove_def if_True)
next
  case False
  then have "unat dst \<le> unat src"
    by (simp add: word_less_nat_alt)
  then have "move_up dst src sz (int 0) m = Inr (copied dst src 0 (unat sz) m)"
    using assms by (intro move_up_eq) simp_all
  then show ?thesis
    using False by (simp add: memmove_def)
qed

end
