(* ===== verification/Printf_Output.thy ===== *)
theory Printf_Output
  imports Memory "HOL-Library.Char_ord"
begin

text \<open>
  The bottom layer of \<open>printf.cc\<close>: the internal flag bits, the four output functions a
  conversion can be given, the small text helpers (\<open>_strnlen_s\<close>, \<open>_is_digit\<close>,
  \<open>_atoi\<close>) and the contract of an output function. The leading underscore of a C name
  is dropped.

  An output function takes the character, the \<open>buffer\<close> pointer, the index and the
  maximum, as \<open>out_fct_type\<close> does, and changes a state \<open>'s\<close>; which state that is
  depends on the output function (memory for \<open>_out_buffer\<close>, the serial devices for
  \<open>_out_char\<close>). The C idiom \<open>out(c, buffer, idx++, maxlen)\<close> is \<open>put\<close>, on the
  pair of the index and the state.
\<close>

section \<open>Flags\<close>

definition FLAGS_ZEROPAD :: u32 where "FLAGS_ZEROPAD = push_bit 0 1"
definition FLAGS_LEFT :: u32 where "FLAGS_LEFT = push_bit 1 1"
definition FLAGS_PLUS :: u32 where "FLAGS_PLUS = push_bit 2 1"
definition FLAGS_SPACE :: u32 where "FLAGS_SPACE = push_bit 3 1"
definition FLAGS_HASH :: u32 where "FLAGS_HASH = push_bit 4 1"
definition FLAGS_UPPERCASE :: u32 where "FLAGS_UPPERCASE = push_bit 5 1"
definition FLAGS_CHAR :: u32 where "FLAGS_CHAR = push_bit 6 1"
definition FLAGS_SHORT :: u32 where "FLAGS_SHORT = push_bit 7 1"
definition FLAGS_LONG :: u32 where "FLAGS_LONG = push_bit 8 1"
definition FLAGS_LONG_LONG :: u32 where "FLAGS_LONG_LONG = push_bit 9 1"
definition FLAGS_PRECISION :: u32 where "FLAGS_PRECISION = push_bit 10 1"
definition FLAGS_ADAPT_EXP :: u32 where "FLAGS_ADAPT_EXP = push_bit 11 1"

lemmas FLAGS_defs = FLAGS_ZEROPAD_def FLAGS_LEFT_def FLAGS_PLUS_def FLAGS_SPACE_def
  FLAGS_HASH_def FLAGS_UPPERCASE_def FLAGS_CHAR_def FLAGS_SHORT_def FLAGS_LONG_def
  FLAGS_LONG_LONG_def FLAGS_PRECISION_def FLAGS_ADAPT_EXP_def

text \<open>The condition \<open>flags & m\<close> of an \<open>if\<close>.\<close>

definition has :: "u32 \<Rightarrow> u32 \<Rightarrow> bool" where
  "has flags m \<longleftrightarrow> flags AND m \<noteq> 0"

lemma has_push_bit: "n < 32 \<Longrightarrow> has f (push_bit n 1) \<longleftrightarrow> bit f n"
  by (simp add: has_def push_bit_of_1 and_exp_eq_0_iff_not_bit)

lemma has_or: "has f (m OR n) \<longleftrightarrow> has f m \<or> has f n"
  by (auto simp: has_def bit.conj_disj_distrib or_eq_0_iff)

text \<open>A flag read after flags were set or cleared: bits decide it.\<close>

lemma has_bits:
  "has f FLAGS_ZEROPAD \<longleftrightarrow> bit f 0" "has f FLAGS_LEFT \<longleftrightarrow> bit f 1"
  "has f FLAGS_PLUS \<longleftrightarrow> bit f 2" "has f FLAGS_SPACE \<longleftrightarrow> bit f 3"
  "has f FLAGS_HASH \<longleftrightarrow> bit f 4" "has f FLAGS_UPPERCASE \<longleftrightarrow> bit f 5"
  "has f FLAGS_CHAR \<longleftrightarrow> bit f 6" "has f FLAGS_SHORT \<longleftrightarrow> bit f 7"
  "has f FLAGS_LONG \<longleftrightarrow> bit f 8" "has f FLAGS_LONG_LONG \<longleftrightarrow> bit f 9"
  "has f FLAGS_PRECISION \<longleftrightarrow> bit f 10" "has f FLAGS_ADAPT_EXP \<longleftrightarrow> bit f 11"
  unfolding FLAGS_defs by (rule has_push_bit; simp)+

lemmas flag_bits = has_bits has_or bit_or_iff bit_and_iff bit_not_iff bit_0_eq

section \<open>Output functions\<close>

type_synonym 's out_fct_type = "char \<Rightarrow> u64 \<Rightarrow> u64 \<Rightarrow> u64 \<Rightarrow> 's \<Rightarrow> 's"

definition out_buffer :: "memory out_fct_type" where
  "out_buffer character buffer idx maxlen m =
     (if idx < maxlen then m(buffer + idx := of_char character) else m)"

definition out_null :: "'s out_fct_type" where
  "out_null character buffer idx maxlen s = s"

text \<open>
  \<open>_out_char\<close> hands each character other than NUL to \<open>_putchar_serial\<close>, which is a
  parameter here and the serial driver's function in the theory \<open>Serial\<close>. \<open>_out_fct\<close>
  does the same with the function and the argument of its \<open>out_fct_wrap_type\<close>.
\<close>

definition out_char :: "(char \<Rightarrow> 's \<Rightarrow> 's) \<Rightarrow> 's out_fct_type" where
  "out_char putchar_serial character buffer idx maxlen s =
     (if character \<noteq> CHR 0x00 then putchar_serial character s else s)"

record 's out_fct_wrap_type =
  fct :: "char \<Rightarrow> u64 \<Rightarrow> 's \<Rightarrow> 's"
  arg :: u64

definition out_fct :: "'s out_fct_wrap_type \<Rightarrow> 's out_fct_type" where
  "out_fct w character buffer idx maxlen s =
     (if character \<noteq> CHR 0x00 then fct w character (arg w) s else s)"

definition put :: "'s out_fct_type \<Rightarrow> u64 \<Rightarrow> u64 \<Rightarrow> char \<Rightarrow> u64 \<times> 's \<Rightarrow> u64 \<times> 's" where
  "put out buffer maxlen c p = (fst p + 1, out c buffer (fst p) maxlen (snd p))"

text \<open>
  What every conversion comes down to: a text written character by character from the
  current index on. It is the abstract meaning the concrete loops are refined to.
\<close>

definition emit :: "'s out_fct_type \<Rightarrow> u64 \<Rightarrow> u64 \<Rightarrow> string \<Rightarrow> u64 \<times> 's \<Rightarrow> u64 \<times> 's" where
  "emit out buffer maxlen cs p = fold (put out buffer maxlen) cs p"

lemma emit_simps [simp]:
  "emit out b m [] p = p"
  "emit out b m (c # cs) p = emit out b m cs (put out b m c p)"
  by (simp_all add: emit_def)

lemma emit_append [simp]: "emit out b m (xs @ ys) p = emit out b m ys (emit out b m xs p)"
  by (simp add: emit_def)

lemma fst_put [simp]: "fst (put out b m c p) = fst p + 1"
  by (simp add: put_def)

lemma fst_emit: "fst (emit out b m cs p) = fst p + of_nat (length cs)"
  by (induction cs arbitrary: p) (simp_all add: algebra_simps)

section \<open>Text helpers\<close>

text \<open>
  A C string is the list of its characters; reading it at its end gives the terminating
  NUL. \<open>advance\<close> is \<open>++p\<close> on such a pointer: stepping over the NUL leaves the
  string, which is a fault.
\<close>

definition peek :: "string \<Rightarrow> char" where
  "peek s = (case s of [] \<Rightarrow> CHR 0x00 | c # cs \<Rightarrow> c)"

definition advance :: "string \<Rightarrow> string res" where
  "advance s = (case s of [] \<Rightarrow> Inl OutOfBounds | c # cs \<Rightarrow> Inr cs)"

lemma peek_simps [simp]:
  "peek [] = CHR 0x00" "peek (c # cs) = c"
  by (simp_all add: peek_def)

lemma advance_simps [simp]:
  "advance [] = Inl OutOfBounds" "advance (c # cs) = Inr cs"
  by (simp_all add: advance_def)

lemma advance_Inr: "advance s = Inr s' \<Longrightarrow> length s = Suc (length s')"
  by (cases s) auto

function strnlen_s_loop :: "string \<Rightarrow> u64 \<Rightarrow> u32 \<Rightarrow> u32" where
  "strnlen_s_loop s maxsize n =
     (if peek s \<noteq> CHR 0x00 \<and> maxsize \<noteq> 0
      then strnlen_s_loop (tl s) (maxsize - 1) (n + 1) else n)"
  by pat_completeness auto
termination
  by (relation "measure (\<lambda>(s, maxsize, n). length s)") (auto simp: peek_def split: list.splits)

declare strnlen_s_loop.simps [simp del]

definition strnlen_s :: "string \<Rightarrow> u64 \<Rightarrow> u32" where
  "strnlen_s str maxsize = strnlen_s_loop str maxsize 0"

definition is_digit :: "char \<Rightarrow> bool" where
  "is_digit ch \<longleftrightarrow> CHR ''0'' \<le> ch \<and> ch \<le> CHR ''9''"

text \<open>\<open>_atoi\<close> returns the number, modulo \<open>2 ^ 32\<close>, and the string left to read.\<close>

fun atoi_loop :: "u32 \<Rightarrow> string \<Rightarrow> u32 \<times> string" where
  "atoi_loop i [] = (i, [])"
| "atoi_loop i (c # cs) =
     (if is_digit c then atoi_loop (i * 10 + of_nat (of_char c - 48)) cs else (i, c # cs))"

definition atoi :: "string \<Rightarrow> u32 \<times> string" where
  "atoi str = atoi_loop 0 str"

section \<open>The contract of an output function\<close>

text \<open>
  What a conversion relies on: an output function, called with a fixed buffer and maximum,
  keeps an invariant of the state. Everything printf does with the function is \<open>emit\<close>,
  which then keeps it too.
\<close>

locale sink =
  fixes out :: "'s out_fct_type"
    and buffer :: u64
    and maxlen :: u64
    and sinv :: "'s \<Rightarrow> bool"
  assumes out_sinv: "sinv s \<Longrightarrow> sinv (out c buffer idx maxlen s)"
begin

lemma put_sinv: "sinv (snd p) \<Longrightarrow> sinv (snd (put out buffer maxlen c p))"
  by (simp add: put_def out_sinv)

lemma emit_sinv: "sinv (snd p) \<Longrightarrow> sinv (snd (emit out buffer maxlen cs p))"
  by (induction cs arbitrary: p) (simp_all add: put_sinv)

end

text \<open>
  \<open>_out_buffer\<close> keeps every byte outside \<open>buffer[0..maxlen)\<close>; \<open>_out_null\<close>
  keeps everything; \<open>_out_char\<close> and \<open>_out_fct\<close> keep what the function behind
  them keeps.
\<close>

definition outside_kept :: "u64 \<Rightarrow> u64 \<Rightarrow> memory \<Rightarrow> memory \<Rightarrow> bool" where
  "outside_kept buffer maxlen m0 m \<longleftrightarrow> (\<forall>a. \<not> a - buffer < maxlen \<longrightarrow> m a = m0 a)"

interpretation buffer_sink: sink out_buffer buffer maxlen "outside_kept buffer maxlen m0"
  for buffer maxlen m0
  by unfold_locales (auto simp: outside_kept_def out_buffer_def)

interpretation null_sink: sink out_null buffer maxlen "\<lambda>s. s = s0" for buffer maxlen s0
  by unfold_locales (simp add: out_null_def)

lemma emit_out_null [simp]: "snd (emit out_null b m cs p) = snd p"
  by (induction cs arbitrary: p) (simp_all add: put_def out_null_def)

text \<open>The bytes a text leaves in the buffer.\<close>

lemma put_out_buffer:
  "snd (put out_buffer b n c p) a =
    (if a - b = fst p \<and> a - b < n then of_char c else snd p a)"
  by (auto simp: put_def out_buffer_def diff_eq_eq add.commute)

lemma emit_out_buffer:
  assumes "length cs < 2 ^ 64"
  shows "snd (emit out_buffer b n cs (0, m)) a =
    (if unat (a - b) < length cs \<and> a - b < n then of_char (cs ! unat (a - b)) else m a)"
  using assms
proof (induction cs rule: rev_induct)
  case Nil
  then show ?case by simp
next
  case (snoc c cs)
  have len: "unat (of_nat (length cs) :: u64) = length cs"
    using snoc.prems by (simp add: unsigned_of_nat take_bit_nat_eq_self_iff)
  have eq: "a - b = of_nat (length cs) \<longleftrightarrow> unat (a - b) = length cs"
    by (metis len of_nat_unat unsigned_word_eqI)
  from snoc eq show ?case
    by (auto simp: put_out_buffer fst_emit nth_append less_Suc_eq)
qed

end
