(* ===== verification/Printf_Int.thy ===== *)
theory Printf_Int
  imports Printf_Output
begin

text \<open>
  The integer conversions of \<open>printf.cc\<close>: \<open>_out_rev\<close>, \<open>_ntoa_format\<close>,
  \<open>_ntoa_long\<close> and \<open>_ntoa_long_long\<close>.

  The conversions fill a local \<open>char buf[PRINTF_NTOA_BUFFER_SIZE]\<close> from index 0 on and
  keep the number of live bytes in \<open>len\<close>; \<open>len\<close> only moves by \<open>buf[len++] = c\<close>
  and \<open>len--\<close>. The model keeps the pair as the list of its live bytes: the first is an
  append, checked against the size of the array (\<open>buf_put\<close>), the second is
  \<open>butlast\<close>, and \<open>len\<close> is \<open>length buf\<close>.
\<close>

definition PRINTF_NTOA_BUFFER_SIZE :: nat where "PRINTF_NTOA_BUFFER_SIZE = 32"

definition buf_put :: "nat \<Rightarrow> string \<Rightarrow> char \<Rightarrow> string res" where
  "buf_put sz buf c = (if length buf < sz then Inr (buf @ [c]) else Inl OutOfBounds)"

lemma buf_put_room [simp]: "length buf < sz \<Longrightarrow> buf_put sz buf c = Inr (buf @ [c])"
  by (simp add: buf_put_def)

lemma buf_put_Inr: "buf_put sz buf c = Inr buf' \<Longrightarrow> buf' = buf @ [c] \<and> length buf < sz"
  by (auto simp: buf_put_def split: if_splits)

section \<open>Writing the buffer out\<close>

text \<open>The three loops of \<open>_out_rev\<close>: pad, reverse, append pad.\<close>

function pad_before ::
    "'s out_fct_type \<Rightarrow> u64 \<Rightarrow> u64 \<Rightarrow> u64 \<Rightarrow> u64 \<Rightarrow> u64 \<times> 's \<Rightarrow> u64 \<times> 's" where
  "pad_before out buffer maxlen i width p =
     (if i < width then pad_before out buffer maxlen (i + 1) width (put out buffer maxlen CHR '' '' p)
      else p)"
  by pat_completeness auto
termination
  by (relation "measure (\<lambda>(out, buffer, maxlen, i, width, p). unat width - unat i)")
    (simp_all add: unat_diff_Suc_less)

declare pad_before.simps [simp del]

fun put_rev :: "'s out_fct_type \<Rightarrow> u64 \<Rightarrow> u64 \<Rightarrow> string \<Rightarrow> nat \<Rightarrow> u64 \<times> 's \<Rightarrow> u64 \<times> 's" where
  "put_rev out buffer maxlen buf 0 p = p"
| "put_rev out buffer maxlen buf (Suc len) p =
     put_rev out buffer maxlen buf len (put out buffer maxlen (buf ! len) p)"

lemma fst_put_idx: "fst (put out b m c p) - start = (fst p - start) + 1"
  by (simp add: algebra_simps)

function pad_after ::
    "'s out_fct_type \<Rightarrow> u64 \<Rightarrow> u64 \<Rightarrow> u64 \<Rightarrow> u64 \<Rightarrow> u64 \<times> 's \<Rightarrow> u64 \<times> 's" where
  "pad_after out buffer maxlen start_idx width p =
     (if fst p - start_idx < width
      then pad_after out buffer maxlen start_idx width (put out buffer maxlen CHR '' '' p) else p)"
  by pat_completeness auto
termination
  by (relation "measure (\<lambda>(out, buffer, maxlen, start_idx, width, p).
        unat width - unat (fst p - start_idx))")
    (simp_all add: fst_put_idx unat_diff_Suc_less del: fst_put)

declare pad_after.simps [simp del]

definition out_rev ::
    "'s out_fct_type \<Rightarrow> u64 \<Rightarrow> u64 \<times> 's \<Rightarrow> u64 \<Rightarrow> string \<Rightarrow> u32 \<Rightarrow> u32 \<Rightarrow> u64 \<times> 's" where
  "out_rev out buffer p maxlen buf width flags =
     (let start_idx = fst p;
          p = (if \<not> has flags FLAGS_LEFT \<and> \<not> has flags FLAGS_ZEROPAD
               then pad_before out buffer maxlen (of_nat (length buf)) (ucast width) p else p);
          p = put_rev out buffer maxlen buf (length buf) p
      in if has flags FLAGS_LEFT
         then pad_after out buffer maxlen start_idx (ucast width) p else p)"

text \<open>Each loop emits a text.\<close>

lemma pad_before_emit:
  "pad_before out b m i width p = emit out b m (replicate (unat width - unat i) CHR '' '') p"
proof (induction out b m i width p rule: pad_before.induct)
  case (1 out b m i width p)
  show ?case
  proof (cases "i < width")
    case True
    then have "unat width - unat i = Suc (unat width - unat (i + 1))"
      by (simp add: unat_Suc_less word_less_nat_alt)
    with "1.IH" [OF True] True show ?thesis
      by (simp add: pad_before.simps [of out b m i])
  next
    case False
    then show ?thesis
      by (simp add: pad_before.simps [of out b m i] word_less_nat_alt)
  qed
qed

lemma put_rev_emit:
  "len \<le> length buf \<Longrightarrow> put_rev out b m buf len p = emit out b m (rev (take len buf)) p"
  by (induction len arbitrary: p) (simp_all add: take_Suc_conv_app_nth)

lemma pad_after_emit:
  "pad_after out b m start width p =
    emit out b m (replicate (unat width - unat (fst p - start)) CHR '' '') p"
proof (induction out b m start width p rule: pad_after.induct)
  case (1 out b m start width p)
  show ?case
  proof (cases "fst p - start < width")
    case True
    let ?p' = "put out b m CHR '' '' p"
    have "unat width - unat (fst p - start) = Suc (unat width - unat (fst ?p' - start))"
      using True by (simp add: fst_put_idx unat_Suc_less word_less_nat_alt del: fst_put)
    with "1.IH" [OF True] True show ?thesis
      by (simp add: pad_after.simps [of out b m start] del: fst_put)
  next
    case False
    then show ?thesis
      by (simp add: pad_after.simps [of out b m start] word_less_nat_alt)
  qed
qed

text \<open>
  The reference: a body in a field of a given width, padded with spaces on the left, or on
  the right for \<open>-\<close>, or not at all for \<open>0\<close> (the zeros are in the body already).
\<close>

definition field_text :: "nat \<Rightarrow> u32 \<Rightarrow> string \<Rightarrow> string" where
  "field_text width flags body =
     (if has flags FLAGS_LEFT then body @ replicate (width - length body) CHR '' ''
      else if has flags FLAGS_ZEROPAD then body
      else replicate (width - length body) CHR '' '' @ body)"

lemma length_field_text_le:
  "length (field_text width flags body) \<le> max width (length body)"
  by (auto simp: field_text_def)

lemma out_rev_emit:
  assumes "length buf < 2 ^ 64"
  shows "out_rev out b p m buf width flags =
    emit out b m (field_text (unat width) flags (rev buf)) p"
proof -
  have len: "unat (of_nat (length buf) :: u64) = length buf"
    using assms by (simp add: unsigned_of_nat take_bit_nat_eq_self_iff)
  show ?thesis
    by (simp add: out_rev_def field_text_def pad_before_emit put_rev_emit pad_after_emit
        fst_emit len Let_def)
qed

section \<open>Formatting\<close>

text \<open>
  The pieces of \<open>_ntoa_format\<close> in its order: leading zeros up to the precision and, for
  \<open>0\<close>, up to the width; the prefix of \<open>#\<close>; the sign.
\<close>

function pad_zeros :: "bool \<Rightarrow> u32 \<Rightarrow> string \<Rightarrow> string res" where
  "pad_zeros cond limit buf =
     (if cond \<and> length buf < unat limit \<and> length buf < PRINTF_NTOA_BUFFER_SIZE
      then rbind (buf_put PRINTF_NTOA_BUFFER_SIZE buf CHR ''0'') (pad_zeros cond limit) else Inr buf)"
  by pat_completeness auto
termination
  by (relation "measure (\<lambda>(cond, limit, buf). PRINTF_NTOA_BUFFER_SIZE - length buf)")
    (auto dest: buf_put_Inr)

declare pad_zeros.simps [simp del]

definition ntoa_zeros :: "bool \<Rightarrow> u32 \<Rightarrow> u32 \<Rightarrow> u32 \<Rightarrow> string \<Rightarrow> (u32 \<times> string) res" where
  "ntoa_zeros negative prec width flags buf =
     (if \<not> has flags FLAGS_LEFT
      then let width = (if width \<noteq> 0 \<and> has flags FLAGS_ZEROPAD \<and>
                           (negative \<or> has flags (FLAGS_PLUS OR FLAGS_SPACE))
                        then width - 1 else width)
           in rbind (pad_zeros True prec buf) (\<lambda>buf.
              rbind (pad_zeros (has flags FLAGS_ZEROPAD) width buf) (\<lambda>buf. Inr (width, buf)))
      else Inr (width, buf))"

definition ntoa_hash :: "u32 \<Rightarrow> u32 \<Rightarrow> u32 \<Rightarrow> u32 \<Rightarrow> string \<Rightarrow> string res" where
  "ntoa_hash base prec width flags buf =
     (if has flags FLAGS_HASH
      then let buf = (if \<not> has flags FLAGS_PRECISION \<and> length buf \<noteq> 0 \<and>
                         (length buf = unat prec \<or> length buf = unat width)
                      then let buf = butlast buf
                           in if length buf \<noteq> 0 \<and> base = 16 then butlast buf else buf
                      else buf)
           in rbind (if base = 16 \<and> \<not> has flags FLAGS_UPPERCASE \<and>
                        length buf < PRINTF_NTOA_BUFFER_SIZE
                     then buf_put PRINTF_NTOA_BUFFER_SIZE buf CHR ''x''
                     else if base = 16 \<and> has flags FLAGS_UPPERCASE \<and>
                        length buf < PRINTF_NTOA_BUFFER_SIZE
                     then buf_put PRINTF_NTOA_BUFFER_SIZE buf CHR ''X''
                     else if base = 2 \<and> length buf < PRINTF_NTOA_BUFFER_SIZE
                     then buf_put PRINTF_NTOA_BUFFER_SIZE buf CHR ''b''
                     else Inr buf) (\<lambda>buf.
              if length buf < PRINTF_NTOA_BUFFER_SIZE
              then buf_put PRINTF_NTOA_BUFFER_SIZE buf CHR ''0'' else Inr buf)
      else Inr buf)"

definition ntoa_sign :: "bool \<Rightarrow> u32 \<Rightarrow> string \<Rightarrow> string res" where
  "ntoa_sign negative flags buf =
     (if length buf < PRINTF_NTOA_BUFFER_SIZE
      then if negative then buf_put PRINTF_NTOA_BUFFER_SIZE buf CHR ''-''
           else if has flags FLAGS_PLUS then buf_put PRINTF_NTOA_BUFFER_SIZE buf CHR ''+''
           else if has flags FLAGS_SPACE then buf_put PRINTF_NTOA_BUFFER_SIZE buf CHR '' ''
           else Inr buf
      else Inr buf)"

definition ntoa_format ::
    "'s out_fct_type \<Rightarrow> u64 \<Rightarrow> u64 \<times> 's \<Rightarrow> u64 \<Rightarrow> string \<Rightarrow> bool \<Rightarrow> u32 \<Rightarrow> u32 \<Rightarrow> u32 \<Rightarrow> u32
      \<Rightarrow> (u64 \<times> 's) res" where
  "ntoa_format out buffer p maxlen buf negative base prec width flags =
     rbind (ntoa_zeros negative prec width flags buf) (\<lambda>(width, buf).
     rbind (ntoa_hash base prec width flags buf) (\<lambda>buf.
     rbind (ntoa_sign negative flags buf) (\<lambda>buf.
     Inr (out_rev out buffer p maxlen buf width flags))))"

section \<open>Digits\<close>

definition digit_char :: "u32 \<Rightarrow> nat \<Rightarrow> char" where
  "digit_char flags digit =
     (if digit < 10 then char_of (48 + digit)
      else char_of ((if has flags FLAGS_UPPERCASE then 65 else 97) + digit - 10))"

text \<open>The characters of the digits, for computing concrete numerals.\<close>

lemma digit_chars:
  "char_of (48 :: nat) = CHR ''0''" "char_of (49 :: nat) = CHR ''1''" "char_of (50 :: nat) = CHR ''2''"
  "char_of (51 :: nat) = CHR ''3''" "char_of (52 :: nat) = CHR ''4''" "char_of (53 :: nat) = CHR ''5''"
  "char_of (54 :: nat) = CHR ''6''" "char_of (55 :: nat) = CHR ''7''" "char_of (56 :: nat) = CHR ''8''"
  "char_of (57 :: nat) = CHR ''9''" "char_of (97 :: nat) = CHR ''a''" "char_of (98 :: nat) = CHR ''b''"
  "char_of (99 :: nat) = CHR ''c''" "char_of (100 :: nat) = CHR ''d''" "char_of (101 :: nat) = CHR ''e''"
  "char_of (102 :: nat) = CHR ''f''"
  by code_simp+

text \<open>The \<open>do \<dots> while (value && len < PRINTF_NTOA_BUFFER_SIZE)\<close> loop, least digit first.\<close>

function ntoa_digits :: "u64 \<Rightarrow> u64 \<Rightarrow> u32 \<Rightarrow> string \<Rightarrow> string res" where
  "ntoa_digits value base flags buf =
     rbind (require (base \<noteq> 0) DivideByZero) (\<lambda>_.
     let digit = unat (value mod base)
     in rbind (buf_put PRINTF_NTOA_BUFFER_SIZE buf (digit_char flags digit)) (\<lambda>buf.
        let value = value div base
        in if value \<noteq> 0 \<and> length buf < PRINTF_NTOA_BUFFER_SIZE
           then ntoa_digits value base flags buf else Inr buf))"
  by pat_completeness auto
termination
  by (relation "measure (\<lambda>(value, base, flags, buf). PRINTF_NTOA_BUFFER_SIZE - length buf)")
    (auto dest: buf_put_Inr)

declare ntoa_digits.simps [simp del]

text \<open>Nothing is written for a zero with an explicit precision.\<close>

definition ntoa_convert :: "u64 \<Rightarrow> u64 \<Rightarrow> u32 \<Rightarrow> string res" where
  "ntoa_convert value base flags =
     (if \<not> has flags FLAGS_PRECISION \<or> value \<noteq> 0 then ntoa_digits value base flags []
      else Inr [])"

definition ntoa_long ::
    "'s out_fct_type \<Rightarrow> u64 \<Rightarrow> u64 \<times> 's \<Rightarrow> u64 \<Rightarrow> u64 \<Rightarrow> bool \<Rightarrow> u64 \<Rightarrow> u32 \<Rightarrow> u32 \<Rightarrow> u32
      \<Rightarrow> (u64 \<times> 's) res" where
  "ntoa_long out buffer p maxlen value negative base prec width flags =
     (let flags = (if value = 0 then flags AND NOT FLAGS_HASH else flags)
      in rbind (ntoa_convert value base flags) (\<lambda>buf.
         ntoa_format out buffer p maxlen buf negative (ucast base) prec width flags))"

text \<open>\<open>_ntoa_long_long\<close> is the same code on \<open>unsigned long long\<close>, also 64 bits.\<close>

definition ntoa_long_long ::
    "'s out_fct_type \<Rightarrow> u64 \<Rightarrow> u64 \<times> 's \<Rightarrow> u64 \<Rightarrow> u64 \<Rightarrow> bool \<Rightarrow> u64 \<Rightarrow> u32 \<Rightarrow> u32 \<Rightarrow> u32
      \<Rightarrow> (u64 \<times> 's) res" where
  "ntoa_long_long out buffer p maxlen value negative base prec width flags =
     (let flags = (if value = 0 then flags AND NOT FLAGS_HASH else flags)
      in rbind (ntoa_convert value base flags) (\<lambda>buf.
         ntoa_format out buffer p maxlen buf negative (ucast base) prec width flags))"

section \<open>What the pieces compute\<close>

named_theorems ntoa_simps \<open>the pieces of the integer conversion as list functions\<close>

lemma pad_zeros_eq [ntoa_simps]:
  assumes "length buf \<le> PRINTF_NTOA_BUFFER_SIZE"
  shows "pad_zeros cond limit buf = Inr (buf @
    replicate (if cond then min (unat limit) PRINTF_NTOA_BUFFER_SIZE - length buf else 0) CHR ''0'')"
  using assms
proof (induction cond limit buf rule: pad_zeros.induct)
  case (1 cond limit buf)
  show ?case
  proof (cases "cond \<and> length buf < unat limit \<and> length buf < PRINTF_NTOA_BUFFER_SIZE")
    case True
    have "min (unat limit) PRINTF_NTOA_BUFFER_SIZE - length buf =
        Suc (min (unat limit) PRINTF_NTOA_BUFFER_SIZE - Suc (length buf))"
      using True by auto
    with "1.IH" [OF True, of "buf @ [CHR ''0'']"] True show ?thesis
      by (subst pad_zeros.simps) simp
  next
    case False
    then show ?thesis
      by (subst pad_zeros.simps) (auto simp: min_def)
  qed
qed

definition sign_text :: "bool \<Rightarrow> u32 \<Rightarrow> string" where
  "sign_text negative flags =
     (if negative then ''-'' else if has flags FLAGS_PLUS then ''+''
      else if has flags FLAGS_SPACE then '' '' else [])"

lemma ntoa_sign_eq [ntoa_simps]:
  "ntoa_sign negative flags buf =
     Inr (if length buf < PRINTF_NTOA_BUFFER_SIZE then buf @ sign_text negative flags else buf)"
  by (simp add: ntoa_sign_def sign_text_def)

definition put_opt :: "char \<Rightarrow> string \<Rightarrow> string" where
  "put_opt c buf = (if length buf < PRINTF_NTOA_BUFFER_SIZE then buf @ [c] else buf)"

lemma length_put_opt: "length buf \<le> PRINTF_NTOA_BUFFER_SIZE \<Longrightarrow>
    length (put_opt c buf) \<le> PRINTF_NTOA_BUFFER_SIZE"
  by (simp add: put_opt_def)

text \<open>The digits \<open>#\<close> takes back before it writes the prefix.\<close>

definition hash_strip :: "u32 \<Rightarrow> u32 \<Rightarrow> u32 \<Rightarrow> u32 \<Rightarrow> string \<Rightarrow> string" where
  "hash_strip base prec width flags buf =
     (if \<not> has flags FLAGS_PRECISION \<and> buf \<noteq> [] \<and>
         (length buf = unat prec \<or> length buf = unat width)
      then if butlast buf \<noteq> [] \<and> base = 16 then butlast (butlast buf) else butlast buf
      else buf)"

lemma length_hash_strip: "length (hash_strip base prec width flags buf) \<le> length buf"
  by (simp add: hash_strip_def)

lemma ntoa_hash_eq [ntoa_simps]:
  "ntoa_hash base prec width flags buf =
     Inr (if has flags FLAGS_HASH
          then let buf = hash_strip base prec width flags buf
               in put_opt CHR ''0''
                    (if base = 16
                     then put_opt (if has flags FLAGS_UPPERCASE then CHR ''X'' else CHR ''x'') buf
                     else if base = 2 then put_opt CHR ''b'' buf else buf)
          else buf)"
  by (cases buf rule: rev_cases)
    (auto simp: ntoa_hash_def hash_strip_def put_opt_def Let_def PRINTF_NTOA_BUFFER_SIZE_def)

lemma length_ntoa_hash:
  assumes "length buf \<le> PRINTF_NTOA_BUFFER_SIZE" "ntoa_hash base prec width flags buf = Inr buf'"
  shows "length buf' \<le> PRINTF_NTOA_BUFFER_SIZE"
proof -
  have "length (hash_strip base prec width flags buf) \<le> PRINTF_NTOA_BUFFER_SIZE"
    using assms(1) length_hash_strip le_trans by blast
  with assms show ?thesis
    by (auto simp: ntoa_hash_eq Let_def intro!: length_put_opt)
qed

lemma ntoa_zeros_Inr:
  assumes "length buf \<le> PRINTF_NTOA_BUFFER_SIZE"
  shows "\<exists>width' buf'. ntoa_zeros negative prec width flags buf = Inr (width', buf') \<and>
    length buf' \<le> PRINTF_NTOA_BUFFER_SIZE \<and> width' \<le> width"
proof (cases "has flags FLAGS_LEFT")
  case True
  then show ?thesis using assms by (simp add: ntoa_zeros_def)
next
  case False
  have "width \<noteq> 0 \<Longrightarrow> width - 1 \<le> width"
    by (simp add: word_le_nat_alt unat_minus_one)
  then show ?thesis
    using False assms by (auto simp: ntoa_zeros_def ntoa_simps Let_def)
qed

text \<open>
  Formatting a buffer that fits never faults: it emits a text that depends only on the
  arguments of the conversion, and whose length is bounded.
\<close>

definition ntoa_format_text :: "string \<Rightarrow> bool \<Rightarrow> u32 \<Rightarrow> u32 \<Rightarrow> u32 \<Rightarrow> u32 \<Rightarrow> string" where
  "ntoa_format_text buf negative base prec width flags =
     (case rbind (ntoa_zeros negative prec width flags buf) (\<lambda>(width, buf).
           rbind (ntoa_hash base prec width flags buf) (\<lambda>buf.
           rbind (ntoa_sign negative flags buf) (\<lambda>buf.
           Inr (field_text (unat width) flags (rev buf))))) of
        Inr cs \<Rightarrow> cs | Inl e \<Rightarrow> [])"

lemma ntoa_format_emit:
  assumes "length buf \<le> PRINTF_NTOA_BUFFER_SIZE"
  shows "ntoa_format out b p m buf negative base prec width flags =
      Inr (emit out b m (ntoa_format_text buf negative base prec width flags) p)"
    and "length (ntoa_format_text buf negative base prec width flags)
      \<le> max (unat width) PRINTF_NTOA_BUFFER_SIZE"
proof -
  obtain w buf1 where z: "ntoa_zeros negative prec width flags buf = Inr (w, buf1)"
    and l1: "length buf1 \<le> PRINTF_NTOA_BUFFER_SIZE" and w: "w \<le> width"
    using ntoa_zeros_Inr [OF assms] by blast
  obtain buf2 where h: "ntoa_hash base prec w flags buf1 = Inr buf2"
    by (simp add: ntoa_hash_eq)
  have l2: "length buf2 \<le> PRINTF_NTOA_BUFFER_SIZE"
    by (rule length_ntoa_hash [OF l1 h])
  obtain buf3 where s: "ntoa_sign negative flags buf2 = Inr buf3"
    and l3: "length buf3 \<le> PRINTF_NTOA_BUFFER_SIZE"
    using l2 by (auto simp: ntoa_sign_eq sign_text_def)
  have t: "ntoa_format_text buf negative base prec width flags = field_text (unat w) flags (rev buf3)"
    by (simp add: ntoa_format_text_def z h s)
  have "length buf3 < 2 ^ 64"
    using l3 by (simp add: PRINTF_NTOA_BUFFER_SIZE_def)
  then show "ntoa_format out b p m buf negative base prec width flags =
      Inr (emit out b m (ntoa_format_text buf negative base prec width flags) p)"
    by (simp add: ntoa_format_def t z h s out_rev_emit)
  show "length (ntoa_format_text buf negative base prec width flags)
      \<le> max (unat width) PRINTF_NTOA_BUFFER_SIZE"
    using length_field_text_le [of "unat w" flags "rev buf3"] w l3 by (simp add: t word_le_nat_alt)
qed

section \<open>The digits against positional notation\<close>

text \<open>
  The reference: the digits of a number in a base, least first, and the number a list of
  digits denotes.
\<close>

fun num_digits :: "nat \<Rightarrow> nat \<Rightarrow> nat list" where
  "num_digits base n =
     (if n < base \<or> base < 2 then [n] else (n mod base) # num_digits base (n div base))"

declare num_digits.simps [simp del]

definition digits_value :: "nat \<Rightarrow> nat list \<Rightarrow> nat" where
  "digits_value base ds = foldr (\<lambda>d n. d + base * n) ds 0"

lemma digits_value_simps [simp]:
  "digits_value base [] = 0"
  "digits_value base (d # ds) = d + base * digits_value base ds"
  by (simp_all add: digits_value_def)

lemma digits_value_append:
  "digits_value base (xs @ ys) = digits_value base xs + base ^ length xs * digits_value base ys"
  by (induction xs) (simp_all add: algebra_simps)

lemma digits_value_replicate_0 [simp]: "digits_value base (replicate k 0) = 0"
  by (induction k) simp_all

lemma digits_value_num_digits: "digits_value base (num_digits base n) = n"
proof (induction base n rule: num_digits.induct)
  case (1 base n)
  then show ?case
    by (subst num_digits.simps) (simp add: mod_mult_div_eq)
qed

lemma num_digits_less: "2 \<le> base \<Longrightarrow> d \<in> set (num_digits base n) \<Longrightarrow> d < base"
proof (induction base n rule: num_digits.induct)
  case (1 base n)
  show ?case
  proof (cases "n < base")
    case True
    with 1 show ?thesis by (subst (asm) num_digits.simps) simp
  next
    case False
    with 1 show ?thesis by (subst (asm) (2) num_digits.simps) auto
  qed
qed

lemma num_digits_not_Nil [simp]: "num_digits base n \<noteq> []"
  by (subst num_digits.simps) simp

lemma length_num_digits:
  "2 \<le> base \<Longrightarrow> n < base ^ k \<Longrightarrow> 0 < k \<Longrightarrow> length (num_digits base n) \<le> k"
proof (induction base n arbitrary: k rule: num_digits.induct)
  case (1 base n)
  show ?case
  proof (cases "n < base")
    case True
    with 1 show ?thesis by (subst num_digits.simps) simp
  next
    case False
    with "1.prems" obtain j where k: "k = Suc j" "0 < j"
      by (metis Suc_pred bot_nat_0.not_eq_extremum power_0 power_Suc0_right One_nat_def)
    then have "n div base < base ^ j"
      using "1.prems" by (simp add: less_mult_imp_div_less mult.commute)
    with "1.IH" [of j] False "1.prems" k show ?thesis
      by (subst num_digits.simps) simp
  qed
qed

lemma digits_value_take:
  assumes "\<And>d. d \<in> set ds \<Longrightarrow> d < base"
  shows "digits_value base (take k ds) = digits_value base ds mod base ^ k"
  using assms
proof (induction ds arbitrary: k)
  case Nil
  then show ?case by simp
next
  case (Cons d ds)
  show ?case
  proof (cases k)
    case 0
    then show ?thesis by simp
  next
    case (Suc j)
    have "d < base" using Cons.prems by simp
    have "(d + base * digits_value base ds) mod base ^ Suc j =
        d + base * (digits_value base ds mod base ^ j)"
      using \<open>d < base\<close> by (simp add: mod_mult2_eq)
    with Cons Suc show ?thesis by simp
  qed
qed

text \<open>The loop writes the least 32 digits of the value.\<close>

lemma ntoa_digits_eq:
  assumes "2 \<le> unat base" "length buf < PRINTF_NTOA_BUFFER_SIZE"
  shows "ntoa_digits v base flags buf = Inr (buf @ map (digit_char flags)
    (take (PRINTF_NTOA_BUFFER_SIZE - length buf) (num_digits (unat base) (unat v))))"
  using assms
proof (induction v base flags buf rule: ntoa_digits.induct)
  case (1 v base flags buf)
  let ?d = "unat (v mod base)"
  let ?buf = "buf @ [digit_char flags ?d]"
  have base: "base \<noteq> 0"
    using "1.prems"(1) by auto
  have room: "PRINTF_NTOA_BUFFER_SIZE - length buf = Suc (PRINTF_NTOA_BUFFER_SIZE - length ?buf)"
    using "1.prems"(2) by simp
  have zero: "v div base = 0 \<longleftrightarrow> unat v < unat base"
    using base by (metis div_eq_0_iff unat_div_distrib unat_eq_0)
  have unfold: "ntoa_digits v base flags buf =
      (if v div base \<noteq> 0 \<and> length ?buf < PRINTF_NTOA_BUFFER_SIZE
       then ntoa_digits (v div base) base flags ?buf else Inr ?buf)"
    using base "1.prems"(2) by (subst ntoa_digits.simps) (simp add: Let_def)
  show ?case
  proof (cases "v div base \<noteq> 0 \<and> length ?buf < PRINTF_NTOA_BUFFER_SIZE")
    case True
    then have "ntoa_digits (v div base) base flags ?buf = Inr (?buf @ map (digit_char flags)
        (take (PRINTF_NTOA_BUFFER_SIZE - length ?buf) (num_digits (unat base) (unat (v div base)))))"
      using "1.IH" [of "()" ?d ?buf "v div base"] base "1.prems" by simp
    with True zero "1.prems"(1) show ?thesis
      by (subst num_digits.simps) (simp add: unfold room unat_div_distrib unat_mod_distrib
          del: One_nat_def)
  next
    case False
    then show ?thesis
      using "1.prems" zero
      by (subst num_digits.simps) (auto simp: unfold room unat_mod_distrib)
  qed
qed

definition digits_text :: "u32 \<Rightarrow> nat \<Rightarrow> nat \<Rightarrow> string" where
  "digits_text flags base n = rev (map (digit_char flags) (num_digits base n))"

text \<open>Reading a numeral back.\<close>

definition digit_value :: "char \<Rightarrow> nat" where
  "digit_value c =
     (let n = of_char c in if n < 58 then n - 48 else if n < 97 then n - 55 else n - 87)"

definition text_value :: "nat \<Rightarrow> string \<Rightarrow> nat" where
  "text_value base cs = digits_value base (map digit_value (rev cs))"

lemma digit_value_digit_char: "d < 36 \<Longrightarrow> digit_value (digit_char flags d) = d"
  by (auto simp: digit_value_def digit_char_def Let_def)

lemma digit_value_0 [simp]: "digit_value CHR ''0'' = 0"
  by (simp add: digit_value_def)

lemma text_value_zeros_digits:
  assumes "2 \<le> base" "base \<le> 36"
  shows "text_value base (replicate k CHR ''0'' @ digits_text flags base n) = n"
proof -
  have "d < 36" if "d \<in> set (num_digits base n)" for d
    using num_digits_less [OF assms(1) that] assms(2) by simp
  then have "map digit_value (map (digit_char flags) (num_digits base n)) = num_digits base n"
    by (auto intro!: map_idI simp: digit_value_digit_char)
  then show ?thesis
    by (simp add: text_value_def digits_text_def rev_map [symmetric] digits_value_append
        digits_value_num_digits del: map_map)
qed

lemma text_value_zeros [simp]: "text_value base (replicate k CHR ''0'') = 0"
  by (simp add: text_value_def)

lemma take_num_digits:
  assumes "2 \<le> base" "n < base ^ 31"
  shows "length (num_digits base n) \<le> 31" "take 32 (num_digits base n) = num_digits base n"
  using length_num_digits [OF assms] by simp_all

text \<open>
  The text of a conversion without \<open>#\<close>: sign, leading zeros and digits, in the field.
\<close>

definition ntoa_digits_text :: "u64 \<Rightarrow> u64 \<Rightarrow> u32 \<Rightarrow> string" where
  "ntoa_digits_text v base flags =
     (if has flags FLAGS_PRECISION \<and> v = 0 then [] else digits_text flags (unat base) (unat v))"

definition ntoa_zero_count :: "nat \<Rightarrow> bool \<Rightarrow> u32 \<Rightarrow> u32 \<Rightarrow> u32 \<Rightarrow> nat" where
  "ntoa_zero_count len negative prec width flags =
     (if has flags FLAGS_LEFT then 0
      else max (unat prec)
             (if has flags FLAGS_ZEROPAD then unat width - length (sign_text negative flags) else 0)
           - len)"

lemma length_sign_text:
  "length (sign_text negative flags) =
    (if negative \<or> has flags (FLAGS_PLUS OR FLAGS_SPACE) then 1 else 0)"
  by (auto simp: sign_text_def has_or)

lemma ntoa_zeros_fits:
  assumes "length buf \<le> 31" "unat prec < 32" "has flags FLAGS_ZEROPAD \<Longrightarrow> unat width \<le> 32"
  shows "\<exists>width'. ntoa_zeros negative prec width flags buf =
      Inr (width', buf @ replicate (ntoa_zero_count (length buf) negative prec width flags) CHR ''0'')
    \<and> (has flags FLAGS_LEFT \<or> \<not> has flags FLAGS_ZEROPAD \<longrightarrow> width' = width)"
proof -
  have "width \<noteq> 0 \<Longrightarrow> unat (width - 1) = unat width - 1"
    by (simp add: unat_minus_one)
  with assms show ?thesis
    by (auto simp: ntoa_zeros_def ntoa_zero_count_def length_sign_text pad_zeros_eq Let_def
        PRINTF_NTOA_BUFFER_SIZE_def min_def max_def replicate_add [symmetric] unat_eq_0)
qed

definition ntoa_text :: "u64 \<Rightarrow> bool \<Rightarrow> u64 \<Rightarrow> u32 \<Rightarrow> u32 \<Rightarrow> u32 \<Rightarrow> string" where
  "ntoa_text v negative base prec width flags =
     (let ds = ntoa_digits_text v base flags
      in field_text (unat width) flags
           (sign_text negative flags @
            replicate (ntoa_zero_count (length ds) negative prec width flags) CHR ''0'' @ ds))"

text \<open>The conditions under which nothing is cut off by the 32-byte buffer.\<close>

definition ntoa_fits :: "u64 \<Rightarrow> u64 \<Rightarrow> u32 \<Rightarrow> u32 \<Rightarrow> u32 \<Rightarrow> bool" where
  "ntoa_fits v base prec width flags \<longleftrightarrow>
     2 \<le> unat base \<and> unat v < unat base ^ 31 \<and> unat prec < 32 \<and>
     (has flags FLAGS_ZEROPAD \<longrightarrow> unat width \<le> 32)"

lemma field_text_zeropad:
  "has flags FLAGS_ZEROPAD \<Longrightarrow> \<not> has flags FLAGS_LEFT \<Longrightarrow> field_text w flags cs = cs"
  by (simp add: field_text_def)

lemma ntoa_format_fits:
  assumes "\<not> has flags FLAGS_HASH" "length ds \<le> 31" "unat prec < 32"
    "has flags FLAGS_ZEROPAD \<Longrightarrow> unat width \<le> 32"
  shows "ntoa_format out b p m (rev ds) negative base prec width flags =
    Inr (emit out b m (field_text (unat width) flags (sign_text negative flags @
      replicate (ntoa_zero_count (length ds) negative prec width flags) CHR ''0'' @ ds)) p)"
proof -
  let ?k = "ntoa_zero_count (length ds) negative prec width flags"
  obtain w where z: "ntoa_zeros negative prec width flags (rev ds) =
      Inr (w, rev ds @ replicate ?k CHR ''0'')"
    and w: "has flags FLAGS_LEFT \<or> \<not> has flags FLAGS_ZEROPAD \<longrightarrow> w = width"
    using ntoa_zeros_fits [of "rev ds" prec flags width negative] assms by auto
  have "sign_text negative flags \<noteq> [] \<Longrightarrow> length (sign_text negative flags) = 1"
    by (simp add: sign_text_def split: if_splits)
  then have fits: "sign_text negative flags \<noteq> [] \<Longrightarrow> length ds + ?k < 32" "length ds + ?k \<le> 32"
    using assms(2,3,4) by (auto simp: ntoa_zero_count_def max_def)
  have sign: "rev (sign_text negative flags) = sign_text negative flags"
    by (simp add: sign_text_def)
  have s: "ntoa_sign negative flags (rev ds @ replicate ?k CHR ''0'') =
      Inr (rev (sign_text negative flags @ replicate ?k CHR ''0'' @ ds))"
    using fits by (cases "sign_text negative flags = []")
      (simp_all add: ntoa_sign_eq sign PRINTF_NTOA_BUFFER_SIZE_def)
  have "length (sign_text negative flags) \<le> 1"
    by (simp add: length_sign_text)
  have "length (sign_text negative flags @ replicate ?k CHR ''0'' @ ds) < 2 ^ 64"
    using fits(2) \<open>length (sign_text negative flags) \<le> 1\<close> by simp
  moreover have "field_text (unat w) flags cs = field_text (unat width) flags cs" for cs
    using w by (cases "has flags FLAGS_LEFT \<or> \<not> has flags FLAGS_ZEROPAD")
      (simp_all add: field_text_zeropad)
  ultimately show ?thesis
    using assms(1) by (simp add: ntoa_format_def z s ntoa_hash_eq out_rev_emit)
qed

lemma ntoa_long_long_eq: "ntoa_long_long = ntoa_long"
  by (intro ext) (simp add: ntoa_long_long_def ntoa_long_def)

lemma ntoa_long_fits:
  assumes "\<not> has flags FLAGS_HASH" "ntoa_fits v base prec width flags"
  shows "ntoa_long out b p m v negative base prec width flags =
    Inr (emit out b m (ntoa_text v negative base prec width flags) p)"
proof -
  let ?ds = "ntoa_digits_text v base flags"
  have nh: "(if v = 0 then flags AND NOT FLAGS_HASH else flags) = flags"
    using assms(1) by (auto simp: has_def bit_eq_iff flag_bits bit_simps)
  have fits: "2 \<le> unat base" "unat v < unat base ^ 31"
    using assms(2) by (simp_all add: ntoa_fits_def)
  have digits: "ntoa_convert v base flags = Inr (rev ?ds)"
    using fits take_num_digits [OF fits]
    by (simp add: ntoa_convert_def ntoa_digits_eq ntoa_digits_text_def digits_text_def PRINTF_NTOA_BUFFER_SIZE_def)
  have len: "length ?ds \<le> 31"
    using take_num_digits [OF fits] by (simp add: ntoa_digits_text_def digits_text_def)
  show ?thesis
    using ntoa_format_fits [OF assms(1) len, of prec width out b p m negative "ucast base"] assms(2)
    by (simp add: ntoa_long_def nh digits ntoa_text_def ntoa_fits_def Let_def)
qed

text \<open>Without any condition on the sizes: no fault, and a bounded text.\<close>

lemma ntoa_convert_total:
  assumes "2 \<le> unat base"
  shows "\<exists>buf. ntoa_convert v base flags = Inr buf \<and> length buf \<le> PRINTF_NTOA_BUFFER_SIZE"
  using assms by (simp add: ntoa_convert_def ntoa_digits_eq PRINTF_NTOA_BUFFER_SIZE_def)

definition ntoa_long_text :: "u64 \<Rightarrow> bool \<Rightarrow> u64 \<Rightarrow> u32 \<Rightarrow> u32 \<Rightarrow> u32 \<Rightarrow> string" where
  "ntoa_long_text v negative base prec width flags =
     (let flags = (if v = 0 then flags AND NOT FLAGS_HASH else flags)
      in case ntoa_convert v base flags of
           Inr buf \<Rightarrow> ntoa_format_text buf negative (ucast base) prec width flags | Inl e \<Rightarrow> [])"

lemma ntoa_long_emit:
  assumes "2 \<le> unat base"
  shows "ntoa_long out b p m v negative base prec width flags =
      Inr (emit out b m (ntoa_long_text v negative base prec width flags) p)"
    and "length (ntoa_long_text v negative base prec width flags)
      \<le> max (unat width) PRINTF_NTOA_BUFFER_SIZE"
proof -
  let ?flags = "if v = 0 then flags AND NOT FLAGS_HASH else flags"
  obtain buf where buf: "ntoa_convert v base ?flags = Inr buf"
    and len: "length buf \<le> PRINTF_NTOA_BUFFER_SIZE"
    using ntoa_convert_total [OF assms] by blast
  show "ntoa_long out b p m v negative base prec width flags =
      Inr (emit out b m (ntoa_long_text v negative base prec width flags) p)"
    using ntoa_format_emit(1) [OF len, of out b p m negative "ucast base" prec width ?flags] buf
    by (simp add: ntoa_long_def ntoa_long_text_def Let_def)
  show "length (ntoa_long_text v negative base prec width flags)
      \<le> max (unat width) PRINTF_NTOA_BUFFER_SIZE"
    using ntoa_format_emit(2) [OF len, of negative "ucast base" prec width ?flags] buf
    by (simp add: ntoa_long_text_def Let_def)
qed

section \<open>The hexadecimal prefix\<close>

lemma butlast_rev: "butlast (rev xs) = rev (drop 1 xs)"
  by (cases xs) simp_all

lemma hash_strip_rev:
  assumes "\<not> has flags FLAGS_PRECISION" "ds \<noteq> []"
  shows "hash_strip 16 0 width flags (rev ds) =
    rev (if length ds = unat width then drop 2 ds else ds)"
proof -
  have "butlast (rev ds) = [] \<Longrightarrow> drop 2 ds = []"
    by (cases ds) (simp_all add: butlast_rev)
  then show ?thesis
    using assms by (auto simp: hash_strip_def butlast_rev numeral_2_eq_2 drop_Suc)
qed

lemma ntoa_long_hash16:
  assumes "has flags FLAGS_HASH" "\<not> has flags FLAGS_PRECISION" "v \<noteq> 0"
    "has flags FLAGS_LEFT \<or> \<not> has flags FLAGS_ZEROPAD"
  shows "ntoa_long out b p m v negative 16 0 width flags =
    (let ds = digits_text flags 16 (unat v)
     in Inr (emit out b m (field_text (unat width) flags
          (sign_text negative flags @ (if has flags FLAGS_UPPERCASE then ''0X'' else ''0x'') @
           (if length ds = unat width then drop 2 ds else ds))) p))"
proof -
  let ?ds = "digits_text flags 16 (unat v)"
  let ?x = "if has flags FLAGS_UPPERCASE then CHR ''X'' else CHR ''x''"
  let ?t = "if length ?ds = unat width then drop 2 ?ds else ?ds"
  have "unat v < 16 ^ 16"
    using unsigned_less [of v, where ?'a = nat] by simp
  then have len: "length (num_digits 16 (unat v)) \<le> 16"
    by (intro length_num_digits) simp_all
  then have "ntoa_convert v 16 flags = Inr (rev ?ds)"
    using assms(2) by (simp add: ntoa_convert_def ntoa_digits_eq digits_text_def
        PRINTF_NTOA_BUFFER_SIZE_def)
  moreover have z: "ntoa_zeros negative 0 width flags (rev ?ds) = Inr (width, rev ?ds)"
    using assms(4) len by (auto simp: ntoa_zeros_def digits_text_def pad_zeros_eq
        PRINTF_NTOA_BUFFER_SIZE_def)
  moreover have lt: "length ?t \<le> 16"
    using len by (auto simp: digits_text_def)
  have ne: "?ds \<noteq> []"
    by (simp add: digits_text_def)
  have "ntoa_hash 16 0 width flags (rev ?ds) = Inr (rev (CHR ''0'' # ?x # ?t))"
    unfolding ntoa_hash_eq hash_strip_rev [OF assms(2) ne] Let_def
    using assms(1) lt by (simp add: put_opt_def PRINTF_NTOA_BUFFER_SIZE_def)
  moreover have "ntoa_sign negative flags (rev (CHR ''0'' # ?x # ?t)) =
      Inr (rev (sign_text negative flags @ CHR ''0'' # ?x # ?t))"
    using lt by (simp add: ntoa_sign_eq sign_text_def PRINTF_NTOA_BUFFER_SIZE_def)
  moreover have "length (sign_text negative flags @ CHR ''0'' # ?x # ?t) < 2 ^ 64"
    using lt by (simp add: length_sign_text)
  ultimately show ?thesis
    using assms(3) by (simp add: ntoa_long_def ntoa_format_def out_rev_emit Let_def)
qed

end
