(* ===== verification/Double.thy ===== *)
theory Double
  imports Prelude
begin

text \<open>
  The C++ type \<open>double\<close> of x86-64: IEEE 754 binary64 with rounding to nearest, ties to
  even. A finite value is a sign, a significand and a binary exponent; every operation is
  the exact rational result, rounded once. \<open>double_round\<close> is the only place where
  rounding happens, so the values it returns are in the canonical form \<open>double_ok\<close>
  describes.
\<close>

datatype double =
    NaN
  | Inf bool
  | Fin bool nat int

section \<open>Rounding\<close>

fun bit_length :: "nat \<Rightarrow> nat" where
  "bit_length n = (if n = 0 then 0 else Suc (bit_length (n div 2)))"

declare bit_length.simps [simp del]

text \<open>\<open>2 ^ e\<close> for an integer exponent, as the factors of a fraction.\<close>

definition up2 :: "int \<Rightarrow> nat" where "up2 e = (if 0 \<le> e then 2 ^ nat e else 1)"
definition down2 :: "int \<Rightarrow> nat" where "down2 e = (if 0 \<le> e then 1 else 2 ^ nat (- e))"

text \<open>The binary exponent of the positive fraction \<open>n / d\<close>.\<close>

definition floor_log2 :: "nat \<Rightarrow> nat \<Rightarrow> int" where
  "floor_log2 n d =
     (let k = int (bit_length n) - int (bit_length d)
      in if d * up2 k \<le> n * down2 k then k else k - 1)"

text \<open>The fraction rounded to an integer, ties to even.\<close>

definition round_even :: "nat \<Rightarrow> nat \<Rightarrow> nat" where
  "round_even n d =
     (let q = n div d; r = n mod d
      in if 2 * r > d \<or> (2 * r = d \<and> odd q) then Suc q else q)"

definition double_round :: "bool \<Rightarrow> nat \<Rightarrow> nat \<Rightarrow> double" where
  "double_round s n d =
     (if n = 0 then Fin s 0 (-1074)
      else let e = max (floor_log2 n d - 52) (-1074);
               q = round_even (n * down2 e) (d * up2 e);
               (q, e) = (if q = 2 ^ 53 then (2 ^ 52, e + 1) else (q, e))
           in if e > 971 then Inf s else Fin s q e)"

definition double_ok :: "double \<Rightarrow> bool" where
  "double_ok x = (case x of
      Fin s m e \<Rightarrow> m < 2 ^ 53 \<and> -1074 \<le> e \<and> e \<le> 971 \<and> (2 ^ 52 \<le> m \<or> e = -1074)
    | _ \<Rightarrow> True)"

section \<open>Arithmetic\<close>

text \<open>A finite value as a fraction of an integer and a positive denominator.\<close>

definition dnum :: "bool \<Rightarrow> nat \<Rightarrow> int \<Rightarrow> int" where
  "dnum s m e = (if s then - int (m * up2 e) else int (m * up2 e))"

text \<open>Rounding a signed fraction; an exact zero gets the given sign.\<close>

definition double_frac :: "bool \<Rightarrow> int \<Rightarrow> nat \<Rightarrow> double" where
  "double_frac zero_sign n d =
     (if n = 0 then Fin zero_sign 0 (-1074) else double_round (n < 0) (nat \<bar>n\<bar>) d)"

definition double_of_int :: "int \<Rightarrow> double" where
  "double_of_int i = double_frac False i 1"

fun double_neg :: "double \<Rightarrow> double" where
  "double_neg NaN = NaN"
| "double_neg (Inf s) = Inf (\<not> s)"
| "double_neg (Fin s m e) = Fin (\<not> s) m e"

fun double_add :: "double \<Rightarrow> double \<Rightarrow> double" where
  "double_add NaN y = NaN"
| "double_add x NaN = NaN"
| "double_add (Inf s) (Inf t) = (if s = t then Inf s else NaN)"
| "double_add (Inf s) y = Inf s"
| "double_add x (Inf t) = Inf t"
| "double_add (Fin s m e) (Fin t n f) =
     double_frac (s \<and> t) (dnum s m e * int (down2 f) + dnum t n f * int (down2 e))
       (down2 e * down2 f)"

definition double_sub :: "double \<Rightarrow> double \<Rightarrow> double" where
  "double_sub x y = double_add x (double_neg y)"

fun double_mul :: "double \<Rightarrow> double \<Rightarrow> double" where
  "double_mul NaN y = NaN"
| "double_mul x NaN = NaN"
| "double_mul (Inf s) (Inf t) = Inf (s \<noteq> t)"
| "double_mul (Inf s) (Fin t n f) = (if n = 0 then NaN else Inf (s \<noteq> t))"
| "double_mul (Fin s m e) (Inf t) = (if m = 0 then NaN else Inf (s \<noteq> t))"
| "double_mul (Fin s m e) (Fin t n f) =
     double_round (s \<noteq> t) (m * n * up2 e * up2 f) (down2 e * down2 f)"

fun double_div :: "double \<Rightarrow> double \<Rightarrow> double" where
  "double_div NaN y = NaN"
| "double_div x NaN = NaN"
| "double_div (Inf s) (Inf t) = NaN"
| "double_div (Inf s) (Fin t n f) = Inf (s \<noteq> t)"
| "double_div (Fin s m e) (Inf t) = Fin (s \<noteq> t) 0 (-1074)"
| "double_div (Fin s m e) (Fin t n f) =
     (if n = 0 then if m = 0 then NaN else Inf (s \<noteq> t)
      else double_round (s \<noteq> t) (m * up2 e * down2 f) (n * up2 f * down2 e))"

section \<open>Comparisons\<close>

fun double_less :: "double \<Rightarrow> double \<Rightarrow> bool" where
  "double_less NaN y = False"
| "double_less x NaN = False"
| "double_less (Inf s) (Inf t) = (s \<and> \<not> t)"
| "double_less (Inf s) (Fin t n f) = s"
| "double_less (Fin s m e) (Inf t) = (\<not> t)"
| "double_less (Fin s m e) (Fin t n f) =
     (dnum s m e * int (down2 f) < dnum t n f * int (down2 e))"

fun double_eq :: "double \<Rightarrow> double \<Rightarrow> bool" where
  "double_eq NaN y = False"
| "double_eq x NaN = False"
| "double_eq (Inf s) (Inf t) = (s = t)"
| "double_eq (Inf s) (Fin t n f) = False"
| "double_eq (Fin s m e) (Inf t) = False"
| "double_eq (Fin s m e) (Fin t n f) =
     (dnum s m e * int (down2 f) = dnum t n f * int (down2 e))"

definition double_le :: "double \<Rightarrow> double \<Rightarrow> bool" where
  "double_le x y \<longleftrightarrow> double_less x y \<or> double_eq x y"

section \<open>Conversions\<close>

text \<open>
  A conversion to an integer type truncates towards zero; where the truncated value does
  not fit the target type the behaviour is undefined.
\<close>

definition double_trunc :: "double \<Rightarrow> int res" where
  "double_trunc x = (case x of
      Fin s m e \<Rightarrow> (let a = int (m * up2 e div down2 e) in Inr (if s then - a else a))
    | _ \<Rightarrow> Inl BadConversion)"

definition double_to_int :: "double \<Rightarrow> int res" where
  "double_to_int x = rbind (double_trunc x) (\<lambda>i.
     if - (2 ^ 31) \<le> i \<and> i < 2 ^ 31 then Inr i else Inl BadConversion)"

definition double_to_ulong :: "double \<Rightarrow> u64 res" where
  "double_to_ulong x = rbind (double_trunc x) (\<lambda>i.
     if 0 \<le> i \<and> i < 2 ^ 64 then Inr (word_of_int i) else Inl BadConversion)"

text \<open>The object representation, as the union in \<open>_etoa\<close> reads and writes it.\<close>

definition double_to_bits :: "double \<Rightarrow> u64" where
  "double_to_bits x = (case x of
      NaN \<Rightarrow> word_of_nat (2047 * 2 ^ 52 + 2 ^ 51)
    | Inf s \<Rightarrow> word_of_nat ((if s then 2 ^ 63 else 0) + 2047 * 2 ^ 52)
    | Fin s m e \<Rightarrow> word_of_nat ((if s then 2 ^ 63 else 0) +
        (if 2 ^ 52 \<le> m then nat (e + 1075) * 2 ^ 52 + (m - 2 ^ 52) else m)))"

definition double_of_bits :: "u64 \<Rightarrow> double" where
  "double_of_bits w =
     (let s = bit w 63;
          ex = unat (drop_bit 52 w AND 2047);
          f = unat (take_bit 52 w)
      in if ex = 2047 then (if f = 0 then Inf s else NaN)
         else if ex = 0 then Fin s f (-1074)
         else Fin s (2 ^ 52 + f) (int ex - 1075))"

text \<open>The largest finite value, and the literals of \<open>printf.cc\<close>.\<close>

definition DBL_MAX :: double where "DBL_MAX = Fin False (2 ^ 53 - 1) 971"

definition decimal :: "nat \<Rightarrow> nat \<Rightarrow> double" where
  "decimal n d = double_round False n d"

section \<open>Scaling\<close>

text \<open>Rounding depends on the fraction only, not on how it is written.\<close>

lemma bit_length_double: "0 < n \<Longrightarrow> bit_length (2 * n) = Suc (bit_length n)"
  by (subst bit_length.simps) simp

lemma bit_length_scale: "0 < n \<Longrightarrow> bit_length (n * 2 ^ k) = bit_length n + k"
proof (induction k)
  case (Suc k)
  then show ?case using bit_length_double [of "n * 2 ^ k"] by (simp add: algebra_simps)
qed simp

lemma floor_log2_scale:
  assumes "0 < n" "0 < d"
  shows "floor_log2 (n * 2 ^ k) (d * 2 ^ k) = floor_log2 n d"
proof -
  have "d * 2 ^ k * a \<le> n * 2 ^ k * b \<longleftrightarrow> d * a \<le> n * b" for a b :: nat
  proof -
    have "d * 2 ^ k * a = 2 ^ k * (d * a)" "n * 2 ^ k * b = 2 ^ k * (n * b)"
      by (simp_all add: ac_simps)
    then show ?thesis by (simp only: mult_le_cancel1) simp
  qed
  then show ?thesis
    using assms by (simp add: floor_log2_def bit_length_scale)
qed

lemma round_even_scale: "0 < c \<Longrightarrow> round_even (n * c) (d * c) = round_even n d"
  by (simp add: round_even_def Let_def mult_mod_left [symmetric])

lemma double_round_scale:
  assumes "0 < d"
  shows "double_round s (n * 2 ^ k) (d * 2 ^ k) = double_round s n d"
proof (cases "n = 0")
  case False
  have "round_even (n * 2 ^ k * a) (d * 2 ^ k * b) = round_even (n * a) (d * b)" for a b
    using round_even_scale [of "2 ^ k" "n * a" "d * b"] by (simp add: ac_simps)
  with False assms show ?thesis
    by (simp add: double_round_def floor_log2_scale)
qed (simp add: double_round_def)

text \<open>The definitions that evaluate an operation on numerals.\<close>

lemmas double_eval = decimal_def double_round_def floor_log2_def bit_length.simps up2_def down2_def round_even_def Let_def
  double_of_int_def double_frac_def dnum_def double_sub_def double_to_int_def double_to_ulong_def double_trunc_def double_le_def

lemma double_sub_0:
  assumes "0 < m" "e < 0"
  shows "double_sub (Fin False m e) (double_of_int 0) = double_round False m (down2 e)"
proof -
  have "double_sub (Fin False m e) (double_of_int 0) = double_round False (m * 2 ^ 1074) (down2 e * 2 ^ 1074)"
    using assms by (simp add: double_sub_def double_of_int_def double_frac_def dnum_def up2_def
        down2_def [of "- 1074"] nat_mult_distrib)
  also have "\<dots> = double_round False m (down2 e)"
    by (rule double_round_scale) (simp add: down2_def)
  finally show ?thesis .
qed

end
