(* ===== verification/Printf_Float.thy ===== *)
theory Printf_Float
  imports Printf_Int Double
begin

text \<open>
  The floating-point conversions of \<open>printf.cc\<close>: \<open>_ftoa\<close> (\<open>%f\<close>) and \<open>_etoa\<close>
  (\<open>%e\<close>, \<open>%g\<close>), over the \<open>double\<close> of the theory \<open>Double\<close>. The \<open>int\<close>
  variables \<open>whole\<close>, \<open>exp2\<close> and \<open>expval\<close> are kept as the integers they hold.

  The two functions call each other: \<open>_ftoa\<close> hands values above \<open>PRINTF_MAX_FLOAT\<close>
  to \<open>_etoa\<close>, which hands the scaled value back. Each is written over the other as an
  argument, and \<open>ftoa\<close>, \<open>etoa\<close> unroll the recursion to a depth of four calls.
\<close>

definition PRINTF_FTOA_BUFFER_SIZE :: nat where "PRINTF_FTOA_BUFFER_SIZE = 32"
definition PRINTF_DEFAULT_FLOAT_PRECISION :: u32 where "PRINTF_DEFAULT_FLOAT_PRECISION = 6"
definition PRINTF_MAX_FLOAT :: double where "PRINTF_MAX_FLOAT = decimal (10 ^ 9) 1"

definition pow10 :: "u32 \<Rightarrow> double res" where
  "pow10 prec = (if unat prec < 10 then Inr (double_of_int (10 ^ unat prec)) else Inl OutOfBounds)"

section \<open>Loops of \<open>_ftoa\<close>\<close>

function ftoa_limit :: "u32 \<Rightarrow> string \<Rightarrow> (u32 \<times> string) res" where
  "ftoa_limit prec buf =
     (if length buf < PRINTF_FTOA_BUFFER_SIZE \<and> 9 < prec
      then rbind (buf_put PRINTF_FTOA_BUFFER_SIZE buf CHR ''0'') (ftoa_limit (prec - 1))
      else Inr (prec, buf))"
  by pat_completeness auto
termination
  by (relation "measure (\<lambda>(prec, buf). PRINTF_FTOA_BUFFER_SIZE - length buf)")
    (auto dest: buf_put_Inr)

function ftoa_frac :: "u64 \<Rightarrow> u32 \<Rightarrow> string \<Rightarrow> (u32 \<times> string) res" where
  "ftoa_frac frac count buf =
     (if length buf < PRINTF_FTOA_BUFFER_SIZE
      then let count = count - 1
           in rbind (buf_put PRINTF_FTOA_BUFFER_SIZE buf (char_of (48 + unat (frac mod 10)))) (\<lambda>buf.
              let frac = frac div 10
              in if frac = 0 then Inr (count, buf) else ftoa_frac frac count buf)
      else Inr (count, buf))"
  by pat_completeness auto
termination
  by (relation "measure (\<lambda>(frac, count, buf). PRINTF_FTOA_BUFFER_SIZE - length buf)")
    (auto dest: buf_put_Inr)

function ftoa_zeros :: "u32 \<Rightarrow> string \<Rightarrow> string res" where
  "ftoa_zeros count buf =
     (if length buf < PRINTF_FTOA_BUFFER_SIZE \<and> 0 < count
      then rbind (buf_put PRINTF_FTOA_BUFFER_SIZE buf CHR ''0'') (ftoa_zeros (count - 1))
      else Inr buf)"
  by pat_completeness auto
termination
  by (relation "measure (\<lambda>(count, buf). PRINTF_FTOA_BUFFER_SIZE - length buf)")
    (auto dest: buf_put_Inr)

function ftoa_whole :: "int \<Rightarrow> string \<Rightarrow> string res" where
  "ftoa_whole whole buf =
     (if length buf < PRINTF_FTOA_BUFFER_SIZE
      then rbind (buf_put PRINTF_FTOA_BUFFER_SIZE buf (char_of (48 + nat (whole mod 10)))) (\<lambda>buf.
           let whole = whole div 10
           in if whole = 0 then Inr buf else ftoa_whole whole buf)
      else Inr buf)"
  by pat_completeness auto
termination
  by (relation "measure (\<lambda>(whole, buf). PRINTF_FTOA_BUFFER_SIZE - length buf)")
    (auto dest: buf_put_Inr)

function ftoa_pad :: "u32 \<Rightarrow> string \<Rightarrow> string res" where
  "ftoa_pad width buf =
     (if length buf < unat width \<and> length buf < PRINTF_FTOA_BUFFER_SIZE
      then rbind (buf_put PRINTF_FTOA_BUFFER_SIZE buf CHR ''0'') (ftoa_pad width) else Inr buf)"
  by pat_completeness auto
termination
  by (relation "measure (\<lambda>(width, buf). PRINTF_FTOA_BUFFER_SIZE - length buf)")
    (auto dest: buf_put_Inr)

declare ftoa_limit.simps [simp del] ftoa_frac.simps [simp del] ftoa_zeros.simps [simp del]
  ftoa_whole.simps [simp del] ftoa_pad.simps [simp del]

section \<open>\<open>_ftoa\<close>\<close>

text \<open>
  The rounding step: the whole part and the fraction as an integer, with the scaled
  fraction \<open>tmp\<close> and its distance \<open>diff\<close> from that integer.
\<close>

definition ftoa_round :: "double \<Rightarrow> u32 \<Rightarrow> (int \<times> u64) res" where
  "ftoa_round value prec =
     rbind (double_to_int value) (\<lambda>whole.
     rbind (pow10 prec) (\<lambda>scale.
     let tmp = double_mul (double_sub value (double_of_int whole)) scale
     in rbind (double_to_ulong tmp) (\<lambda>frac.
        let diff = double_sub tmp (double_of_int (uint frac));
            half = decimal 1 2
        in if double_less half diff
           then let frac = frac + 1
                in if double_le scale (double_of_int (uint frac)) then Inr (whole + 1, 0)
                   else Inr (whole, frac)
           else if double_less diff half then Inr (whole, frac)
           else if frac = 0 \<or> frac AND 1 \<noteq> 0 then Inr (whole, frac + 1)
           else Inr (whole, frac))))"

text \<open>The digits: those of the fraction, the point and those of the whole part, reversed.\<close>

definition ftoa_digits :: "double \<Rightarrow> u32 \<Rightarrow> int \<Rightarrow> u64 \<Rightarrow> string \<Rightarrow> string res" where
  "ftoa_digits value prec whole frac buf =
     (if prec = 0
      then let diff = double_sub value (double_of_int whole);
               half = decimal 1 2;
               whole = (if (\<not> double_less diff half \<or> double_less half diff) \<and> odd whole
                        then whole + 1 else whole)
           in ftoa_whole whole buf
      else rbind (ftoa_frac frac prec buf) (\<lambda>(count, buf).
           rbind (ftoa_zeros count buf) (\<lambda>buf.
           rbind (if length buf < PRINTF_FTOA_BUFFER_SIZE
                  then buf_put PRINTF_FTOA_BUFFER_SIZE buf CHR ''.'' else Inr buf) (\<lambda>buf.
           ftoa_whole whole buf))))"

text \<open>Zero padding and sign; the result carries the width left for \<open>_out_rev\<close>.\<close>

definition ftoa_zeropad :: "bool \<Rightarrow> u32 \<Rightarrow> u32 \<Rightarrow> string \<Rightarrow> (u32 \<times> string) res" where
  "ftoa_zeropad negative width flags buf =
     (if \<not> has flags FLAGS_LEFT \<and> has flags FLAGS_ZEROPAD
      then let width = (if width \<noteq> 0 \<and> (negative \<or> has flags (FLAGS_PLUS OR FLAGS_SPACE))
                        then width - 1 else width)
           in rbind (ftoa_pad width buf) (\<lambda>buf. Inr (width, buf))
      else Inr (width, buf))"

definition ftoa_sign :: "bool \<Rightarrow> u32 \<Rightarrow> string \<Rightarrow> string res" where
  "ftoa_sign negative flags buf =
     (if length buf < PRINTF_FTOA_BUFFER_SIZE
      then if negative then buf_put PRINTF_FTOA_BUFFER_SIZE buf CHR ''-''
           else if has flags FLAGS_PLUS then buf_put PRINTF_FTOA_BUFFER_SIZE buf CHR ''+''
           else if has flags FLAGS_SPACE then buf_put PRINTF_FTOA_BUFFER_SIZE buf CHR '' ''
           else Inr buf
      else Inr buf)"

definition ftoa_finish :: "bool \<Rightarrow> u32 \<Rightarrow> u32 \<Rightarrow> string \<Rightarrow> (u32 \<times> string) res" where
  "ftoa_finish negative width flags buf =
     rbind (ftoa_zeropad negative width flags buf) (\<lambda>(width, buf).
     rbind (ftoa_sign negative flags buf) (\<lambda>buf. Inr (width, buf)))"

type_synonym 's float_conv =
  "'s out_fct_type \<Rightarrow> u64 \<Rightarrow> u64 \<times> 's \<Rightarrow> u64 \<Rightarrow> double \<Rightarrow> u32 \<Rightarrow> u32 \<Rightarrow> u32 \<Rightarrow> (u64 \<times> 's) res"

definition ftoa_with :: "'s float_conv \<Rightarrow> 's float_conv" where
  "ftoa_with etoa out buffer p maxlen value prec width flags =
     (if \<not> double_eq value value then Inr (out_rev out buffer p maxlen ''nan'' width flags)
      else if double_less value (double_neg DBL_MAX)
      then Inr (out_rev out buffer p maxlen ''fni-'' width flags)
      else if double_less DBL_MAX value
      then Inr (out_rev out buffer p maxlen (if has flags FLAGS_PLUS then ''fni+'' else ''fni'')
                  width flags)
      else if double_less PRINTF_MAX_FLOAT value \<or> double_less value (double_neg PRINTF_MAX_FLOAT)
      then etoa out buffer p maxlen value prec width flags
      else let negative = double_less value (double_of_int 0);
               value = (if negative then double_sub (double_of_int 0) value else value);
               prec = (if \<not> has flags FLAGS_PRECISION then PRINTF_DEFAULT_FLOAT_PRECISION else prec)
           in rbind (ftoa_limit prec []) (\<lambda>(prec, buf).
              rbind (ftoa_round value prec) (\<lambda>(whole, frac).
              rbind (ftoa_digits value prec whole frac buf) (\<lambda>buf.
              rbind (ftoa_finish negative width flags buf) (\<lambda>(width, buf).
              Inr (out_rev out buffer p maxlen buf width flags))))))"

section \<open>\<open>_etoa\<close>\<close>

text \<open>
  The decimal exponent and the power of ten: the binary exponent and the mantissa of the
  object representation, a linear approximation of the logarithm, a continued fraction for
  the exponential, and the final correction.
\<close>

definition etoa_scale :: "double \<Rightarrow> (int \<times> double) res" where
  "etoa_scale value =
     (let U = double_to_bits value;
          exp2 = uint (drop_bit 52 U AND 0x7FF) - 1023;
          F = double_of_bits ((U AND (push_bit 52 1 - 1)) OR push_bit 52 1023)
      in rbind (double_to_int
           (double_add
             (double_add (decimal 1760912590558 (10 ^ 13))
               (double_mul (double_of_int exp2) (decimal 301029995663981 (10 ^ 15))))
             (double_mul (double_sub F (decimal 3 2)) (decimal 289529654602168 (10 ^ 15))))) (\<lambda>expval.
         rbind (double_to_int
           (double_add (double_mul (double_of_int expval) (decimal 3321928094887362 (10 ^ 15)))
             (decimal 1 2))) (\<lambda>exp2.
         let z = double_sub
               (double_mul (double_of_int expval) (decimal 2302585092994046 (10 ^ 15)))
               (double_mul (double_of_int exp2) (decimal 6931471805599453 (10 ^ 16)));
             z2 = double_mul z z;
             F = double_of_bits (push_bit 52 (word_of_int (exp2 + 1023)));
             F = double_mul F
               (double_add (double_of_int 1)
                 (double_div (double_mul (double_of_int 2) z)
                   (double_add (double_sub (double_of_int 2) z)
                     (double_div z2
                       (double_add (double_of_int 6)
                         (double_div z2
                           (double_add (double_of_int 10) (double_div z2 (double_of_int 14)))))))))
         in if double_less value F
            then Inr (expval - 1, double_div F (double_of_int 10)) else Inr (expval, F))))"

text \<open>
  The mode: precision, flags, width of the exponent field and exponent to print, after the
  \<open>%g\<close> rules.
\<close>

definition etoa_mode :: "double \<Rightarrow> int \<Rightarrow> u32 \<Rightarrow> u32 \<Rightarrow> u32 \<times> u32 \<times> u32 \<times> int" where
  "etoa_mode value expval prec flags =
     (let minwidth = (if expval < 100 \<and> - 100 < expval then 4 else 5)
      in if has flags FLAGS_ADAPT_EXP
         then if double_le (decimal 1 (10 ^ 4)) value \<and> double_less value (decimal (10 ^ 6) 1)
              then (if expval < sint prec then word_of_int (sint prec - expval - 1) else 0,
                    flags OR FLAGS_PRECISION, 0, 0)
              else (if 0 < prec \<and> has flags FLAGS_PRECISION then prec - 1 else prec,
                    flags, minwidth, expval)
         else (prec, flags, minwidth, expval))"

definition etoa_with :: "'s float_conv \<Rightarrow> 's float_conv" where
  "etoa_with ftoa out buffer p maxlen value prec width flags =
     (if \<not> double_eq value value \<or> double_less DBL_MAX value \<or> double_less value (double_neg DBL_MAX)
      then ftoa out buffer p maxlen value prec width flags
      else let negative = double_less value (double_of_int 0);
               value = (if negative then double_neg value else value);
               prec = (if \<not> has flags FLAGS_PRECISION then PRINTF_DEFAULT_FLOAT_PRECISION else prec)
           in rbind (etoa_scale value) (\<lambda>(expval, F).
              let (prec, flags, minwidth, expval) = etoa_mode value expval prec flags;
                  fwidth = (if minwidth < width then width - minwidth else 0);
                  fwidth = (if has flags FLAGS_LEFT \<and> minwidth \<noteq> 0 then 0 else fwidth);
                  value = (if expval \<noteq> 0 then double_div value F else value);
                  start_idx = fst p
              in rbind (ftoa out buffer p maxlen (if negative then double_neg value else value)
                          prec fwidth (flags AND NOT FLAGS_ADAPT_EXP)) (\<lambda>p.
                 if minwidth \<noteq> 0
                 then let p = put out buffer maxlen
                            (if has flags FLAGS_UPPERCASE then CHR ''E'' else CHR ''e'') p
                      in rbind (ntoa_long out buffer p maxlen (word_of_int \<bar>expval\<bar>) (expval < 0) 10 0
                                  (minwidth - 1) (FLAGS_ZEROPAD OR FLAGS_PLUS)) (\<lambda>p.
                         Inr (if has flags FLAGS_LEFT
                              then pad_after out buffer maxlen start_idx (ucast width) p else p))
                 else Inr p)))"

text \<open>The knot: a conversion whose calls nest deeper than the given depth does not return.\<close>

fun ftoa_depth :: "nat \<Rightarrow> 's float_conv" and etoa_depth :: "nat \<Rightarrow> 's float_conv" where
  "ftoa_depth 0 = (\<lambda>out buffer p maxlen value prec width flags. Inl NoReturn)"
| "ftoa_depth (Suc n) = ftoa_with (etoa_depth n)"
| "etoa_depth 0 = (\<lambda>out buffer p maxlen value prec width flags. Inl NoReturn)"
| "etoa_depth (Suc n) = etoa_with (ftoa_depth n)"

definition ftoa :: "'s float_conv" where "ftoa = ftoa_depth 4"
definition etoa :: "'s float_conv" where "etoa = etoa_depth 4"

section \<open>The buffer of \<open>_ftoa\<close>\<close>

text \<open>
  No loop of \<open>_ftoa\<close> writes outside its buffer: each of them returns, and leaves at most
  \<open>PRINTF_FTOA_BUFFER_SIZE\<close> bytes.
\<close>

definition fits :: "string \<Rightarrow> bool" where
  "fits buf \<longleftrightarrow> length buf \<le> PRINTF_FTOA_BUFFER_SIZE"

named_theorems ftoa_total \<open>the loops of the floating-point conversion return\<close>

lemma fits_Nil [simp]: "fits []"
  by (simp add: fits_def)

lemma fits_put: "length buf < PRINTF_FTOA_BUFFER_SIZE \<Longrightarrow> fits (buf @ [c])"
  by (simp add: fits_def)

lemma ftoa_limit_total [ftoa_total]:
  "fits buf \<Longrightarrow> \<exists>prec' buf'. ftoa_limit prec buf = Inr (prec', buf') \<and> fits buf'"
proof (induction prec buf rule: ftoa_limit.induct)
  case (1 prec buf)
  then show ?case
    by (subst ftoa_limit.simps) (auto simp: fits_put)
qed

lemma ftoa_frac_total [ftoa_total]:
  "fits buf \<Longrightarrow> \<exists>count' buf'. ftoa_frac frac count buf = Inr (count', buf') \<and> fits buf'"
proof (induction frac count buf rule: ftoa_frac.induct)
  case (1 frac count buf)
  then show ?case
    by (subst ftoa_frac.simps) (auto simp: fits_put Let_def)
qed

lemma ftoa_zeros_total [ftoa_total]:
  "fits buf \<Longrightarrow> \<exists>buf'. ftoa_zeros count buf = Inr buf' \<and> fits buf'"
proof (induction count buf rule: ftoa_zeros.induct)
  case (1 count buf)
  then show ?case
    by (subst ftoa_zeros.simps) (auto simp: fits_put)
qed

lemma ftoa_whole_total [ftoa_total]:
  "fits buf \<Longrightarrow> \<exists>buf'. ftoa_whole whole buf = Inr buf' \<and> fits buf'"
proof (induction whole buf rule: ftoa_whole.induct)
  case (1 whole buf)
  then show ?case
    by (subst ftoa_whole.simps) (auto simp: fits_put Let_def)
qed

lemma ftoa_pad_total [ftoa_total]:
  "fits buf \<Longrightarrow> \<exists>buf'. ftoa_pad width buf = Inr buf' \<and> fits buf'"
proof (induction width buf rule: ftoa_pad.induct)
  case (1 width buf)
  then show ?case
    by (subst ftoa_pad.simps) (auto simp: fits_put)
qed

lemma ftoa_point_total:
  "fits buf \<Longrightarrow> \<exists>buf'. (if length buf < PRINTF_FTOA_BUFFER_SIZE
     then buf_put PRINTF_FTOA_BUFFER_SIZE buf CHR ''.'' else Inr buf) = Inr buf' \<and> fits buf'"
  by (simp add: fits_put)

lemma ftoa_digits_total:
  assumes "fits buf"
  shows "\<exists>buf'. ftoa_digits value prec whole frac buf = Inr buf' \<and> fits buf'"
proof (cases "prec = 0")
  case True
  with assms show ?thesis
    by (simp add: ftoa_digits_def ftoa_whole_total Let_def)
next
  case False
  obtain count buf1 where 1: "ftoa_frac frac prec buf = Inr (count, buf1)" "fits buf1"
    using ftoa_frac_total [OF assms] by blast
  obtain buf2 where 2: "ftoa_zeros count buf1 = Inr buf2" "fits buf2"
    using ftoa_zeros_total [OF 1(2)] by blast
  obtain buf3 where 3: "(if length buf2 < PRINTF_FTOA_BUFFER_SIZE
      then buf_put PRINTF_FTOA_BUFFER_SIZE buf2 CHR ''.'' else Inr buf2) = Inr buf3" "fits buf3"
    using ftoa_point_total [OF 2(2)] by blast
  show ?thesis
    using False ftoa_whole_total [OF 3(2)] by (simp add: ftoa_digits_def 1(1) 2(1) 3(1))
qed

lemma ftoa_zeropad_total:
  "fits buf \<Longrightarrow> \<exists>width' buf'. ftoa_zeropad negative width flags buf = Inr (width', buf') \<and> fits buf'"
  using ftoa_pad_total [of buf width] ftoa_pad_total [of buf "width - 1"]
  by (auto simp: ftoa_zeropad_def)

lemma ftoa_sign_total: "fits buf \<Longrightarrow> \<exists>buf'. ftoa_sign negative flags buf = Inr buf' \<and> fits buf'"
  by (simp add: ftoa_sign_def fits_put)

lemma ftoa_finish_total:
  assumes "fits buf"
  shows "\<exists>width' buf'. ftoa_finish negative width flags buf = Inr (width', buf') \<and> fits buf'"
proof -
  obtain w buf1 where 1: "ftoa_zeropad negative width flags buf = Inr (w, buf1)" "fits buf1"
    using ftoa_zeropad_total [OF assms] by blast
  then show ?thesis
    using ftoa_sign_total [OF 1(2), of negative flags] by (auto simp: ftoa_finish_def)
qed

section \<open>A halfway case\<close>

lemma ftoa_zeros_eq:
  "length buf \<le> PRINTF_FTOA_BUFFER_SIZE \<Longrightarrow> ftoa_zeros count buf =
    Inr (buf @ replicate (min (unat count) (PRINTF_FTOA_BUFFER_SIZE - length buf)) CHR ''0'')"
proof (induction count buf rule: ftoa_zeros.induct)
  case (1 count buf)
  show ?case
  proof (cases "length buf < PRINTF_FTOA_BUFFER_SIZE \<and> 0 < count")
    case True
    then have "unat count = Suc (unat (count - 1))"
      using unat_minus_one [of count] unat_gt_0 [of count] by (auto simp: word_neq_0_conv)
    moreover have "PRINTF_FTOA_BUFFER_SIZE - length buf = Suc (PRINTF_FTOA_BUFFER_SIZE - Suc (length buf))"
      using True by linarith
    ultimately show ?thesis
      using 1 True by (subst ftoa_zeros.simps) simp
  next
    case False
    then have "count = 0 \<or> length buf = PRINTF_FTOA_BUFFER_SIZE"
      using 1(2) word_neq_0_conv [of count] by linarith
    with False show ?thesis
      by (subst ftoa_zeros.simps) auto
  qed
qed


text \<open>
  The steps of the conversion of \<open>0.95\<close> with one digit: the scaled fraction is exactly
  \<open>9.5\<close>, the rounding goes to ten, which is not carried into the whole part, and the
  fraction's two digits drive the counter of the remaining zeros below zero.
\<close>

lemma decimal_numerals:
  "decimal 95 100 = Fin False 8556839292003942 (-53)"
  "decimal (Suc 0) 2 = Fin False 4503599627370496 (-53)"
  "double_of_int 10 = Fin False 5629499534213120 (-49)"
  "double_of_int 9 = Fin False 5066549580791808 (-49)"
  by (simp_all add: double_eval)

lemma scaled_95:
  "double_sub (Fin False 8556839292003942 (-53)) (double_of_int 0) = Fin False 8556839292003942 (-53)"
  "double_mul (Fin False 8556839292003942 (-53)) (Fin False 5629499534213120 (-49)) =
    Fin False 5348024557502464 (-49)"
  "double_sub (Fin False 5348024557502464 (-49)) (Fin False 5066549580791808 (-49)) =
    Fin False 4503599627370496 (-53)"
  by (subst double_sub_0) (simp_all add: double_eval)

lemma converted_95:
  "double_to_int (Fin False 8556839292003942 (-53)) = Inr 0"
  "double_to_ulong (Fin False 5348024557502464 (-49)) = Inr 9"
  "\<not> double_less (Fin False 4503599627370496 (-53)) (Fin False 4503599627370496 (-53))"
  by (simp_all add: double_eval)

lemma ftoa_round_95: "ftoa_round (Fin False 8556839292003942 (-53)) 1 = Inr (0, 10)"
proof -
  have p10: "pow10 1 = Inr (double_of_int 10)"
    by (simp add: pow10_def)
  show ?thesis
    unfolding ftoa_round_def p10 rbind_simps scaled_95 converted_95 Let_def decimal_numerals(3)
    by (simp add: decimal_numerals scaled_95 converted_95
        del: double_sub_def double_mul.simps double_less.simps)
qed

lemma ftoa_digits_ten:
  "ftoa_digits v 1 0 10 [] = Inr (''01'' @ replicate 30 CHR ''0'')"
proof -
  have "ftoa_frac 10 1 [] = Inr (- 1, ''01'')"
    by (simp add: digit_chars ftoa_frac.simps PRINTF_FTOA_BUFFER_SIZE_def Let_def)
  then show ?thesis
    by (simp add: ftoa_digits_def ftoa_zeros_eq ftoa_whole.simps PRINTF_FTOA_BUFFER_SIZE_def
        buf_put_def unsigned_minus_1_eq_mask mask_eq_exp_minus_1)
qed

lemma not_negative: "\<not> double_less (Fin False m e) (double_of_int 0)"
  by (simp add: double_of_int_def double_frac_def dnum_def not_less)

lemma ordinary_95:
  "double_eq (Fin False m e) (Fin False m e)"
  "\<not> double_less (Fin False 8556839292003942 (-53)) (double_neg DBL_MAX)"
  "\<not> double_less (Fin False 8556839292003942 (-53)) (double_neg PRINTF_MAX_FLOAT)"
  "\<not> double_less PRINTF_MAX_FLOAT (Fin False 8556839292003942 (-53))"
  "\<not> double_less DBL_MAX (Fin False 8556839292003942 (-53))"
  by (simp_all add: DBL_MAX_def PRINTF_MAX_FLOAT_def double_eval)

lemma ftoa_95:
  "ftoa_with etoa' out b p m (decimal 95 100) 1 0 FLAGS_PRECISION =
    Inr (emit out b m (replicate 30 CHR ''0'' @ ''10'') p)"
proof -
  have lim: "ftoa_limit 1 [] = Inr (1, [])"
    by (simp add: ftoa_limit.simps)
  have flag: "has FLAGS_PRECISION FLAGS_PRECISION" "\<not> has FLAGS_PRECISION FLAGS_LEFT"
    "\<not> has FLAGS_PRECISION FLAGS_ZEROPAD" "\<not> has FLAGS_PRECISION FLAGS_PLUS"
    "\<not> has FLAGS_PRECISION FLAGS_SPACE"
    by (simp_all add: has_def FLAGS_defs)
  have fin: "ftoa_finish False 0 FLAGS_PRECISION (''01'' @ replicate 30 CHR ''0'') = Inr (0, ''01'' @ replicate 30 CHR ''0'')"
    using flag by (simp add: ftoa_finish_def ftoa_zeropad_def ftoa_sign_def PRINTF_FTOA_BUFFER_SIZE_def)
  have out: "out_rev out b p m (''01'' @ replicate 30 CHR ''0'') 0 FLAGS_PRECISION = emit out b m (replicate 30 CHR ''0'' @ ''10'') p"
    using flag by (subst out_rev_emit) (simp_all add: field_text_def)
  show ?thesis
    unfolding ftoa_with_def decimal_numerals(1) Let_def
    by (simp only: not_negative ordinary_95 flag lim ftoa_round_95 ftoa_digits_ten fin out rbind_simps prod.case if_True if_False simp_thms)
qed

end
