(* ===== verification/Printf.thy ===== *)
theory Printf
  imports Printf_Float
begin

text \<open>
  \<open>_vsnprintf\<close>, the interpreter of format strings, and the entry points built on it.

  A variadic argument list is the list of the arguments passed. An integer or a
  \<open>void*\<close> is its 64-bit register or stack slot, of which \<open>va_arg\<close> for a 32-bit type
  reads the low half, as the x86-64 calling convention has it; a \<open>double\<close> is fetched
  from the floating-point class; a \<open>char*\<close> is its address with the string it points to.
  Fetching an argument of the wrong class, or one that was not passed, is a fault.
\<close>

datatype va_arg =
    VaInt u64
  | VaDouble double
  | VaStr u64 string

type_synonym va_list = "va_arg list"

definition va_long :: "va_list \<Rightarrow> (u64 \<times> va_list) res" where
  "va_long va = (case va of VaInt w # va' \<Rightarrow> Inr (w, va') | _ \<Rightarrow> Inl BadVaArg)"

definition va_int :: "va_list \<Rightarrow> (u32 \<times> va_list) res" where
  "va_int va = rbind (va_long va) (\<lambda>(w, va). Inr (ucast w, va))"

definition va_double :: "va_list \<Rightarrow> (double \<times> va_list) res" where
  "va_double va = (case va of VaDouble d # va' \<Rightarrow> Inr (d, va') | _ \<Rightarrow> Inl BadVaArg)"

definition va_str :: "va_list \<Rightarrow> (string \<times> va_list) res" where
  "va_str va = (case va of VaStr a s # va' \<Rightarrow> Inr (s, va') | _ \<Rightarrow> Inl BadVaArg)"

definition va_ptr :: "va_list \<Rightarrow> (u64 \<times> va_list) res" where
  "va_ptr va = (case va of
      VaInt w # va' \<Rightarrow> Inr (w, va') | VaStr a s # va' \<Rightarrow> Inr (a, va') | _ \<Rightarrow> Inl BadVaArg)"

section \<open>Parsing a specifier\<close>

fun parse_flags :: "u32 \<Rightarrow> string \<Rightarrow> u32 \<times> string" where
  "parse_flags flags [] = (flags, [])"
| "parse_flags flags (c # cs) =
     (if c = CHR ''0'' then parse_flags (flags OR FLAGS_ZEROPAD) cs
      else if c = CHR ''-'' then parse_flags (flags OR FLAGS_LEFT) cs
      else if c = CHR ''+'' then parse_flags (flags OR FLAGS_PLUS) cs
      else if c = CHR '' '' then parse_flags (flags OR FLAGS_SPACE) cs
      else if c = CHR ''#'' then parse_flags (flags OR FLAGS_HASH) cs
      else (flags, c # cs))"

text \<open>
  The absolute value \<open>value > 0 ? value : 0 - value\<close> of a signed value: the subtraction
  overflows for the least value of the type.
\<close>

definition abs_signed :: "'a::len word \<Rightarrow> 'a word res" where
  "abs_signed v =
     (if 0 <s v then Inr v
      else rbind (require (sint v \<noteq> - (2 ^ (LENGTH('a) - 1))) SignedOverflow) (\<lambda>_. Inr (0 - v)))"

definition parse_width :: "u32 \<Rightarrow> string \<Rightarrow> va_list \<Rightarrow> (u32 \<times> u32 \<times> string \<times> va_list) res" where
  "parse_width flags format va =
     (if is_digit (peek format)
      then let (width, format) = atoi format in Inr (flags, width, format, va)
      else if peek format = CHR ''*''
      then rbind (va_int va) (\<lambda>(w, va).
           rbind (if w <s 0
                  then rbind (abs_signed w) (\<lambda>width. Inr (flags OR FLAGS_LEFT, width))
                  else Inr (flags, w)) (\<lambda>(flags, width).
           rbind (advance format) (\<lambda>format. Inr (flags, width, format, va))))
      else Inr (flags, 0, format, va))"

definition parse_precision :: "u32 \<Rightarrow> string \<Rightarrow> va_list \<Rightarrow> (u32 \<times> u32 \<times> string \<times> va_list) res" where
  "parse_precision flags format va =
     (if peek format = CHR ''.''
      then let flags = flags OR FLAGS_PRECISION
           in rbind (advance format) (\<lambda>format.
              if is_digit (peek format)
              then let (precision, format) = atoi format in Inr (flags, precision, format, va)
              else if peek format = CHR ''*''
              then rbind (va_int va) (\<lambda>(prec, va).
                   rbind (advance format) (\<lambda>format.
                   Inr (flags, if 0 <s prec then prec else 0, format, va)))
              else Inr (flags, 0, format, va))
      else Inr (flags, 0, format, va))"

text \<open>\<open>ptrdiff_t\<close>, \<open>intmax_t\<close> and \<open>size_t\<close> have the size of \<open>long\<close>.\<close>

definition parse_length :: "u32 \<Rightarrow> string \<Rightarrow> (u32 \<times> string) res" where
  "parse_length flags format =
     (if peek format = CHR ''l''
      then rbind (advance format) (\<lambda>format.
           if peek format = CHR ''l''
           then rbind (advance format) (\<lambda>format. Inr (flags OR FLAGS_LONG OR FLAGS_LONG_LONG, format))
           else Inr (flags OR FLAGS_LONG, format))
      else if peek format = CHR ''h''
      then rbind (advance format) (\<lambda>format.
           if peek format = CHR ''h''
           then rbind (advance format) (\<lambda>format. Inr (flags OR FLAGS_SHORT OR FLAGS_CHAR, format))
           else Inr (flags OR FLAGS_SHORT, format))
      else if peek format = CHR ''t'' \<or> peek format = CHR ''j'' \<or> peek format = CHR ''z''
      then rbind (advance format) (\<lambda>format. Inr (flags OR FLAGS_LONG, format))
      else Inr (flags, format))"

section \<open>Conversions\<close>

definition int_base :: "char \<Rightarrow> u32" where
  "int_base c =
     (if c = CHR ''x'' \<or> c = CHR ''X'' then 16
      else if c = CHR ''o'' then 8
      else if c = CHR ''b'' then 2
      else 10)"

definition int_flags :: "char \<Rightarrow> u32 \<Rightarrow> u32" where
  "int_flags c flags =
     (let flags = (if int_base c = 10 then flags AND NOT FLAGS_HASH else flags);
          flags = (if c = CHR ''X'' then flags OR FLAGS_UPPERCASE else flags);
          flags = (if c \<noteq> CHR ''i'' \<and> c \<noteq> CHR ''d''
                   then flags AND NOT (FLAGS_PLUS OR FLAGS_SPACE) else flags)
      in if has flags FLAGS_PRECISION then flags AND NOT FLAGS_ZEROPAD else flags)"

text \<open>The value of a signed conversion: its magnitude and its sign.\<close>

definition signed_arg :: "u32 \<Rightarrow> va_list \<Rightarrow> (u64 \<times> bool \<times> va_list) res" where
  "signed_arg flags va =
     (if has flags FLAGS_LONG_LONG \<or> has flags FLAGS_LONG
      then rbind (va_long va) (\<lambda>(v, va). rbind (abs_signed v) (\<lambda>a. Inr (a, v <s 0, va)))
      else rbind (va_int va) (\<lambda>(w, va).
           let v = (if has flags FLAGS_CHAR then scast (ucast w :: u8)
                    else if has flags FLAGS_SHORT then scast (ucast w :: u16) else w) :: u32
           in rbind (abs_signed v) (\<lambda>a. Inr (ucast a, v <s 0, va))))"

definition unsigned_arg :: "u32 \<Rightarrow> va_list \<Rightarrow> (u64 \<times> bool \<times> va_list) res" where
  "unsigned_arg flags va =
     (if has flags FLAGS_LONG_LONG \<or> has flags FLAGS_LONG
      then rbind (va_long va) (\<lambda>(v, va). Inr (v, False, va))
      else rbind (va_int va) (\<lambda>(w, va).
           Inr (if has flags FLAGS_CHAR then ucast (ucast w :: u8)
                else if has flags FLAGS_SHORT then ucast (ucast w :: u16) else ucast w, False, va)))"

definition conv_int ::
    "'s out_fct_type \<Rightarrow> u64 \<Rightarrow> u64 \<Rightarrow> char \<Rightarrow> u32 \<Rightarrow> u32 \<Rightarrow> u32 \<Rightarrow> va_list \<Rightarrow> u64 \<times> 's
      \<Rightarrow> (va_list \<times> u64 \<times> 's) res" where
  "conv_int out buffer maxlen c flags width precision va p =
     (let base = int_base c;
          flags = int_flags c flags
      in rbind (if c = CHR ''i'' \<or> c = CHR ''d'' then signed_arg flags va else unsigned_arg flags va)
           (\<lambda>(v, negative, va).
         rbind (if has flags FLAGS_LONG_LONG
                then ntoa_long_long out buffer p maxlen v negative (ucast base) precision width flags
                else ntoa_long out buffer p maxlen v negative (ucast base) precision width flags)
           (\<lambda>p. Inr (va, p))))"

text \<open>The loop \<open>while (l++ < width) out(' ', \<dots>)\<close> of \<open>%c\<close> and \<open>%s\<close>.\<close>

function pad_field :: "'s out_fct_type \<Rightarrow> u64 \<Rightarrow> u64 \<Rightarrow> u32 \<Rightarrow> u32 \<Rightarrow> u64 \<times> 's \<Rightarrow> u64 \<times> 's" where
  "pad_field out buffer maxlen l width p =
     (if l < width then pad_field out buffer maxlen (l + 1) width (put out buffer maxlen CHR '' '' p)
      else p)"
  by pat_completeness auto
termination
  by (relation "measure (\<lambda>(out, buffer, maxlen, l, width, p). unat width - unat l)")
    (simp_all add: unat_diff_Suc_less)

declare pad_field.simps [simp del]

definition conv_char ::
    "'s out_fct_type \<Rightarrow> u64 \<Rightarrow> u64 \<Rightarrow> u32 \<Rightarrow> u32 \<Rightarrow> va_list \<Rightarrow> u64 \<times> 's \<Rightarrow> (va_list \<times> u64 \<times> 's) res" where
  "conv_char out buffer maxlen flags width va p =
     (let p = (if \<not> has flags FLAGS_LEFT then pad_field out buffer maxlen 1 width p else p)
      in rbind (va_int va) (\<lambda>(w, va).
         let p = put out buffer maxlen (char_of (unat (ucast w :: u8))) p;
             p = (if has flags FLAGS_LEFT then pad_field out buffer maxlen 1 width p else p)
         in Inr (va, p)))"

fun put_str :: "'s out_fct_type \<Rightarrow> u64 \<Rightarrow> u64 \<Rightarrow> bool \<Rightarrow> u32 \<Rightarrow> string \<Rightarrow> u64 \<times> 's \<Rightarrow> u64 \<times> 's" where
  "put_str out buffer maxlen limited precision [] p = p"
| "put_str out buffer maxlen limited precision (c # cs) p =
     (if c \<noteq> CHR 0x00 \<and> (\<not> limited \<or> precision \<noteq> 0)
      then put_str out buffer maxlen limited (precision - 1) cs (put out buffer maxlen c p) else p)"

definition conv_str ::
    "'s out_fct_type \<Rightarrow> u64 \<Rightarrow> u64 \<Rightarrow> u32 \<Rightarrow> u32 \<Rightarrow> u32 \<Rightarrow> va_list \<Rightarrow> u64 \<times> 's
      \<Rightarrow> (va_list \<times> u64 \<times> 's) res" where
  "conv_str out buffer maxlen flags width precision va p =
     rbind (va_str va) (\<lambda>(s, va).
     let l = strnlen_s s (if precision \<noteq> 0 then ucast precision else - 1);
         l = (if has flags FLAGS_PRECISION then if l < precision then l else precision else l);
         p = (if \<not> has flags FLAGS_LEFT then pad_field out buffer maxlen l width p else p);
         p = put_str out buffer maxlen (has flags FLAGS_PRECISION) precision s p;
         p = (if has flags FLAGS_LEFT then pad_field out buffer maxlen l width p else p)
     in Inr (va, p))"

text \<open>\<open>%p\<close>: sixteen hexadecimal digits.\<close>

definition conv_ptr ::
    "'s out_fct_type \<Rightarrow> u64 \<Rightarrow> u64 \<Rightarrow> u32 \<Rightarrow> u32 \<Rightarrow> va_list \<Rightarrow> u64 \<times> 's \<Rightarrow> (va_list \<times> u64 \<times> 's) res" where
  "conv_ptr out buffer maxlen flags precision va p =
     (let flags = flags OR (FLAGS_ZEROPAD OR FLAGS_UPPERCASE)
      in rbind (va_ptr va) (\<lambda>(v, va).
         rbind (ntoa_long_long out buffer p maxlen v False 16 precision 16 flags) (\<lambda>p.
         Inr (va, p))))"

definition conv_float ::
    "'s out_fct_type \<Rightarrow> u64 \<Rightarrow> u64 \<Rightarrow> char \<Rightarrow> u32 \<Rightarrow> u32 \<Rightarrow> u32 \<Rightarrow> va_list \<Rightarrow> u64 \<times> 's
      \<Rightarrow> (va_list \<times> u64 \<times> 's) res" where
  "conv_float out buffer maxlen c flags width precision va p =
     (if c = CHR ''f'' \<or> c = CHR ''F''
      then let flags = (if c = CHR ''F'' then flags OR FLAGS_UPPERCASE else flags)
           in rbind (va_double va) (\<lambda>(v, va).
              rbind (ftoa out buffer p maxlen v precision width flags) (\<lambda>p. Inr (va, p)))
      else let flags = (if c = CHR ''g'' \<or> c = CHR ''G'' then flags OR FLAGS_ADAPT_EXP else flags);
               flags = (if c = CHR ''E'' \<or> c = CHR ''G'' then flags OR FLAGS_UPPERCASE else flags)
           in rbind (va_double va) (\<lambda>(v, va).
              rbind (etoa out buffer p maxlen v precision width flags) (\<lambda>p. Inr (va, p))))"

text \<open>The specifier switch; a character that is no specifier is written as it is.\<close>

text \<open>A second \<open>%\<close>, and any other character: it is put out as it is.\<close>

definition conv_literal :: "'s out_fct_type \<Rightarrow> u64 \<Rightarrow> u64 \<Rightarrow> char \<Rightarrow> va_list \<Rightarrow> u64 \<times> 's \<Rightarrow> (va_list \<times> u64 \<times> 's) res" where
  [simp]: "conv_literal out buffer maxlen c va p = Inr (va, put out buffer maxlen c p)"

definition conversion ::
    "'s out_fct_type \<Rightarrow> u64 \<Rightarrow> u64 \<Rightarrow> char \<Rightarrow> u32 \<Rightarrow> u32 \<Rightarrow> u32 \<Rightarrow> va_list \<Rightarrow> u64 \<times> 's
      \<Rightarrow> (va_list \<times> u64 \<times> 's) res" where
  "conversion out buffer maxlen c flags width precision va p =
     (if c \<in> set ''diuxXob'' then conv_int out buffer maxlen c flags width precision va p
      else if c \<in> set ''fFeEgG'' then conv_float out buffer maxlen c flags width precision va p
      else if c = CHR ''c'' then conv_char out buffer maxlen flags width va p
      else if c = CHR ''s'' then conv_str out buffer maxlen flags width precision va p
      else if c = CHR ''p'' then conv_ptr out buffer maxlen flags precision va p
      else if c = CHR ''%'' then conv_literal out buffer maxlen CHR ''%'' va p
      else conv_literal out buffer maxlen c va p)"

section \<open>The interpreter\<close>

text \<open>One specifier, from the character after its \<open>%\<close> on.\<close>

definition directive ::
    "'s out_fct_type \<Rightarrow> u64 \<Rightarrow> u64 \<Rightarrow> string \<Rightarrow> va_list \<Rightarrow> u64 \<times> 's
      \<Rightarrow> ((string \<times> va_list) \<times> u64 \<times> 's) res" where
  "directive out buffer maxlen format va p =
     (let (flags, format) = parse_flags 0 format
      in rbind (parse_width flags format va) (\<lambda>(flags, width, format, va).
         rbind (parse_precision flags format va) (\<lambda>(flags, precision, format, va).
         rbind (parse_length flags format) (\<lambda>(flags, format).
         rbind (conversion out buffer maxlen (peek format) flags width precision va p) (\<lambda>(va, p).
         rbind (advance format) (\<lambda>format.
         Inr ((format, va), p)))))))"

text \<open>Every parser moves forward in the format, so the interpreter ends.\<close>

lemma length_parse_flags: "length (snd (parse_flags flags format)) \<le> length format"
  by (induction flags format rule: parse_flags.induct) auto

lemma length_atoi_loop: "length (snd (atoi_loop i str)) \<le> length str"
  by (induction i str rule: atoi_loop.induct) auto

lemma length_parse_width:
  "parse_width flags format va = Inr (flags', width, format', va') \<Longrightarrow> length format' \<le> length format"
  using length_atoi_loop [of 0 format]
  by (auto simp: parse_width_def atoi_def rbind_Inr_iff split: if_splits prod.splits dest: advance_Inr)

lemma length_parse_precision:
  assumes "parse_precision flags format va = Inr (flags', prec, format', va')"
  shows "length format' \<le> length format"
proof (cases format)
  case Nil
  with assms show ?thesis by (simp add: parse_precision_def)
next
  case (Cons c cs)
  with assms length_atoi_loop [of 0 cs] show ?thesis
    by (auto simp: parse_precision_def atoi_def rbind_Inr_iff Let_def
        split: if_splits prod.splits dest: advance_Inr)
qed

lemma length_parse_length:
  "parse_length flags format = Inr (flags', format') \<Longrightarrow> length format' \<le> length format"
  by (auto simp: parse_length_def rbind_Inr_iff split: if_splits dest!: advance_Inr)

lemma directive_shorter:
  assumes "directive out b m format va p = Inr ((format', va'), p')"
  shows "length format' < length format"
  using assms length_parse_flags [of 0 format]
  by (auto simp: directive_def rbind_Inr_iff split: prod.splits
      dest!: length_parse_width length_parse_precision length_parse_length advance_Inr)

function vsnprintf_loop ::
    "'s out_fct_type \<Rightarrow> u64 \<Rightarrow> u64 \<Rightarrow> string \<Rightarrow> va_list \<Rightarrow> u64 \<times> 's \<Rightarrow> (u64 \<times> 's) res" where
  "vsnprintf_loop out buffer maxlen format va p =
     (if peek format = CHR 0x00 then Inr p
      else if peek format \<noteq> CHR ''%''
      then vsnprintf_loop out buffer maxlen (tl format) va (put out buffer maxlen (peek format) p)
      else (case directive out buffer maxlen (tl format) va p of
              Inl e \<Rightarrow> Inl e
            | Inr ((format, va), p) \<Rightarrow> vsnprintf_loop out buffer maxlen format va p))"
  by pat_completeness auto
termination
  by (relation "measure (\<lambda>(out, buffer, maxlen, format, va, p). length format)")
    (auto simp: peek_def split: list.splits dest!: directive_shorter)

declare vsnprintf_loop.simps [simp del]

definition put_terminator :: "'s out_fct_type \<Rightarrow> u64 \<Rightarrow> u64 \<Rightarrow> u64 \<times> 's \<Rightarrow> u32 \<times> 's" where
  [simp]: "put_terminator out buffer maxlen p =
     (let (idx, s) = p;
          s = out CHR 0x00 buffer (if idx < maxlen then idx else maxlen - 1) maxlen s
      in (ucast idx, s))"

definition vsnprintf ::
    "'s out_fct_type \<Rightarrow> u64 \<Rightarrow> u64 \<Rightarrow> string \<Rightarrow> va_list \<Rightarrow> 's \<Rightarrow> (u32 \<times> 's) res" where
  "vsnprintf out buffer maxlen format va s =
     (let out = (if buffer = 0 then out_null else out)
      in rbind (vsnprintf_loop out buffer maxlen format va (0, s)) (\<lambda>p. Inr (put_terminator out buffer maxlen p)))"

text \<open>
  The entry points that write to memory or to a function of the caller. \<open>printf_\<close> and
  \<open>vprintf_\<close> write to the serial devices and are in the theory \<open>Serial\<close>.
\<close>

definition sprintf :: "u64 \<Rightarrow> string \<Rightarrow> va_list \<Rightarrow> memory \<Rightarrow> (u32 \<times> memory) res" where
  "sprintf buffer format va m = vsnprintf out_buffer buffer (- 1) format va m"

definition snprintf :: "u64 \<Rightarrow> u64 \<Rightarrow> string \<Rightarrow> va_list \<Rightarrow> memory \<Rightarrow> (u32 \<times> memory) res" where
  "snprintf buffer count format va m = vsnprintf out_buffer buffer count format va m"

text \<open>The variant with a \<open>va_list\<close> parameter is the same call.\<close>

definition vsnprintf_api :: "u64 \<Rightarrow> u64 \<Rightarrow> string \<Rightarrow> va_list \<Rightarrow> memory \<Rightarrow> (u32 \<times> memory) res" where
  "vsnprintf_api buffer count format va m = vsnprintf out_buffer buffer count format va m"

text \<open>\<open>out_fct_wrap\<close> is a local object: its address is some address other than null.\<close>

definition fctprintf ::
    "(char \<Rightarrow> u64 \<Rightarrow> 's \<Rightarrow> 's) \<Rightarrow> u64 \<Rightarrow> u64 \<Rightarrow> string \<Rightarrow> va_list \<Rightarrow> 's \<Rightarrow> (u32 \<times> 's) res" where
  "fctprintf outf a out_fct_wrap format va s =
     vsnprintf (out_fct \<lparr>fct = outf, arg = a\<rparr>) out_fct_wrap (- 1) format va s"

end
