(* ===== verification/Printf_Text.thy ===== *)
theory Printf_Text
  imports Printf
begin

text \<open>
  The interpreter does not look at its output function: what it emits is a text that is
  determined by the format and the arguments. \<open>factors\<close> says that a computation on the
  pair of index and state emits the text of a result, \<open>same_text\<close> that two computations,
  on output functions over two different states, emit the same one. With the recorder as
  one of the two, \<open>format_text\<close> is that text, and \<open>vsnprintf_loop\<close> is \<open>emit\<close> of it
  for every output function.
\<close>

definition factors :: "'s out_fct_type \<Rightarrow> u64 \<Rightarrow> u64 \<Rightarrow> (u64 \<times> 's \<Rightarrow> (u64 \<times> 's) res) \<Rightarrow> string res \<Rightarrow> bool" where
  "factors out b m F r \<longleftrightarrow> (\<forall>p. F p = rbind r (\<lambda>cs. Inr (emit out b m cs p)))"

lemma factors_emit: "factors out b m (\<lambda>p. Inr (emit out b m cs p)) (Inr cs)"
  by (simp add: factors_def)

lemma factors_fault: "factors out b m (\<lambda>p. Inl e) (Inl e)"
  by (simp add: factors_def)

lemma factors_bind:
  "(\<And>x. a = Inr x \<Longrightarrow> factors out b m (F x) (r x)) \<Longrightarrow>
    factors out b m (\<lambda>p. rbind a (\<lambda>x. F x p)) (rbind a r)"
  by (cases a) (simp_all add: factors_def)

lemma factors_seq:
  assumes "factors out b m F r" "factors out b m G r'"
  shows "factors out b m (\<lambda>p. rbind (F p) G) (rbind r (\<lambda>cs. rbind r' (\<lambda>cs'. Inr (cs @ cs'))))"
proof -
  have "F p = rbind r (\<lambda>cs. Inr (emit out b m cs p))" "G p = rbind r' (\<lambda>cs. Inr (emit out b m cs p))" for p
    using assms unfolding factors_def by blast+
  then show ?thesis
    by (simp add: factors_def rbind_assoc)
qed

text \<open>Padding after a computation: the width that is left is that of the text.\<close>

lemma factors_pad_after:
  assumes "factors out b m F r"
  shows "factors out b m (\<lambda>p. rbind (F p) (\<lambda>q. Inr (pad_after out b m (fst p) w q)))
    (rbind r (\<lambda>cs. Inr (cs @ replicate (unat w - unat (of_nat (length cs) :: u64)) CHR '' '')))"
proof -
  have "F p = rbind r (\<lambda>cs. Inr (emit out b m cs p))" for p
    using assms unfolding factors_def by blast
  then show ?thesis
    by (simp add: factors_def rbind_assoc pad_after_emit fst_emit)
qed

definition same_text ::
    "'s out_fct_type \<Rightarrow> u64 \<Rightarrow> u64 \<Rightarrow> 't out_fct_type \<Rightarrow> u64 \<Rightarrow> u64 \<Rightarrow>
      (u64 \<times> 's \<Rightarrow> (u64 \<times> 's) res) \<Rightarrow> (u64 \<times> 't \<Rightarrow> (u64 \<times> 't) res) \<Rightarrow> bool" where
  "same_text out b m out' b' m' F G \<longleftrightarrow> (\<exists>r. factors out b m F r \<and> factors out' b' m' G r)"

lemma same_textI:
  "factors out b m F r \<Longrightarrow> factors out' b' m' G r \<Longrightarrow> same_text out b m out' b' m' F G"
  unfolding same_text_def by (rule exI, rule conjI)

lemma same_textE:
  assumes "same_text out b m out' b' m' F G"
  obtains r where "factors out b m F r" "factors out' b' m' G r"
  using assms unfolding same_text_def by (elim exE conjE)

named_theorems same_text_intros \<open>computations that emit the same text\<close>

lemma same_text_emit [same_text_intros]:
  "same_text out b m out' b' m' (\<lambda>p. Inr (emit out b m cs p)) (\<lambda>p. Inr (emit out' b' m' cs p))"
  by (rule same_textI; rule factors_emit)

lemma same_text_fault [same_text_intros]:
  "same_text out b m out' b' m' (\<lambda>p. Inl e) (\<lambda>p. Inl e)"
  by (rule same_textI; rule factors_fault)

lemma same_text_bind [same_text_intros]:
  assumes "\<And>x. a = Inr x \<Longrightarrow> same_text out b m out' b' m' (F x) (G x)"
  shows "same_text out b m out' b' m' (\<lambda>p. rbind a (\<lambda>x. F x p)) (\<lambda>p. rbind a (\<lambda>x. G x p))"
proof -
  have "\<exists>r. \<forall>x. a = Inr x \<longrightarrow> factors out b m (F x) (r x) \<and> factors out' b' m' (G x) (r x)"
    using assms unfolding same_text_def by metis
  then obtain r where r: "\<And>x. a = Inr x \<Longrightarrow> factors out b m (F x) (r x)"
    "\<And>x. a = Inr x \<Longrightarrow> factors out' b' m' (G x) (r x)"
    by blast
  show ?thesis
    by (rule same_textI; rule factors_bind; rule r)
qed

lemma same_text_seq [same_text_intros]:
  assumes "same_text out b m out' b' m' F G" "same_text out b m out' b' m' F' G'"
  shows "same_text out b m out' b' m' (\<lambda>p. rbind (F p) F') (\<lambda>p. rbind (G p) G')"
  using assms by (elim same_textE) (rule same_textI; rule factors_seq; assumption)

lemma same_text_pad_after:
  assumes "same_text out b m out' b' m' F G"
  shows "same_text out b m out' b' m' (\<lambda>p. rbind (F p) (\<lambda>q. Inr (pad_after out b m (fst p) w q)))
    (\<lambda>p. rbind (G p) (\<lambda>q. Inr (pad_after out' b' m' (fst p) w q)))"
  using assms by (elim same_textE) (rule same_textI; rule factors_pad_after; assumption)

lemma same_text_if [same_text_intros]:
  "(c \<Longrightarrow> same_text out b m out' b' m' F G) \<Longrightarrow> (\<not> c \<Longrightarrow> same_text out b m out' b' m' F' G') \<Longrightarrow>
    same_text out b m out' b' m' (\<lambda>p. if c then F p else F' p) (\<lambda>p. if c then G p else G' p)"
  by (cases c) simp_all

section \<open>The conversions\<close>

lemma same_text_out_rev [same_text_intros]:
  "length buf < 2 ^ 64 \<Longrightarrow> same_text out b m out' b' m'
    (\<lambda>p. Inr (out_rev out b p m buf w flags)) (\<lambda>p. Inr (out_rev out' b' p m' buf w flags))"
  by (simp add: out_rev_emit same_text_emit)

lemma same_text_ntoa [same_text_intros]:
  "2 \<le> unat base \<Longrightarrow> same_text out b m out' b' m'
    (\<lambda>p. ntoa_long out b p m v negative base prec width flags)
    (\<lambda>p. ntoa_long out' b' p m' v negative base prec width flags)"
  by (simp add: ntoa_long_emit same_text_emit)

lemma same_text_put [same_text_intros]:
  "same_text out b m out' b' m' (\<lambda>p. Inr (put out b m c p)) (\<lambda>p. Inr (put out' b' m' c p))"
  using same_text_emit [where cs = "[c]"] by simp

text \<open>Two floating-point conversions that emit the same text for all their arguments.\<close>

definition same_float ::
    "'s out_fct_type \<Rightarrow> u64 \<Rightarrow> u64 \<Rightarrow> 't out_fct_type \<Rightarrow> u64 \<Rightarrow> u64 \<Rightarrow> 's float_conv \<Rightarrow> 't float_conv \<Rightarrow> bool" where
  "same_float out b m out' b' m' F G \<longleftrightarrow> (\<forall>v prec w flags.
     same_text out b m out' b' m' (\<lambda>p. F out b p m v prec w flags) (\<lambda>p. G out' b' p m' v prec w flags))"

lemma same_float_ftoa:
  assumes "same_float out b m out' b' m' F G"
  shows "same_float out b m out' b' m' (ftoa_with F) (ftoa_with G)"
proof -
  have e: "same_text out b m out' b' m' (\<lambda>p. F out b p m v prec w flags)
      (\<lambda>p. G out' b' p m' v prec w flags)" for v prec w flags
    using assms by (simp add: same_float_def)
  have finish: "length buf' < 2 ^ 64"
    if "ftoa_limit prec [] = Inr (prec', buf)" "ftoa_digits v prec' whole frac buf = Inr buf1"
      "ftoa_finish negative w flags buf1 = Inr (w', buf')" for prec prec' buf v whole frac buf1
      negative w flags w' buf'
  proof -
    have "fits buf" using ftoa_limit_total [of "[]" prec] that(1) by auto
    then have "fits buf1" using ftoa_digits_total [of buf v prec' whole frac] that(2) by auto
    then have "fits buf'" using ftoa_finish_total [of buf1 negative w flags] that(3) by auto
    then show ?thesis by (simp add: fits_def PRINTF_FTOA_BUFFER_SIZE_def)
  qed
  show ?thesis
    unfolding same_float_def ftoa_with_def Let_def case_prod_beta
    by (intro allI same_text_intros e) (auto dest: finish)
qed

lemma same_text_put_then:
  "same_text out b m out' b' m' F G \<Longrightarrow>
    same_text out b m out' b' m' (\<lambda>p. F (put out b m c p)) (\<lambda>p. G (put out' b' m' c p))"
  using same_text_seq [OF same_text_put [of out b m out' b' m' c]] by simp

lemma same_text_return: "same_text out b m out' b' m' (\<lambda>p. Inr p) (\<lambda>p. Inr p)"
  using same_text_emit [where cs = "[]"] by simp

text \<open>The tail of \<open>_etoa\<close>: exponent symbol, exponent and padding, if there is an exponent.\<close>

lemma same_text_exponent:
  assumes F: "same_text out b m out' b' m' F G" and N: "same_text out b m out' b' m' N N'"
  shows "same_text out b m out' b' m'
    (\<lambda>p. rbind (F p) (\<lambda>q. if mw then rbind (N (put out b m c q)) (\<lambda>q.
        Inr (if left then pad_after out b m (fst p) w q else q)) else Inr q))
    (\<lambda>p. rbind (G p) (\<lambda>q. if mw then rbind (N' (put out' b' m' c q)) (\<lambda>q.
        Inr (if left then pad_after out' b' m' (fst p) w q else q)) else Inr q))"
proof -
  have n: "same_text out b m out' b' m' (\<lambda>p. rbind (F p) (\<lambda>q. N (put out b m c q)))
      (\<lambda>p. rbind (G p) (\<lambda>q. N' (put out' b' m' c q)))"
    by (intro same_text_seq F same_text_put_then N)
  show ?thesis
    using same_text_pad_after [OF n, of w] same_text_seq [OF n same_text_return]
      same_text_seq [OF F same_text_return]
    by (cases mw; cases left) (simp_all add: rbind_assoc)
qed

lemma same_float_etoa:
  assumes "same_float out b m out' b' m' F G"
  shows "same_float out b m out' b' m' (etoa_with F) (etoa_with G)"
proof -
  have e: "same_text out b m out' b' m' (\<lambda>p. F out b p m v prec w flags)
      (\<lambda>p. G out' b' p m' v prec w flags)" for v prec w flags
    using assms by (simp add: same_float_def)
  show ?thesis
    unfolding same_float_def etoa_with_def Let_def case_prod_beta
    by (intro allI same_text_if same_text_bind same_text_exponent e same_text_ntoa) simp_all
qed

lemma same_float_depth:
  "same_float out b m out' b' m' (ftoa_depth n) (ftoa_depth n)"
  "same_float out b m out' b' m' (etoa_depth n) (etoa_depth n)"
proof (induction n)
  case 0
  { case 1 show ?case by (simp add: same_float_def same_text_fault) }
  { case 2 show ?case by (simp add: same_float_def same_text_fault) }
next
  case (Suc n)
  { case 1 show ?case using same_float_ftoa [OF Suc(2)] by simp }
  { case 2 show ?case using same_float_etoa [OF Suc(1)] by simp }
qed

lemma same_text_ftoa [same_text_intros]:
  "same_text out b m out' b' m' (\<lambda>p. ftoa out b p m v prec w flags)
    (\<lambda>p. ftoa out' b' p m' v prec w flags)"
  using same_float_depth(1) unfolding same_float_def ftoa_def by blast

lemma same_text_etoa [same_text_intros]:
  "same_text out b m out' b' m' (\<lambda>p. etoa out b p m v prec w flags)
    (\<lambda>p. etoa out' b' p m' v prec w flags)"
  using same_float_depth(2) unfolding same_float_def etoa_def by blast

section \<open>Conversions that also return the arguments left\<close>

definition factors_with ::
    "'s out_fct_type \<Rightarrow> u64 \<Rightarrow> u64 \<Rightarrow> (u64 \<times> 's \<Rightarrow> ('x \<times> u64 \<times> 's) res) \<Rightarrow> ('x \<times> string) res \<Rightarrow> bool" where
  "factors_with out b m F r \<longleftrightarrow> (\<forall>p. F p = rbind r (\<lambda>(x, cs). Inr (x, emit out b m cs p)))"

definition same_with ::
    "'s out_fct_type \<Rightarrow> u64 \<Rightarrow> u64 \<Rightarrow> 't out_fct_type \<Rightarrow> u64 \<Rightarrow> u64 \<Rightarrow>
      (u64 \<times> 's \<Rightarrow> ('x \<times> u64 \<times> 's) res) \<Rightarrow> (u64 \<times> 't \<Rightarrow> ('x \<times> u64 \<times> 't) res) \<Rightarrow> bool" where
  "same_with out b m out' b' m' F G \<longleftrightarrow> (\<exists>r. factors_with out b m F r \<and> factors_with out' b' m' G r)"

lemma same_withI:
  "factors_with out b m F r \<Longrightarrow> factors_with out' b' m' G r \<Longrightarrow> same_with out b m out' b' m' F G"
  unfolding same_with_def by (rule exI, rule conjI)

lemma same_withE:
  assumes "same_with out b m out' b' m' F G"
  obtains r where "factors_with out b m F r" "factors_with out' b' m' G r"
  using assms unfolding same_with_def by (elim exE conjE)

named_theorems same_with_intros \<open>conversions that emit the same text\<close>

lemma factors_with_return:
  assumes "factors out b m F r"
  shows "factors_with out b m (\<lambda>p. rbind (F p) (\<lambda>p. Inr (x, p))) (rbind r (\<lambda>cs. Inr (x, cs)))"
proof -
  have "F p = rbind r (\<lambda>cs. Inr (emit out b m cs p))" for p
    using assms unfolding factors_def by blast
  then show ?thesis by (simp add: factors_with_def rbind_assoc)
qed

lemma same_with_return [same_with_intros]:
  "same_text out b m out' b' m' F G \<Longrightarrow> same_with out b m out' b' m'
    (\<lambda>p. rbind (F p) (\<lambda>p. Inr (x, p))) (\<lambda>p. rbind (G p) (\<lambda>p. Inr (x, p)))"
  by (elim same_textE) (rule same_withI; rule factors_with_return; assumption)

lemma factors_with_bind:
  "(\<And>x. a = Inr x \<Longrightarrow> factors_with out b m (F x) (r x)) \<Longrightarrow>
    factors_with out b m (\<lambda>p. rbind a (\<lambda>x. F x p)) (rbind a r)"
  by (cases a) (simp_all add: factors_with_def)

lemma same_with_bind [same_with_intros]:
  assumes "\<And>x. a = Inr x \<Longrightarrow> same_with out b m out' b' m' (F x) (G x)"
  shows "same_with out b m out' b' m' (\<lambda>p. rbind a (\<lambda>x. F x p)) (\<lambda>p. rbind a (\<lambda>x. G x p))"
proof -
  have "\<exists>r. \<forall>x. a = Inr x \<longrightarrow> factors_with out b m (F x) (r x) \<and> factors_with out' b' m' (G x) (r x)"
    using assms unfolding same_with_def by metis
  then obtain r where r: "\<And>x. a = Inr x \<Longrightarrow> factors_with out b m (F x) (r x)"
    "\<And>x. a = Inr x \<Longrightarrow> factors_with out' b' m' (G x) (r x)"
    by blast
  show ?thesis
    by (rule same_withI; rule factors_with_bind; rule r)
qed

lemma same_with_if [same_with_intros]:
  "(c \<Longrightarrow> same_with out b m out' b' m' F G) \<Longrightarrow> (\<not> c \<Longrightarrow> same_with out b m out' b' m' F' G') \<Longrightarrow>
    same_with out b m out' b' m' (\<lambda>p. if c then F p else F' p) (\<lambda>p. if c then G p else G' p)"
  by (cases c) simp_all

text \<open>The specifier's result is re-paired with the format that is left.\<close>

lemma factors_with_then:
  assumes "factors_with out b m F r"
  shows "factors_with out b m (\<lambda>p. rbind (F p) (\<lambda>q. rbind a (\<lambda>y. Inr ((y, fst q), snd q))))
    (rbind r (\<lambda>(x, cs). rbind a (\<lambda>y. Inr ((y, x), cs))))"
proof -
  have "F p = rbind r (\<lambda>(x, cs). Inr (x, emit out b m cs p))" for p
    using assms unfolding factors_with_def by blast
  then show ?thesis by (simp add: factors_with_def rbind_assoc case_prod_beta)
qed

lemma same_with_then [same_with_intros]:
  "same_with out b m out' b' m' F G \<Longrightarrow> same_with out b m out' b' m'
    (\<lambda>p. rbind (F p) (\<lambda>q. rbind a (\<lambda>y. Inr ((y, fst q), snd q))))
    (\<lambda>p. rbind (G p) (\<lambda>q. rbind a (\<lambda>y. Inr ((y, fst q), snd q))))"
  by (elim same_withE) (rule same_withI; rule factors_with_then; assumption)

lemma same_with_emit:
  "same_with out b m out' b' m' (\<lambda>p. Inr (x, emit out b m cs p)) (\<lambda>p. Inr (x, emit out' b' m' cs p))"
  by (rule same_withI [where r = "Inr (x, cs)"]) (simp_all add: factors_with_def)

section \<open>The conversions of \<open>_vsnprintf\<close>\<close>

lemma pad_field_emit:
  "pad_field out b m l width p = emit out b m (replicate (unat width - unat l) CHR '' '') p"
proof (induction out b m l width p rule: pad_field.induct)
  case (1 out b m l width p)
  show ?case
  proof (cases "l < width")
    case True
    then have "unat width - unat l = Suc (unat width - unat (l + 1))"
      by (simp add: unat_Suc_less word_less_nat_alt)
    with "1.IH" [OF True] True show ?thesis
      by (simp add: pad_field.simps [of out b m l])
  next
    case False
    then show ?thesis
      by (simp add: pad_field.simps [of out b m l] word_less_nat_alt)
  qed
qed

text \<open>The characters \<open>%s\<close> prints: up to the NUL, and at most as many as the precision.\<close>

definition str_text :: "bool \<Rightarrow> u32 \<Rightarrow> string \<Rightarrow> string" where
  "str_text limited precision s =
     (let t = takeWhile (\<lambda>c. c \<noteq> CHR 0x00) s in if limited then take (unat precision) t else t)"

lemma str_text_Cons:
  "c \<noteq> CHR 0x00 \<and> (\<not> limited \<or> precision \<noteq> 0) \<Longrightarrow>
    str_text limited precision (c # cs) = c # str_text limited (precision - 1) cs"
  "\<not> (c \<noteq> CHR 0x00 \<and> (\<not> limited \<or> precision \<noteq> 0)) \<Longrightarrow> str_text limited precision (c # cs) = []"
  by (cases limited; simp add: str_text_def take_Cons' unat_eq_0 unat_minus_one)
    (auto simp: str_text_def Let_def)

lemma put_str_emit:
  "put_str out b m limited precision s p = emit out b m (str_text limited precision s) p"
proof (induction s arbitrary: precision p)
  case Nil
  then show ?case by (simp add: str_text_def)
next
  case (Cons c cs)
  show ?case
  proof (cases "c \<noteq> CHR 0x00 \<and> (\<not> limited \<or> precision \<noteq> 0)")
    case True
    with Cons show ?thesis by (simp add: str_text_Cons(1) [OF True])
  next
    case False
    then show ?thesis by (auto simp: str_text_Cons(2))
  qed
qed

lemma int_base_ge_2: "2 \<le> unat (ucast (int_base c) :: u64)"
  by (simp add: int_base_def)

lemma same_with_int [same_with_intros]:
  "same_with out b m out' b' m' (conv_int out b m c flags w prec va) (conv_int out' b' m' c flags w prec va)"
  unfolding conv_int_def Let_def case_prod_beta ntoa_long_long_eq if_cancel
  by (intro same_with_intros same_text_intros int_base_ge_2)

lemma same_with_float [same_with_intros]:
  "same_with out b m out' b' m' (conv_float out b m c flags w prec va) (conv_float out' b' m' c flags w prec va)"
  unfolding conv_float_def Let_def case_prod_beta
  by (intro same_with_intros same_text_intros)

lemma same_with_ptr [same_with_intros]:
  "same_with out b m out' b' m' (conv_ptr out b m flags prec va) (conv_ptr out' b' m' flags prec va)"
  unfolding conv_ptr_def Let_def case_prod_beta ntoa_long_long_eq
  by (intro same_with_intros same_text_intros) simp

text \<open>The field of \<open>%c\<close> and \<open>%s\<close>: padding before or after the characters.\<close>

definition pad_text :: "u32 \<Rightarrow> u32 \<Rightarrow> u32 \<Rightarrow> string \<Rightarrow> string" where
  "pad_text flags l width cs =
     (let pad = replicate (unat width - unat l) CHR '' ''
      in if has flags FLAGS_LEFT then cs @ pad else pad @ cs)"

definition char_text :: "u32 \<Rightarrow> u32 \<Rightarrow> u32 \<Rightarrow> string" where
  "char_text flags width w = pad_text flags 1 width [char_of (unat (ucast w :: u8))]"

lemma conv_char_emit:
  "conv_char out b m flags width va p =
    rbind (va_int va) (\<lambda>(w, va). Inr (va, emit out b m (char_text flags width w) p))"
  by (simp add: conv_char_def char_text_def pad_text_def pad_field_emit Let_def)

definition str_field :: "u32 \<Rightarrow> u32 \<Rightarrow> u32 \<Rightarrow> string \<Rightarrow> string" where
  "str_field flags width precision s =
     (let l = strnlen_s s (if precision \<noteq> 0 then ucast precision else - 1);
          l = (if has flags FLAGS_PRECISION then if l < precision then l else precision else l)
      in pad_text flags l width (str_text (has flags FLAGS_PRECISION) precision s))"

lemma conv_str_emit:
  "conv_str out b m flags width precision va p =
    rbind (va_str va) (\<lambda>(s, va). Inr (va, emit out b m (str_field flags width precision s) p))"
  by (cases "has flags FLAGS_LEFT"; cases "va_str va")
    (simp_all add: conv_str_def str_field_def pad_text_def pad_field_emit put_str_emit Let_def
      case_prod_beta del: if_split)

lemma same_with_char [same_with_intros]:
  "same_with out b m out' b' m' (conv_char out b m flags w va) (conv_char out' b' m' flags w va)"
  unfolding conv_char_emit case_prod_beta by (intro same_with_bind same_with_emit)

lemma same_with_str [same_with_intros]:
  "same_with out b m out' b' m' (conv_str out b m flags w prec va) (conv_str out' b' m' flags w prec va)"
  unfolding conv_str_emit case_prod_beta by (intro same_with_bind same_with_emit)

lemma same_with_put [same_with_intros]:
  "same_with out b m out' b' m' (\<lambda>p. Inr (x, put out b m c p)) (\<lambda>p. Inr (x, put out' b' m' c p))"
  using same_with_emit [where cs = "[c]"] by simp

lemma same_with_conversion [same_with_intros]:
  "same_with out b m out' b' m' (conversion out b m c flags w prec va) (conversion out' b' m' c flags w prec va)"
  unfolding conversion_def conv_literal_def by (intro same_with_intros)

lemma same_with_directive:
  "same_with out b m out' b' m' (directive out b m format va) (directive out' b' m' format va)"
  unfolding directive_def case_prod_beta Let_def by (intro same_with_intros)

section \<open>The interpreter\<close>

lemma factors_directive:
  assumes "factors_with out b m F r"
    and "\<And>x cs. r = Inr (x, cs) \<Longrightarrow> factors out b m (G x) (r' x)"
  shows "factors out b m (\<lambda>p. rbind (F p) (\<lambda>(x, p). G x p))
    (rbind r (\<lambda>(x, cs). rbind (r' x) (\<lambda>cs'. Inr (cs @ cs'))))"
proof (cases r)
  case (Inl e)
  with assms(1) show ?thesis by (auto simp: factors_with_def factors_def)
next
  case (Inr xcs)
  obtain x cs where "xcs = (x, cs)" by fastforce
  then have "G x p = rbind (r' x) (\<lambda>cs. Inr (emit out b m cs p))" for p
    using assms(2) Inr unfolding factors_def by blast
  moreover have "F p = rbind r (\<lambda>(x, cs). Inr (x, emit out b m cs p))" for p
    using assms(1) unfolding factors_with_def by blast
  ultimately show ?thesis
    using Inr \<open>xcs = (x, cs)\<close> by (simp add: factors_def rbind_assoc)
qed

lemma vsnprintf_loop_unfold:
  "vsnprintf_loop out b m format va p =
     (if peek format = CHR 0x00 then Inr p
      else if peek format \<noteq> CHR ''%''
      then vsnprintf_loop out b m (tl format) va (put out b m (peek format) p)
      else rbind (directive out b m (tl format) va p) (\<lambda>(x, p).
        vsnprintf_loop out b m (fst x) (snd x) p))"
  by (subst vsnprintf_loop.simps) (simp add: rbind_def case_prod_beta split: sum.splits)

lemma same_text_loop:
  "same_text out b m out' b' m' (vsnprintf_loop out b m format va) (vsnprintf_loop out' b' m' format va)"
proof (induction format arbitrary: va rule: length_induct)
  case (1 format)
  show ?case
  proof (cases "peek format = CHR 0x00")
    case True
    then show ?thesis
      using same_text_return by (subst (1 2) vsnprintf_loop_unfold [abs_def]) simp
  next
    case False
    then have tl: "length (tl format) < length format"
      by (cases format) simp_all
    show ?thesis
    proof (cases "peek format = CHR ''%''")
      case True
      obtain r where r: "factors_with out b m (directive out b m (tl format) va) r"
        "factors_with out' b' m' (directive out' b' m' (tl format) va) r"
        using same_withE [OF same_with_directive] .
      have "length (fst x) < length format" if "r = Inr (x, cs)" for x cs
        using directive_shorter [of out b m "tl format" va _ "fst x" "snd x"] r(1) that tl
        unfolding factors_with_def by fastforce
      then have "\<forall>x. \<exists>s. (\<exists>cs. r = Inr (x, cs)) \<longrightarrow>
          factors out b m (vsnprintf_loop out b m (fst x) (snd x)) s \<and>
          factors out' b' m' (vsnprintf_loop out' b' m' (fst x) (snd x)) s"
        using 1 unfolding same_text_def by metis
      then obtain s where s: "\<And>x cs. r = Inr (x, cs) \<Longrightarrow>
          factors out b m (vsnprintf_loop out b m (fst x) (snd x)) (s x)"
        "\<And>x cs. r = Inr (x, cs) \<Longrightarrow>
          factors out' b' m' (vsnprintf_loop out' b' m' (fst x) (snd x)) (s x)"
        by metis
      have "vsnprintf_loop out b m format va = (\<lambda>p. rbind (directive out b m (tl format) va p)
          (\<lambda>(x, p). vsnprintf_loop out b m (fst x) (snd x) p))"
        "vsnprintf_loop out' b' m' format va = (\<lambda>p. rbind (directive out' b' m' (tl format) va p)
          (\<lambda>(x, p). vsnprintf_loop out' b' m' (fst x) (snd x) p))"
        using True by (auto simp: vsnprintf_loop_unfold [of out b m format]
            vsnprintf_loop_unfold [of out' b' m' format])
      then show ?thesis
        using same_textI [OF factors_directive [OF r(1) s(1)] factors_directive [OF r(2) s(2)]]
        by simp
    next
      case lit: False
      have "vsnprintf_loop out b m format va =
          (\<lambda>p. vsnprintf_loop out b m (tl format) va (put out b m (peek format) p))"
        "vsnprintf_loop out' b' m' format va =
          (\<lambda>p. vsnprintf_loop out' b' m' (tl format) va (put out' b' m' (peek format) p))"
        using False lit by (auto simp: vsnprintf_loop_unfold [of out b m format]
            vsnprintf_loop_unfold [of out' b' m' format])
      with 1 tl show ?thesis
        using same_text_put_then by metis
    qed
  qed
qed

text \<open>The recorder keeps the characters it is given; its text is the text of the format.\<close>

definition recorder :: "string out_fct_type" where
  "recorder c buffer idx maxlen s = s @ [c]"

lemma emit_recorder: "snd (emit recorder b m cs p) = snd p @ cs"
  by (induction cs arbitrary: p) (simp_all add: put_def recorder_def)

definition format_text :: "string \<Rightarrow> va_list \<Rightarrow> string res" where
  "format_text format va =
     rbind (vsnprintf_loop recorder 1 0 format va (0, [])) (\<lambda>p. Inr (snd p))"

lemma vsnprintf_loop_text:
  "vsnprintf_loop out b m format va p = rbind (format_text format va) (\<lambda>cs. Inr (emit out b m cs p))"
proof -
  obtain r where r: "factors out b m (vsnprintf_loop out b m format va) r"
    "factors recorder 1 0 (vsnprintf_loop recorder 1 0 format va) r"
    using same_textE [OF same_text_loop] .
  have "vsnprintf_loop recorder 1 0 format va (0, []) = rbind r (\<lambda>cs. Inr (emit recorder 1 0 cs (0, [])))"
    using r(2) unfolding factors_def by blast
  then have "format_text format va = r"
    by (cases r) (simp_all add: format_text_def emit_recorder)
  with r(1) show ?thesis
    unfolding factors_def by blast
qed

text \<open>
  The whole call: the text, the terminator at the first index after it that is inside the
  buffer, and the length of the text as the returned \<open>int\<close>.
\<close>

lemma vsnprintf_text:
  "vsnprintf out b m format va s =
    rbind (format_text format va) (\<lambda>cs.
      let out = (if b = 0 then out_null else out);
          n = of_nat (length cs)
      in Inr (of_nat (length cs), out CHR 0x00 b (if n < m then n else m - 1) m
           (snd (emit out b m cs (0, s)))))"
proof (cases "format_text format va")
  case (Inl e)
  then show ?thesis by (simp add: vsnprintf_def vsnprintf_loop_text Let_def)
next
  case (Inr cs)
  then show ?thesis
    by (simp add: vsnprintf_def vsnprintf_loop_text Let_def case_prod_beta fst_emit)
qed

text \<open>What the output function keeps, the whole call keeps.\<close>

context sink begin

lemma vsnprintf_sinv:
  assumes "vsnprintf out buffer maxlen format va s = Inr (n, t)" "sinv s"
  shows "sinv t"
proof -
  obtain cs i where "t = (if buffer = 0 then out_null else out) CHR 0x00 buffer i maxlen
      (snd (emit (if buffer = 0 then out_null else out) buffer maxlen cs (0, s)))"
    using assms(1) by (auto simp: vsnprintf_text rbind_Inr_iff Let_def)
  then show ?thesis
    using assms(2) out_sinv emit_sinv [of "(0, s)" cs] by (auto simp: out_null_def)
qed

end

text \<open>A counted buffer holds the text, cut off if it must be, and its terminator.\<close>

definition stored_text :: "u64 \<Rightarrow> string \<Rightarrow> string" where
  "stored_text count cs =
     (if count = 0 then [] else take (unat count - 1) cs @ [CHR 0x00])"

definition store_string :: "u64 \<Rightarrow> string \<Rightarrow> memory \<Rightarrow> memory" where
  "store_string b cs m = (\<lambda>a. if unat (a - b) < length cs then of_char (cs ! unat (a - b)) else m a)"

lemma snprintf_text:
  assumes "b \<noteq> 0" "format_text format va = Inr cs" "length cs < 2 ^ 64"
  shows "snprintf b count format va m = Inr (of_nat (length cs), store_string b (stored_text count cs) m)"
proof -
  let ?n = "of_nat (length cs) :: u64"
  let ?m = "snd (emit out_buffer b count cs (0, m))"
  have n: "unat ?n = length cs"
    using assms(3) by (simp add: unsigned_of_nat take_bit_nat_eq_self_iff)
  have "out_buffer CHR 0x00 b (if ?n < count then ?n else count - 1) count ?m a =
      store_string b (stored_text count cs) m a" for a
  proof (cases "count = 0")
    case True
    then show ?thesis
      by (simp add: out_buffer_def store_string_def stored_text_def emit_out_buffer [OF assms(3)])
  next
    case False
    then have "0 < unat count"
      by (simp add: unat_gt_0)
    let ?i = "if ?n < count then ?n else count - 1"
    have i: "unat ?i = min (length cs) (unat count - 1)" "?i < count"
      using False n \<open>0 < unat count\<close> by (auto simp: unat_minus_one word_less_nat_alt unat_eq_0 min_def)
    have "a = b + ?i \<longleftrightarrow> unat (a - b) = unat ?i"
      by (metis add_diff_cancel_left' diff_add_cancel add.commute unsigned_word_eqI)
    moreover have "a - b < count \<longleftrightarrow> unat (a - b) < unat count"
      by (simp add: word_less_nat_alt)
    ultimately show ?thesis
      using i False assms(3)
      by (auto simp: out_buffer_def store_string_def stored_text_def emit_out_buffer [OF assms(3)] nth_append
          min_def)
  qed
  then show ?thesis
    using assms(1,2) by (simp add: snprintf_def vsnprintf_text Let_def fun_eq_iff)
qed

end
