(* ===== verification/Printf_Spec.thy ===== *)
theory Printf_Spec
  imports Printf_Text
begin

text \<open>
  The text of formats, specifier by specifier: equations that compute \<open>format_text\<close> for
  literal characters and for the plain conversions, on symbolic arguments. What the boot code
  prints is computed from them.
\<close>

section \<open>The equations of the interpreter\<close>

named_theorems format_text_simps \<open>equations that compute the text of a format\<close>

lemma format_text_Nil [format_text_simps]: "format_text [] va = Inr []"
  by (simp add: format_text_def vsnprintf_loop.simps [of _ _ _ "[]"])

lemma format_text_literal [format_text_simps]:
  assumes "c \<noteq> CHR 0x00" "c \<noteq> CHR ''%''"
  shows "format_text (c # cs) va = rbind (format_text cs va) (\<lambda>ts. Inr (c # ts))"
proof -
  have "vsnprintf_loop recorder 1 0 (c # cs) va (0, []) = vsnprintf_loop recorder 1 0 cs va (1, [c])"
    using assms by (subst vsnprintf_loop_unfold) (simp add: put_def recorder_def)
  then show ?thesis
    by (simp only: format_text_def [of "c # cs"]) (simp add: vsnprintf_loop_text rbind_assoc emit_recorder)
qed

lemma format_text_percent:
  "format_text (CHR ''%'' # cs) va =
    rbind (directive recorder 1 0 cs va (0, [])) (\<lambda>(x, p).
    rbind (format_text (fst x) (snd x)) (\<lambda>ts. Inr (snd p @ ts)))"
proof -
  have "vsnprintf_loop recorder 1 0 (CHR ''%'' # cs) va (0, []) =
      rbind (directive recorder 1 0 cs va (0, [])) (\<lambda>(x, p). vsnprintf_loop recorder 1 0 (fst x) (snd x) p)"
    by (subst vsnprintf_loop_unfold) simp
  then show ?thesis
    by (cases "directive recorder 1 0 cs va (0, [])", simp_all only: format_text_def [of "_ # cs"])
      (auto simp: vsnprintf_loop_text rbind_assoc emit_recorder)
qed

lemma format_text_append:
  assumes "CHR 0x00 \<notin> set cs" "CHR ''%'' \<notin> set cs"
  shows "format_text (cs @ cs') va = rbind (format_text cs' va) (\<lambda>ts. Inr (cs @ ts))"
  using assms
proof (induction cs)
  case Nil
  then show ?case by (cases "format_text cs' va") simp_all
next
  case (Cons c cs)
  then have "c \<noteq> CHR 0x00" "c \<noteq> CHR ''%''"
    by auto
  with Cons show ?case
    by (cases "format_text cs' va") (simp_all add: format_text_literal)
qed

text \<open>A specifier without flags, width, precision and length, and one with an \<open>l\<close>.\<close>

definition plain :: "char \<Rightarrow> bool" where
  "plain c \<longleftrightarrow> c \<notin> set ''0-+ #*.lhtjz'' \<and> \<not> is_digit c"

lemma directive_plain:
  assumes "plain c"
  shows "directive out b m (c # cs) va p =
    rbind (conversion out b m c 0 0 0 va p) (\<lambda>(va, p). Inr ((cs, va), p))"
  using assms
  by (simp add: directive_def plain_def parse_width_def parse_precision_def parse_length_def)

lemma directive_long:
  assumes "plain c"
  shows "directive out b m (CHR ''l'' # c # cs) va p =
    rbind (conversion out b m c FLAGS_LONG 0 0 va p) (\<lambda>(va, p). Inr ((cs, va), p))"
  using assms
  by (simp add: directive_def plain_def parse_width_def parse_precision_def parse_length_def is_digit_def)


section \<open>Numbers\<close>

text \<open>A number in a base, with digits below 36 in lower case, and a signed decimal one.\<close>

definition nat_text :: "nat \<Rightarrow> nat \<Rightarrow> string" where
  "nat_text base n = digits_text 0 base n"

definition int_text :: "int \<Rightarrow> string" where
  "int_text i = (if i < 0 then CHR ''-'' # nat_text 10 (nat (- i)) else nat_text 10 (nat i))"

lemma has_0 [simp]: "\<not> has 0 f"
  by (simp add: has_def)

lemma digits_text_flags:
  "\<not> has flags FLAGS_UPPERCASE \<Longrightarrow> digits_text flags base n = digits_text 0 base n"
  by (simp add: digits_text_def digit_char_def)

lemma ntoa_plain:
  assumes "2 \<le> unat base" "unat v < unat base ^ 31"
    and "\<And>f. f \<in> {FLAGS_HASH, FLAGS_PRECISION, FLAGS_LEFT, FLAGS_ZEROPAD, FLAGS_PLUS, FLAGS_SPACE, FLAGS_UPPERCASE}
      \<Longrightarrow> \<not> has flags f"
  shows "ntoa_long out b p m v negative base 0 0 flags =
    Inr (emit out b m ((if negative then ''-'' else []) @ nat_text (unat base) (unat v)) p)"
proof -
  have f: "\<not> has flags FLAGS_HASH" "\<not> has flags FLAGS_PRECISION" "\<not> has flags FLAGS_LEFT"
    "\<not> has flags FLAGS_ZEROPAD" "\<not> has flags FLAGS_PLUS" "\<not> has flags FLAGS_SPACE"
    "\<not> has flags FLAGS_UPPERCASE"
    by (rule assms(3); simp)+
  have fits: "ntoa_fits v base 0 0 flags"
    unfolding ntoa_fits_def using assms(1,2) f(4) by (intro conjI) (assumption | simp)+
  show ?thesis
    by (cases negative) (simp_all add: ntoa_long_fits [OF f(1) fits] ntoa_text_def ntoa_digits_text_def ntoa_zero_count_def field_text_def sign_text_def
        nat_text_def digits_text_flags [OF f(7)] f)
qed

lemma unat_less_pow:
  assumes "10 \<le> base"
  shows "unat (v :: u64) < base ^ 31"
proof -
  have "unat v < 2 ^ 64"
    using unsigned_less [of v, where ?'a = nat] by simp
  also have "(2 :: nat) ^ 64 < 10 ^ 31"
    by simp
  also have "(10 :: nat) ^ 31 \<le> base ^ 31"
    using assms by (rule power_mono) simp
  finally show ?thesis .
qed

lemma sint_neg_unat:
  assumes "v <s 0"
  shows "int (unat (- v)) = - sint (v :: 'a::len word)"
proof -
  have v: "sint v < 0"
    using assms by (simp add: word_sless_alt)
  have "- v = word_of_int (- sint v)"
    by simp
  then have u: "uint (- v) = take_bit LENGTH('a) (- sint v)"
    by (metis uint_word_of_int_eq)
  have "- (2 ^ (LENGTH('a) - 1)) \<le> sint v"
    by (rule sint_ge)
  moreover have "(2 :: int) ^ (LENGTH('a) - 1) < 2 ^ LENGTH('a)"
    by (rule power_strict_increasing) simp_all
  ultimately have lt: "- sint v < 2 ^ LENGTH('a)"
    by linarith
  have "0 \<le> - sint v" using v by linarith
  then have "take_bit LENGTH('a) (- sint v) = - sint v"
    using lt by (rule take_bit_int_eq_self)
  then show ?thesis
    using u by (simp only: of_nat_unat)
qed

lemma sint_nonneg_unat:
  assumes "0 \<le> sint v"
  shows "sint (v :: 'a::len word) = int (unat v)"
proof -
  have "sint v < 2 ^ (LENGTH('a) - 1)"
    by (rule sint_lt)
  moreover have "(2 :: int) ^ (LENGTH('a) - 1) < 2 ^ LENGTH('a)"
    by (rule power_strict_increasing) simp_all
  ultimately have "sint v < 2 ^ LENGTH('a)"
    by linarith
  with assms have "take_bit LENGTH('a) (sint v) = sint v"
    by (rule take_bit_int_eq_self)
  then show ?thesis
    by (simp only: of_nat_unat uint_sint)
qed

text \<open>The flags the plain conversions run with.\<close>

lemma int_flags_0: "c \<noteq> CHR ''X'' \<Longrightarrow> int_flags c 0 = 0"
  by (simp add: int_flags_def)

lemma int_flags_long: "c \<noteq> CHR ''X'' \<Longrightarrow> int_flags c FLAGS_LONG = FLAGS_LONG"
  by (simp add: int_flags_def FLAGS_defs has_def)

lemma has_long [simp]:
  "has FLAGS_LONG FLAGS_LONG" "\<not> has FLAGS_LONG FLAGS_LONG_LONG"
  by (simp_all add: FLAGS_defs has_def)

lemma ntoa_plain_0:
  assumes "2 \<le> unat base" "unat v < unat base ^ 31"
  shows "ntoa_long out b p m v negative base 0 0 0 =
    Inr (emit out b m ((if negative then ''-'' else []) @ nat_text (unat base) (unat v)) p)"
  using assms by (rule ntoa_plain) simp

lemma ntoa_plain_long:
  assumes "2 \<le> unat base" "unat v < unat base ^ 31"
  shows "ntoa_long out b p m v negative base 0 0 FLAGS_LONG =
    Inr (emit out b m ((if negative then ''-'' else []) @ nat_text (unat base) (unat v)) p)"
  using assms by (rule ntoa_plain) (auto simp: FLAGS_defs has_def)

lemma int_text_signed:
  assumes "abs_signed v = Inr a"
  shows "int_text (sint v) = (if v <s 0 then ''-'' else []) @ nat_text 10 (unat a)"
proof (cases "v <s 0")
  case True
  then have "sint v < 0" "\<not> 0 <s v"
    by (simp_all add: word_sless_alt)
  moreover from this have "a = - v"
    using assms by (simp add: abs_signed_def rbind_Inr_iff)
  moreover have "unat (- v) = nat (- sint v)"
    using sint_neg_unat [OF True] by linarith
  ultimately show ?thesis
    using True by (simp add: int_text_def)
next
  case False
  then have s: "0 \<le> sint v"
    by (simp add: word_sless_alt)
  have "a = v"
  proof (cases "0 <s v")
    case True
    then show ?thesis using assms by (simp add: abs_signed_def)
  next
    case 2: False
    then have "sint v = 0"
      using s by (simp add: word_sless_alt)
    then have "v = 0"
      by (metis signed_eq_0_iff)
    then show ?thesis using assms by (simp add: abs_signed_def rbind_Inr_iff)
  qed
  moreover have "unat v = nat (sint v)"
    using sint_nonneg_unat [OF s] by simp
  ultimately show ?thesis
    using False s by (simp add: int_text_def)
qed


section \<open>The plain conversions\<close>

lemma conv_d:
  "conversion out b m CHR ''d'' 0 0 0 (VaInt w # va) p =
    (if sint (ucast w :: u32) = - (2 ^ 31) then Inl SignedOverflow
     else Inr (va, emit out b m (int_text (sint (ucast w :: u32))) p))"
proof (cases "abs_signed (ucast w :: u32)")
  case (Inl e)
  then have "sint (ucast w :: u32) = - (2 ^ 31)" "e = SignedOverflow"
    by (simp_all add: abs_signed_def require_def split: if_splits)
  with Inl show ?thesis
    by (simp add: conversion_def conv_int_def int_flags_0 signed_arg_def va_int_def va_long_def)
next
  case (Inr a)
  then have "sint (ucast w :: u32) \<noteq> - (2 ^ 31)"
    by (auto simp: abs_signed_def require_def word_sless_alt split: if_splits)
  with Inr unat_less_pow [of 10 "ucast a"] show ?thesis
    by (simp add: conversion_def conv_int_def int_flags_0 signed_arg_def va_int_def va_long_def int_base_def
        ntoa_plain_0 int_text_signed [OF Inr])
qed

lemma conv_u:
  "conversion out b m CHR ''u'' 0 0 0 (VaInt w # va) p =
    Inr (va, emit out b m (nat_text 10 (unat (ucast w :: u32))) p)"
  using unat_less_pow [of 10 "ucast (ucast w :: u32)"]
  by (simp add: conversion_def conv_int_def int_flags_0 unsigned_arg_def va_int_def va_long_def int_base_def
      ntoa_plain_0)

lemma conv_x:
  "conversion out b m CHR ''x'' 0 0 0 (VaInt w # va) p =
    Inr (va, emit out b m (nat_text 16 (unat (ucast w :: u32))) p)"
  using unat_less_pow [of 16 "ucast (ucast w :: u32)"]
  by (simp add: conversion_def conv_int_def int_flags_0 unsigned_arg_def va_int_def va_long_def int_base_def
      ntoa_plain_0)

lemma conv_lx:
  "conversion out b m CHR ''x'' FLAGS_LONG 0 0 (VaInt w # va) p =
    Inr (va, emit out b m (nat_text 16 (unat w)) p)"
  using unat_less_pow [of 16 w]
  by (simp add: conversion_def conv_int_def int_flags_long unsigned_arg_def va_long_def int_base_def
      ntoa_plain_long)

lemma conv_s:
  assumes "CHR 0x00 \<notin> set s" "length s < 2 ^ 32"
  shows "conversion out b m CHR ''s'' 0 0 0 (VaStr a s # va) p = Inr (va, emit out b m s p)"
proof -
  have "str_text False 0 s = s"
    using assms(1) by (induction s) (auto simp: str_text_def)
  then have "str_field 0 0 0 s = s"
    by (simp add: str_field_def pad_text_def Let_def)
  then show ?thesis
    by (simp add: conversion_def conv_str_emit va_str_def)
qed

lemma conv_c:
  "conversion out b m CHR ''c'' 0 0 0 (VaInt w # va) p =
    Inr (va, emit out b m [char_of (unat (ucast w :: u8))] p)"
proof -
  have "(ucast (ucast w :: u32) :: u8) = ucast w"
    by (intro bit_word_eqI) (auto simp: bit_simps)
  then show ?thesis
    by (simp add: conversion_def conv_char_emit char_text_def pad_text_def va_int_def va_long_def Let_def)
qed

text \<open>The same in the text of a format.\<close>

lemma plain_specifiers [simp]:
  "plain CHR ''d''" "plain CHR ''u''" "plain CHR ''x''" "plain CHR ''s''" "plain CHR ''c''" "plain CHR ''%''"
  by (simp_all add: plain_def is_digit_def less_eq_char_def)

lemma format_text_d [format_text_simps]:
  "format_text (CHR ''%'' # CHR ''d'' # cs) (VaInt w # va) =
    (if sint (ucast w :: u32) = - (2 ^ 31) then Inl SignedOverflow
     else rbind (format_text cs va) (\<lambda>ts. Inr (int_text (sint (ucast w :: u32)) @ ts)))"
  by (simp add: format_text_percent directive_plain conv_d rbind_assoc emit_recorder)

lemma format_text_u [format_text_simps]:
  "format_text (CHR ''%'' # CHR ''u'' # cs) (VaInt w # va) =
    rbind (format_text cs va) (\<lambda>ts. Inr (nat_text 10 (unat (ucast w :: u32)) @ ts))"
  by (simp add: format_text_percent directive_plain conv_u rbind_assoc emit_recorder)

lemma format_text_x [format_text_simps]:
  "format_text (CHR ''%'' # CHR ''x'' # cs) (VaInt w # va) =
    rbind (format_text cs va) (\<lambda>ts. Inr (nat_text 16 (unat (ucast w :: u32)) @ ts))"
  by (simp add: format_text_percent directive_plain conv_x rbind_assoc emit_recorder)

lemma format_text_lx [format_text_simps]:
  "format_text (CHR ''%'' # CHR ''l'' # CHR ''x'' # cs) (VaInt w # va) =
    rbind (format_text cs va) (\<lambda>ts. Inr (nat_text 16 (unat w) @ ts))"
  by (simp add: format_text_percent directive_long conv_lx rbind_assoc emit_recorder)

lemma format_text_s [format_text_simps]:
  assumes "CHR 0x00 \<notin> set s" "length s < 2 ^ 32"
  shows "format_text (CHR ''%'' # CHR ''s'' # cs) (VaStr a s # va) =
    rbind (format_text cs va) (\<lambda>ts. Inr (s @ ts))"
  by (simp add: format_text_percent directive_plain conv_s [OF assms] rbind_assoc emit_recorder)

lemma format_text_c [format_text_simps]:
  "format_text (CHR ''%'' # CHR ''c'' # cs) (VaInt w # va) =
    rbind (format_text cs va) (\<lambda>ts. Inr (char_of (unat (ucast w :: u8)) # ts))"
  by (simp add: format_text_percent directive_plain conv_c rbind_assoc put_def recorder_def)

lemma format_text_escape [format_text_simps]:
  "format_text (CHR ''%'' # CHR ''%'' # cs) va = rbind (format_text cs va) (\<lambda>ts. Inr (CHR ''%'' # ts))"
  by (simp add: format_text_percent directive_plain conversion_def rbind_assoc put_def recorder_def)

text \<open>A \<open>%\<close> at the end of the format: the interpreter steps over the terminator.\<close>

lemma format_text_trailing: "format_text ''%'' va = Inl OutOfBounds"
  by (simp add: format_text_percent directive_def parse_width_def parse_precision_def parse_length_def
      conversion_def is_digit_def less_eq_char_def)

end
