(* ===== verification/Printf_Fixed.thy ===== *)
theory Printf_Fixed
  imports Printf_Spec
begin

text \<open>
  What \<open>%f\<close> prints: the loops of \<open>_ftoa\<close> as list functions, the text of a value
  from its whole part and its fraction, the precisions that leave the table of powers, and
  the independence of the conversions from the depth to which their recursion is unrolled.
\<close>

section \<open>The loops\<close>

lemma ftoa_limit_eq:
  "length buf \<le> PRINTF_FTOA_BUFFER_SIZE \<Longrightarrow> ftoa_limit prec buf =
    (let k = min (unat prec - 9) (PRINTF_FTOA_BUFFER_SIZE - length buf)
     in Inr (prec - of_nat k, buf @ replicate k CHR ''0''))"
proof (induction prec buf rule: ftoa_limit.induct)
  case (1 prec buf)
  show ?case
  proof (cases "length buf < PRINTF_FTOA_BUFFER_SIZE \<and> 9 < prec")
    case True
    then have "9 < unat prec" "prec \<noteq> 0"
      by (auto simp: word_less_nat_alt)
    moreover from this(2) have "unat (prec - 1) = unat prec - 1"
      by (rule unat_minus_one)
    ultimately have "min (unat prec - 9) (PRINTF_FTOA_BUFFER_SIZE - length buf) =
      Suc (min (unat (prec - 1) - 9) (PRINTF_FTOA_BUFFER_SIZE - Suc (length buf)))"
      using True by linarith
    then show ?thesis
      using 1 True by (subst ftoa_limit.simps) (simp add: Let_def algebra_simps)
  next
    case False
    then have "unat prec - 9 = 0 \<or> PRINTF_FTOA_BUFFER_SIZE - length buf = 0"
      by (auto simp: word_less_nat_alt)
    with False show ?thesis
      by (subst ftoa_limit.simps) auto
  qed
qed

text \<open>Digits, least first, as \<open>_ftoa\<close> writes them.\<close>

abbreviation digits :: "nat \<Rightarrow> string" where
  "digits n \<equiv> map (\<lambda>d. char_of (48 + d)) (num_digits 10 n)"

lemma nat_text_digits: "nat_text 10 n = rev (digits n)"
proof -
  have "map (digit_char 0) (num_digits 10 n) = digits n"
    using num_digits_less [of 10 _ n] by (simp add: digit_char_def)
  then show ?thesis
    by (simp add: nat_text_def digits_text_def)
qed

lemma ftoa_frac_eq:
  "length buf + length (num_digits 10 (unat frac)) \<le> PRINTF_FTOA_BUFFER_SIZE \<Longrightarrow>
    ftoa_frac frac count buf =
      Inr (count - of_nat (length (num_digits 10 (unat frac))), buf @ digits (unat frac))"
proof (induction frac count buf rule: ftoa_frac.induct)
  case (1 frac count buf)
  have digit: "unat (frac mod 10) = unat frac mod 10"
    and rest: "unat (frac div 10) = unat frac div 10"
    by (simp_all add: unat_mod_distrib unat_div_distrib)
  have small: "frac div 10 = 0 \<longleftrightarrow> unat frac < 10"
    unfolding unat_eq_0 [symmetric] rest by (simp add: div_eq_0_iff)
  show ?case
  proof (cases "unat frac < 10")
    case True
    then have "num_digits 10 (unat frac) = [unat frac]"
      by (subst num_digits.simps) simp
    with True 1(2) small show ?thesis
      by (subst ftoa_frac.simps) (simp add: Let_def digit)
  next
    case False
    then have nd: "num_digits 10 (unat frac) = (unat frac mod 10) # num_digits 10 (unat (frac div 10))"
      by (subst num_digits.simps) (simp add: rest)
    have "length buf < PRINTF_FTOA_BUFFER_SIZE"
      using 1(2) nd by simp
    with False small nd show ?thesis
      using 1(1) [OF _ refl _ refl] 1(2)
      by (subst ftoa_frac.simps) (simp add: Let_def digit algebra_simps)
  qed
qed

lemma ftoa_whole_eq:
  "0 \<le> whole \<Longrightarrow> length buf + length (num_digits 10 (nat whole)) \<le> PRINTF_FTOA_BUFFER_SIZE \<Longrightarrow>
    ftoa_whole whole buf = Inr (buf @ digits (nat whole))"
proof (induction whole buf rule: ftoa_whole.induct)
  case (1 whole buf)
  have digit: "nat (whole mod 10) = nat whole mod 10" and rest: "nat (whole div 10) = nat whole div 10"
    using 1(2) by (simp_all add: nat_mod_distrib nat_div_distrib)
  have small: "whole div 10 = 0 \<longleftrightarrow> nat whole < 10"
    using 1(2) by (auto simp: zdiv_eq_0_iff nat_less_iff)
  show ?case
  proof (cases "nat whole < 10")
    case True
    then have "num_digits 10 (nat whole) = [nat whole]"
      by (subst num_digits.simps) simp
    with True 1(3) small show ?thesis
      by (subst ftoa_whole.simps) (simp add: Let_def digit)
  next
    case False
    then have nd: "num_digits 10 (nat whole) = (nat whole mod 10) # num_digits 10 (nat (whole div 10))"
      by (subst num_digits.simps) (simp add: rest)
    have "length buf < PRINTF_FTOA_BUFFER_SIZE"
      using 1(3) nd by simp
    with False small nd show ?thesis
      using 1(1) [OF _ _ refl] 1(2,3)
      by (subst ftoa_whole.simps) (simp add: Let_def digit)
  qed
qed

section \<open>The text of a value\<close>

text \<open>
  A value by its whole part and its fraction, in units of the last of \<open>prec\<close> decimals.
\<close>

definition fixed_text :: "nat \<Rightarrow> nat \<Rightarrow> nat \<Rightarrow> string" where
  "fixed_text prec whole frac =
     (let ds = nat_text 10 frac
      in nat_text 10 whole @ ''.'' @ replicate (prec - length ds) CHR ''0'' @ ds)"

lemma length_nat_text: "n < 10 ^ k \<Longrightarrow> 0 < k \<Longrightarrow> length (nat_text 10 n) \<le> k"
  using length_num_digits [of 10 n k] by (simp add: nat_text_digits)

lemma ftoa_digits_text:
  assumes "0 < unat prec" "unat prec \<le> 9" "unat frac < 10 ^ unat prec" "0 \<le> whole" "nat whole < 10 ^ 10"
  shows "ftoa_digits value prec whole frac [] = Inr (rev (fixed_text (unat prec) (nat whole) (unat frac)))"
proof -
  let ?ds = "num_digits 10 (unat frac)"
  have ds: "length ?ds \<le> unat prec"
    using length_num_digits [of 10 "unat frac" "unat prec"] assms by simp
  have ws: "length (num_digits 10 (nat whole)) \<le> 10"
    using length_num_digits [of 10 "nat whole" 10] assms by simp
  have count: "unat (prec - of_nat (length ?ds)) = unat prec - length ?ds"
  proof -
    have "unat (of_nat (length ?ds) :: u32) = length ?ds"
      using ds assms(2) by (simp only: unat_of_nat take_bit_nat_eq_self_iff) simp
    then show ?thesis
      using ds by (subst unat_sub) (simp_all add: word_le_nat_alt)
  qed
  have "prec \<noteq> 0"
    using assms(1) by auto
  moreover have "ftoa_frac frac prec [] = Inr (prec - of_nat (length ?ds), digits (unat frac))"
    using ds assms(2) ftoa_frac_eq [of "[]" frac prec] by (simp add: PRINTF_FTOA_BUFFER_SIZE_def)
  moreover have "ftoa_zeros (prec - of_nat (length ?ds)) (digits (unat frac)) =
      Inr (digits (unat frac) @ replicate (unat prec - length ?ds) CHR ''0'')"
    using ds assms(2) by (simp add: ftoa_zeros_eq count PRINTF_FTOA_BUFFER_SIZE_def)
  ultimately show ?thesis
    using ds ws assms
    by (simp add: ftoa_digits_def ftoa_whole_eq fixed_text_def nat_text_digits PRINTF_FTOA_BUFFER_SIZE_def Let_def)
qed

lemma length_fixed_text:
  assumes "0 < prec" "prec \<le> 9" "frac < 10 ^ prec" "whole < 10 ^ 10"
  shows "length (fixed_text prec whole frac) \<le> 20"
  using assms length_nat_text [of frac prec] length_nat_text [of whole 10]
  by (simp add: fixed_text_def Let_def)

lemma ftoa_sign_eq:
  "ftoa_sign negative flags buf =
    Inr (if length buf < PRINTF_FTOA_BUFFER_SIZE then buf @ sign_text negative flags else buf)"
  by (simp add: ftoa_sign_def sign_text_def)

text \<open>An ordinary value: a number, and one \<open>%f\<close> does not hand to \<open>_etoa\<close>.\<close>

definition ordinary :: "double \<Rightarrow> bool" where
  "ordinary v \<longleftrightarrow> double_eq v v \<and> \<not> double_less v (double_neg DBL_MAX) \<and> \<not> double_less DBL_MAX v \<and>
     \<not> double_less PRINTF_MAX_FLOAT v \<and> \<not> double_less v (double_neg PRINTF_MAX_FLOAT)"

text \<open>
  The text of an ordinary value: sign, whole part, point and as many decimals as the
  precision says, in the field, whenever the rounding step stays below the scale.
\<close>

lemma ftoa_text:
  assumes "ordinary v" "has flags FLAGS_PRECISION" "0 < unat prec" "unat prec \<le> 9"
    and "has flags FLAGS_LEFT \<or> \<not> has flags FLAGS_ZEROPAD"
    and "negative = double_less v (double_of_int 0)"
    and "ftoa_round (if negative then double_sub (double_of_int 0) v else v) prec = Inr (whole, frac)"
    and "unat frac < 10 ^ unat prec" "0 \<le> whole" "nat whole < 10 ^ 10"
  shows "ftoa_with etoa' out b p m v prec width flags =
    Inr (emit out b m (field_text (unat width) flags
      (sign_text negative flags @ fixed_text (unat prec) (nat whole) (unat frac))) p)"
proof -
  let ?text = "fixed_text (unat prec) (nat whole) (unat frac)"
  have len: "length ?text \<le> 20"
    using length_fixed_text [of "unat prec" "unat frac" "nat whole"] assms by simp
  have lim: "ftoa_limit prec [] = Inr (prec, [])"
    using assms(4) by (simp add: ftoa_limit_eq)
  have sgn: "length (sign_text negative flags) \<le> 1"
    by (simp add: sign_text_def)
  have fin: "ftoa_finish negative width flags (rev ?text) =
      Inr (width, rev (sign_text negative flags @ ?text))"
    using assms(5) len sgn
    by (auto simp: ftoa_finish_def ftoa_zeropad_def ftoa_sign_eq PRINTF_FTOA_BUFFER_SIZE_def sign_text_def)
  have dig: "ftoa_digits w prec whole frac [] = Inr (rev ?text)" for w
    using assms by (intro ftoa_digits_text) auto
  have out: "out_rev out b p m (rev (sign_text negative flags @ ?text)) width flags =
      emit out b m (field_text (unat width) flags (sign_text negative flags @ ?text)) p"
    using len sgn by (subst out_rev_emit) (simp_all del: rev_append)
  show ?thesis
    unfolding ftoa_with_def Let_def assms(6) [symmetric]
    using assms(1,2) by (simp add: ordinary_def lim assms(7) dig fin out del: rev_append)
qed

section \<open>Precisions outside the table of powers\<close>

lemma max_float_eq: "PRINTF_MAX_FLOAT = Fin False 8388608000000000 (-23)"
  by (simp add: PRINTF_MAX_FLOAT_def double_eval)

lemma ordinary_to_int:
  assumes "ordinary (Fin False m e)"
  shows "\<exists>i. double_to_int (Fin False m e) = Inr i \<and> 0 \<le> i \<and> i \<le> 10 ^ 9"
proof -
  have scale: "up2 (- 23) = 1" "down2 (- 23) = 8388608"
    by (simp_all add: up2_def down2_def)
  have "\<not> double_less (Fin False 8388608000000000 (- 23)) (Fin False m e)"
    using assms by (simp only: ordinary_def max_float_eq) simp
  then have "\<not> int (8388608000000000 * down2 e) < int (m * up2 e * 8388608)"
    by (simp only: double_less.simps dnum_def scale if_False of_nat_mult mult_1_right not_False_eq_True)
  then have "\<not> 8388608000000000 * down2 e < m * up2 e * 8388608"
    by (simp only: of_nat_less_iff not_False_eq_True)
  then have le: "m * up2 e \<le> 10 ^ 9 * down2 e"
    by simp
  have "0 < down2 e"
    by (simp add: down2_def)
  then have "m * up2 e div down2 e \<le> 10 ^ 9"
    using div_le_mono [OF le, of "down2 e"] by simp
  then have "int (m * up2 e div down2 e) \<le> 10 ^ 9"
    by simp
  then show ?thesis
    by (simp add: double_to_int_def double_trunc_def)
qed

text \<open>
  The loop that limits the precision moves at most 32 zeros to the buffer: from 42 on, what
  is left of the precision is no index of \<open>pow10\<close>.
\<close>

lemma ftoa_wide_precision:
  assumes "ordinary (Fin False m e)" "has flags FLAGS_PRECISION" "42 \<le> unat prec"
  shows "ftoa_with etoa' out b p mx (Fin False m e) prec width flags = Inl OutOfBounds"
proof -
  have "unat (prec - 32) = unat prec - 32"
    using assms(3) by (subst unat_sub) (simp_all add: word_le_nat_alt)
  then have "pow10 (prec - 32) = Inl OutOfBounds"
    using assms(3) by (simp add: pow10_def)
  moreover have "ftoa_limit prec [] = Inr (prec - 32, replicate 32 CHR ''0'')"
    using assms(3) by (simp add: ftoa_limit_eq PRINTF_FTOA_BUFFER_SIZE_def)
  moreover obtain i where "double_to_int (Fin False m e) = Inr i"
    using ordinary_to_int [OF assms(1)] by blast
  ultimately show ?thesis
    using assms(1,2)
    by (simp add: ftoa_with_def ordinary_def not_negative ftoa_round_def Let_def del: double_less.simps double_eq.simps)
qed

section \<open>The depth of the recursion\<close>

lemma float_unfold:
  "ftoa = ftoa_with (etoa_depth 3)" "etoa = etoa_with (ftoa_depth 3)"
  by (simp_all add: ftoa_def etoa_def numeral_eq_Suc)

text \<open>Two results of which the first may only lack a value because of its depth.\<close>

definition upto_depth :: "'a res \<Rightarrow> 'a res \<Rightarrow> bool" where
  "upto_depth r r' \<longleftrightarrow> r = Inl NoReturn \<or> r = r'"

lemma upto_depth_refl [simp]: "upto_depth r r"
  by (simp add: upto_depth_def)

lemma upto_depth_bind:
  "upto_depth r r' \<Longrightarrow> (\<And>x. upto_depth (f x) (g x)) \<Longrightarrow> upto_depth (rbind r f) (rbind r' g)"
  by (cases r; cases r') (auto simp: upto_depth_def)

definition upto_depth_conv :: "'s float_conv \<Rightarrow> 's float_conv \<Rightarrow> bool" where
  "upto_depth_conv F G \<longleftrightarrow> (\<forall>out b p m v prec w flags.
     upto_depth (F out b p m v prec w flags) (G out b p m v prec w flags))"

lemma upto_depth_convD:
  "upto_depth_conv F G \<Longrightarrow> upto_depth (F out b p m v prec w flags) (G out b p m v prec w flags)"
  unfolding upto_depth_conv_def by blast

lemma upto_depth_ftoa:
  assumes "upto_depth_conv F G"
  shows "upto_depth_conv (ftoa_with F) (ftoa_with G)"
  unfolding upto_depth_conv_def ftoa_with_def Let_def
  by (auto intro: upto_depth_convD [OF assms])

lemma upto_depth_etoa:
  assumes "upto_depth_conv F G"
  shows "upto_depth_conv (etoa_with F) (etoa_with G)"
  unfolding upto_depth_conv_def etoa_with_def Let_def
  by (auto split: prod.split intro!: upto_depth_bind upto_depth_convD [OF assms])

lemma upto_depth_add:
  "upto_depth_conv (ftoa_depth n :: 's float_conv) (ftoa_depth (n + k)) \<and>
   upto_depth_conv (etoa_depth n :: 's float_conv) (etoa_depth (n + k))"
proof (induction n)
  case 0
  then show ?case
    by (simp add: upto_depth_conv_def upto_depth_def)
next
  case (Suc n)
  then show ?case
    by (auto intro: upto_depth_ftoa upto_depth_etoa)
qed

lemma float_depth:
  assumes "4 \<le> n"
  shows "ftoa out b p m v prec w flags \<noteq> Inl NoReturn \<Longrightarrow>
      ftoa_depth n out b p m v prec w flags = ftoa out b p m v prec w flags"
    and "etoa out b p m v prec w flags \<noteq> Inl NoReturn \<Longrightarrow>
      etoa_depth n out b p m v prec w flags = etoa out b p m v prec w flags"
  using upto_depth_add [of 4 "n - 4"] assms
  unfolding ftoa_def etoa_def upto_depth_conv_def upto_depth_def le_add_diff_inverse [OF assms]
  by metis+


section \<open>The specifier \<open>%.*f\<close>\<close>

text \<open>The precision as an argument; the flag that says it was given is the only one.\<close>

lemma directive_star_f:
  assumes "ucast w = prec" "0 <s prec"
  shows "directive out b m (CHR ''.'' # CHR ''*'' # CHR ''f'' # cs) (VaInt w # VaDouble v # va) p =
    rbind (ftoa out b p m v prec 0 FLAGS_PRECISION) (\<lambda>p. Inr ((cs, va), p))"
proof -
  have parse: "parse_flags 0 (CHR ''.'' # s) = (0, CHR ''.'' # s)"
    "parse_width 0 (CHR ''.'' # s) va' = Inr (0, 0, CHR ''.'' # s, va')"
    "parse_length flags (CHR ''f'' # s) = Inr (flags, CHR ''f'' # s)" for va' flags s
    by (simp_all add: parse_width_def parse_length_def is_digit_def)
  have prec: "parse_precision 0 (CHR ''.'' # CHR ''*'' # s) (VaInt w # va') =
      Inr (FLAGS_PRECISION, prec, s, va')" for va' s
    using assms by (simp add: parse_precision_def va_int_def va_long_def is_digit_def)
  have conv: "conversion out b m CHR ''f'' flags 0 prec (VaDouble v # va) p =
      rbind (ftoa out b p m v prec 0 flags) (\<lambda>p. Inr (va, p))" for flags
    by (simp add: conversion_def conv_float_def va_double_def)
  show ?thesis
    by (simp add: directive_def parse prec conv rbind_assoc)
qed

lemma format_text_star_f:
  assumes "ucast w = prec" "0 <s prec"
    and "ftoa recorder 1 (0, []) 0 v prec 0 FLAGS_PRECISION = rbind r (\<lambda>cs. Inr (emit recorder 1 0 cs (0, [])))"
  shows "format_text ''%.*f'' [VaInt w, VaDouble v] = r"
  using directive_star_f [OF assms(1,2), of recorder 1 0 "[]" v "[]" "(0, [])"] assms(3)
  by (cases r) (simp_all add: format_text_percent format_text_Nil emit_recorder)

end
