(* ===== verification/Double_Bounds.thy ===== *)
theory Double_Bounds
  imports Double Complex_Main
begin

text \<open>
  What rounding does to a value, over the reals: the binary exponent is the right one, a
  canonical value is left as it is, integers up to \<open>2 ^ 52\<close> are exact, and a rounded value
  is at most twice the exact one, plus one.
\<close>

definition dval :: "nat \<Rightarrow> int \<Rightarrow> real" where
  "dval m e = real m * 2 powr e"

lemma down2_pos [simp]: "0 < down2 e" "down2 e \<noteq> 0" "0 < up2 e" "up2 e \<noteq> 0"
  by (simp_all add: down2_def up2_def)

lemma up2_real: "real (up2 e) = real (down2 e) * 2 powr e"
proof (cases "0 \<le> e")
  case True
  then show ?thesis
    by (simp add: up2_def down2_def powr_int)
next
  case False
  then show ?thesis
    by (simp add: up2_def down2_def powr_int)
qed

lemma dval_frac: "dval m e = real (m * up2 e) / real (down2 e)"
  by (simp add: dval_def up2_real)

lemma up2_le_iff:
  assumes "0 < d"
  shows "d * up2 k \<le> n * down2 k \<longleftrightarrow> 2 powr k \<le> real n / real d"
proof -
  have "d * up2 k \<le> n * down2 k \<longleftrightarrow> real d * real (up2 k) \<le> real n * real (down2 k)"
    by (simp flip: of_nat_mult)
  also have "\<dots> \<longleftrightarrow> real (down2 k) * (real d * 2 powr k) \<le> real (down2 k) * real n"
    by (simp add: up2_real ac_simps)
  also have "\<dots> \<longleftrightarrow> real d * 2 powr k \<le> real n"
    by (subst mult_le_cancel_left_pos) simp_all
  finally show ?thesis
    using assms by (simp add: field_simps)
qed

section \<open>The binary exponent\<close>

lemma bit_length_bounds:
  "0 < n \<Longrightarrow> 2 ^ bit_length n \<le> 2 * n \<and> n < 2 ^ bit_length n"
proof (induction n rule: bit_length.induct)
  case (1 n)
  show ?case
  proof (cases "n div 2 = 0")
    case True
    with 1(2) have "n = 1"
      by simp
    then show ?thesis
      by (simp add: bit_length.simps)
  next
    case False
    then have "2 ^ bit_length (n div 2) \<le> 2 * (n div 2) \<and> n div 2 < 2 ^ bit_length (n div 2)"
      using 1 by simp
    then show ?thesis
      using 1(2) by (subst (1 2) bit_length.simps) (auto simp: div_less_iff_less_mult; linarith)
  qed
qed

lemma floor_log2_bounds:
  assumes "0 < n" "0 < d"
  shows "2 powr floor_log2 n d \<le> real n / real d" "real n / real d < 2 powr (real_of_int (floor_log2 n d) + 1)"
proof -
  define k where "k = int (bit_length n) - int (bit_length d)"
  have bounds: "2 ^ bit_length i \<le> 2 * real i" "real i < 2 ^ bit_length i" if "0 < i" for i
  proof -
    have "real (2 ^ bit_length i) \<le> real (2 * i)" "real i < real (2 ^ bit_length i)"
      using bit_length_bounds [OF that] by (simp_all only: of_nat_le_iff of_nat_less_iff)
    then show "2 ^ bit_length i \<le> 2 * real i" "real i < 2 ^ bit_length i"
      by simp_all
  qed
  note n = bounds [OF assms(1)] and d = bounds [OF assms(2)]
  have k: "2 powr k = 2 ^ bit_length n / 2 ^ bit_length d"
    by (simp add: k_def powr_diff powr_realpow)
  have up: "real n / real d < 2 powr (real_of_int k + 1)"
  proof -
    have "real n * 2 ^ bit_length d < 2 ^ bit_length n * (2 * real d)"
      using n d by (intro mult_less_le_imp_less) simp_all
    then show ?thesis
      using assms by (simp add: powr_add k field_simps)
  qed
  have low: "2 powr (k - 1) \<le> real n / real d"
  proof -
    have "2 ^ bit_length n * real d \<le> (2 * real n) * 2 ^ bit_length d"
      using n d by (intro mult_mono) simp_all
    then show ?thesis
      using assms by (simp add: powr_diff k field_simps)
  qed
  have fl: "floor_log2 n d = (if 2 powr k \<le> real n / real d then k else k - 1)"
    by (simp add: floor_log2_def k_def [symmetric] up2_le_iff [OF assms(2)] Let_def)
  show "2 powr floor_log2 n d \<le> real n / real d" "real n / real d < 2 powr (real_of_int (floor_log2 n d) + 1)"
    using fl low up by (auto split: if_splits)
qed

lemma floor_log2_unique:
  assumes "0 < n" "0 < d" "2 powr k \<le> real n / real d" "real n / real d < 2 powr (real_of_int k + 1)"
  shows "floor_log2 n d = k"
proof -
  have "2 powr real_of_int k < 2 powr (real_of_int (floor_log2 n d) + 1)"
    by (rule le_less_trans [OF assms(3) floor_log2_bounds(2) [OF assms(1,2)]])
  moreover have "2 powr real_of_int (floor_log2 n d) < 2 powr (real_of_int k + 1)"
    by (rule le_less_trans [OF floor_log2_bounds(1) [OF assms(1,2)] assms(4)])
  ultimately have "real_of_int k < real_of_int (floor_log2 n d) + 1" "real_of_int (floor_log2 n d) < real_of_int k + 1"
    by simp_all
  then show ?thesis
    by linarith
qed

lemma floor_log2_le:
  assumes "0 < n" "0 < d" "real n / real d < 2 powr (real_of_int j + 1)"
  shows "floor_log2 n d \<le> j"
proof -
  have "2 powr real_of_int (floor_log2 n d) < 2 powr (real_of_int j + 1)"
    by (rule le_less_trans [OF floor_log2_bounds(1) [OF assms(1,2)] assms(3)])
  then have "real_of_int (floor_log2 n d) < real_of_int j + 1"
    by simp
  then show ?thesis
    by linarith
qed


section \<open>Rounding\<close>

text \<open>The exponent \<open>double_round\<close> works with, and its significand.\<close>

lemma round_even_le: "0 < d \<Longrightarrow> real (round_even n d) \<le> real n / real d + 1"
proof -
  assume d: "0 < d"
  have "real (n div d) \<le> real n / real d"
    by (rule of_nat_div_le_of_nat)
  then show ?thesis
    by (auto simp: round_even_def Let_def)
qed

lemma round_even_exact: "0 < d \<Longrightarrow> round_even (q * d) d = q"
  by (simp add: round_even_def Let_def)

lemma double_round_le:
  assumes "0 < d" "real n / real d < 2 powr (real_of_int j + 1)" "j \<le> 1000"
  shows "\<exists>q e. double_round s n d = Fin s q e \<and> dval q e \<le> 2 * (real n / real d) + 1"
proof (cases "n = 0")
  case True
  then show ?thesis
    by (simp add: double_round_def dval_def)
next
  case False
  define x where "x = real n / real d"
  define e where "e = max (floor_log2 n d - 52) (-1074)"
  define q where "q = round_even (n * down2 e) (d * up2 e)"
  have fl: "floor_log2 n d \<le> j"
    using False assms by (intro floor_log2_le) simp_all
  have "2 powr e \<le> x + 1"
  proof (cases "e = -1074")
    case True
    have "2 powr e \<le> (2 :: real) powr 0"
      unfolding True by (subst powr_le_cancel_iff) simp_all
    moreover have "0 \<le> x"
      by (simp add: x_def)
    ultimately show ?thesis
      by simp
  next
    case False
    then have "e \<le> floor_log2 n d"
      by (simp add: e_def)
    then have "2 powr e \<le> (2 :: real) powr floor_log2 n d"
      by simp
    also have "\<dots> \<le> x"
      using floor_log2_bounds(1) [of n d] \<open>n \<noteq> 0\<close> assms(1) by (simp add: x_def)
    finally show ?thesis
      by simp
  qed
  moreover have "real q * 2 powr e \<le> x + 2 powr e"
  proof -
    have "real q \<le> real (n * down2 e) / real (d * up2 e) + 1"
      unfolding q_def using assms(1) by (intro round_even_le) simp
    also have "real (n * down2 e) / real (d * up2 e) = x / 2 powr e"
      by (simp add: x_def up2_real)
    finally show ?thesis
      by (simp add: field_simps)
  qed
  ultimately have le: "dval q e \<le> 2 * x + 1"
    by (simp add: dval_def)
  have carry: "dval (2 ^ 52) (e + 1) = dval (2 ^ 53) e"
    by (simp add: dval_def powr_add)
  have "e \<le> 971" "e + 1 \<le> 971"
    using fl assms(3) by (simp_all add: e_def)
  then show ?thesis
    using False le carry by (auto simp: double_round_def Let_def e_def [symmetric] q_def [symmetric] x_def)
qed

text \<open>A canonical value is not changed by rounding.\<close>

lemma double_round_exact:
  assumes "double_ok (Fin t m e)"
  shows "double_round s (m * up2 e) (down2 e) = Fin s m (if m = 0 then -1074 else e)"
proof (cases "m = 0")
  case False
  have m: "m < 2 ^ 53" "-1074 \<le> e" "e \<le> 971" "2 ^ 52 \<le> m \<or> e = -1074"
    using assms by (simp_all add: double_ok_def)
  have val: "real (m * up2 e) / real (down2 e) = real m * 2 powr e"
    by (simp add: up2_real)
  have "real m < 2 ^ 53"
    using m(1) by (metis of_nat_less_iff of_nat_numeral of_nat_power)
  also have "(2 :: real) ^ 53 = 2 powr 53"
    by (simp flip: powr_numeral)
  finally have hi: "real m * 2 powr e < 2 powr (real_of_int (e + 52) + 1)"
    by (simp add: powr_add [symmetric] mult_less_cancel_right_disj algebra_simps powr_add)
  have "max (floor_log2 (m * up2 e) (down2 e) - 52) (-1074) = e"
  proof (cases "e = -1074")
    case True
    have "floor_log2 (m * up2 e) (down2 e) \<le> e + 52"
      using False val hi by (intro floor_log2_le) simp_all
    with True show ?thesis
      by simp
  next
    case False
    then have "2 ^ 52 \<le> real m"
      using m(4) by (metis of_nat_le_iff of_nat_numeral of_nat_power)
    then have "2 powr real_of_int (e + 52) \<le> real m * 2 powr e"
      by (simp add: powr_add flip: powr_numeral)
    then have "floor_log2 (m * up2 e) (down2 e) = e + 52"
      using \<open>m \<noteq> 0\<close> val hi by (intro floor_log2_unique) simp_all
    then show ?thesis
      using m(2) by simp
  qed
  moreover have "round_even (m * up2 e * down2 e) (down2 e * up2 e) = m"
    using round_even_exact [of "down2 e * up2 e" m] by (simp add: ac_simps)
  ultimately show ?thesis
    using False m by (simp add: double_round_def Let_def)
qed (simp add: double_round_def)

section \<open>Operations\<close>

lemma dval_div: "real (m * up2 e div down2 e) \<le> dval m e"
  unfolding dval_frac by (rule of_nat_div_le_of_nat)

text \<open>Small integers are exact.\<close>

lemma double_of_int_exact:
  assumes "n < 2 ^ 52"
  shows "\<exists>m e. double_of_int (int n) = Fin False m e \<and> m * up2 e = n * down2 e"
proof (cases "n = 0")
  case False
  define fl where "fl = floor_log2 n 1"
  have lo: "2 powr real_of_int fl \<le> real n" and hi: "real n < 2 powr (real_of_int fl + 1)"
    using floor_log2_bounds [of n 1] False by (simp_all add: fl_def)
  have "fl \<le> 51"
  proof -
    have "real n < real (2 ^ 52)"
      using assms by (simp only: of_nat_less_iff)
    also have "real (2 ^ 52) = 2 powr (real_of_int 51 + 1)"
      by (simp flip: powr_numeral)
    finally show ?thesis
      unfolding fl_def using False by (intro floor_log2_le) simp_all
  qed
  moreover have "0 \<le> fl"
  proof -
    have "(2 :: real) powr 0 < 2 powr (real_of_int fl + 1)"
      using hi False by simp
    then show ?thesis
      by (subst (asm) powr_less_cancel_iff) simp_all
  qed
  moreover define k where "k = nat (52 - fl)"
  ultimately have k: "fl = 52 - int k" "0 < k" "k \<le> 52"
    by simp_all
  have "double_ok (Fin False (n * 2 ^ k) (fl - 52))"
  proof -
    have pow: "(2 :: real) powr real_of_int fl * 2 ^ k = 2 ^ 52"
      by (simp add: k(1) powr_diff powr_realpow flip: powr_numeral)
    have "(2 :: real) ^ 52 \<le> real n * 2 ^ k"
      unfolding pow [symmetric] using lo by (intro mult_right_mono) simp_all
    moreover have "real n * 2 ^ k < (2 powr real_of_int fl * 2 ^ k) * 2"
      using hi by (simp add: powr_add)
    ultimately have "real (2 ^ 52) \<le> real (n * 2 ^ k)" "real (n * 2 ^ k) < real (2 ^ 53)"
      unfolding pow by simp_all
    then have "2 ^ 52 \<le> n * 2 ^ k" "n * 2 ^ k < 2 ^ 53"
      by (simp_all only: of_nat_le_iff of_nat_less_iff)
    then show ?thesis
      using k by (simp add: double_ok_def)
  qed
  then have "double_round False (n * 2 ^ k * up2 (fl - 52)) (down2 (fl - 52)) = Fin False (n * 2 ^ k) (fl - 52)"
    using False double_round_exact [of False "n * 2 ^ k" "fl - 52" False] by simp
  moreover have "up2 (fl - 52) = 1" "down2 (fl - 52) = 2 ^ k"
    using k by (simp_all add: up2_def down2_def)
  moreover have "double_of_int (int n) = double_round False (n * 2 ^ k) (1 * 2 ^ k)"
    using False by (subst double_round_scale) (simp_all add: double_of_int_def double_frac_def)
  ultimately show ?thesis
    by simp
qed (auto simp: double_of_int_def double_frac_def)

text \<open>A value that is not negative: its sign is set for a zero only.\<close>

definition nonneg :: "double \<Rightarrow> real \<Rightarrow> bool" where
  "nonneg x b \<longleftrightarrow> (\<exists>s m e. x = Fin s m e \<and> dval m e \<le> b \<and> (s \<longrightarrow> m = 0))"

lemma nonneg_sub_whole:
  assumes "s \<longrightarrow> m = 0" "w = m * up2 e div down2 e" "w < 2 ^ 52"
  shows "nonneg (double_sub (Fin s m e) (double_of_int (int w))) 3"
proof -
  obtain q f where q: "double_of_int (int w) = Fin False q f" "q * up2 f = w * down2 f"
    using double_of_int_exact [OF assms(3)] by blast
  define r where "r = down2 f * (m * up2 e mod down2 e)"
  have "m * up2 e = w * down2 e + m * up2 e mod down2 e"
    by (simp add: assms(2))
  then have "int (m * up2 e) = int w * int (down2 e) + int (m * up2 e mod down2 e)"
    by (metis of_nat_add of_nat_mult)
  moreover have "dnum s m e = int (m * up2 e)"
    using assms(1) by (simp add: dnum_def)
  moreover have "dnum True q f = - (int w * int (down2 f))"
    by (simp only: dnum_def q(2) if_True of_nat_mult)
  ultimately have num: "dnum s m e * int (down2 f) + dnum True q f * int (down2 e) = int r"
    by (simp add: r_def algebra_simps)
  have eq: "double_sub (Fin s m e) (double_of_int (int w)) = double_frac s (int r) (down2 e * down2 f)"
    unfolding q(1) double_sub_def using num by simp
  show ?thesis
  proof (cases "r = 0")
    case True
    then show ?thesis
      unfolding eq by (auto simp: nonneg_def double_frac_def dval_def)
  next
    case False
    have "r < down2 e * down2 f"
      by (simp add: r_def mult.commute)
    then have "real r < real (down2 e * down2 f)"
      by (simp only: of_nat_less_iff)
    then have lt: "real r / real (down2 e * down2 f) < 1"
      by (subst divide_less_eq_1_pos) (simp_all del: of_nat_mult)
    moreover have "(1 :: real) < 2 powr (real_of_int 0 + 1)"
      by simp
    ultimately have "real r / real (down2 e * down2 f) < 2 powr (real_of_int 0 + 1)"
      by (rule less_trans)
    then obtain q' e' where "double_round False r (down2 e * down2 f) = Fin False q' e'"
      "dval q' e' \<le> 2 * (real r / real (down2 e * down2 f)) + 1"
      using double_round_le [of "down2 e * down2 f" r 0 False] by (auto simp del: of_nat_mult)
    moreover from this(2) lt have "dval q' e' \<le> 3"
      by linarith
    ultimately show ?thesis
      unfolding eq using False by (auto simp: nonneg_def double_frac_def)
  qed
qed

lemma nonneg_mul:
  assumes "nonneg x b" "nonneg y c" "b * c < 2 powr (real_of_int j + 1)" "j \<le> 1000" "0 \<le> b" "0 \<le> c"
  shows "nonneg (double_mul x y) (2 * (b * c) + 1)"
proof -
  obtain s m e t n f where x: "x = Fin s m e" "dval m e \<le> b" "s \<longrightarrow> m = 0"
    and y: "y = Fin t n f" "dval n f \<le> c" "t \<longrightarrow> n = 0"
    using assms(1,2) by (auto simp: nonneg_def)
  let ?n = "m * n * up2 e * up2 f" and ?d = "down2 e * down2 f"
  have val: "real ?n / real ?d = dval m e * dval n f"
    by (simp add: dval_frac)
  have le: "dval m e * dval n f \<le> b * c"
    using x(2) y(2) assms(5) by (intro mult_mono) (simp_all add: dval_def)
  then have "real ?n / real ?d < 2 powr (real_of_int j + 1)"
    unfolding val using assms(3) by linarith
  then obtain q g where r: "double_round (s \<noteq> t) ?n ?d = Fin (s \<noteq> t) q g"
    "dval q g \<le> 2 * (dval m e * dval n f) + 1"
    using double_round_le [of ?d ?n j "s \<noteq> t"] assms(4) val by auto
  show ?thesis
  proof (cases "s \<noteq> t")
    case True
    then have "m = 0 \<or> n = 0"
      using x(3) y(3) by blast
    then have "?n = 0"
      by auto
    then show ?thesis
      using assms(5,6) by (auto simp: nonneg_def x(1) y(1) double_round_def dval_def)
  next
    case False
    then have "double_mul x y = Fin False q g"
      using r(1) by (simp add: x(1) y(1))
    then show ?thesis
      using r(2) le by (auto simp: nonneg_def intro!: exI [of _ False])
  qed
qed

lemma nonneg_to_ulong:
  assumes "nonneg x b" "b < 2 ^ 64"
  shows "\<exists>w. double_to_ulong x = Inr w \<and> real (unat w) \<le> max b 0"
proof -
  obtain s m e where x: "x = Fin s m e" "dval m e \<le> b" "s \<longrightarrow> m = 0"
    using assms(1) by (auto simp: nonneg_def)
  define i where "i = m * up2 e div down2 e"
  have le: "real i \<le> b"
    using x(2) dval_div [of m e] by (simp add: i_def)
  then have "real i < real (2 ^ 64)"
    using assms(2) by simp
  then have lt: "i < 2 ^ 64"
    by (simp only: of_nat_less_iff)
  have "double_trunc x = Inr (int i)"
    using x(3) by (auto simp: double_trunc_def x(1) i_def Let_def)
  then have "double_to_ulong x = Inr (of_nat i)"
    using lt by (simp add: double_to_ulong_def)
  moreover have "real (unat (of_nat i :: u64)) \<le> max b 0"
    unfolding unat_of_nat_64 [OF lt] using le by simp
  ultimately show ?thesis
    by blast
qed

end
