(* ===== verification/Printf_Total.thy ===== *)
theory Printf_Total
  imports Printf_Fixed Double_Bounds
begin

text \<open>
  \<open>%f\<close> prints every number up to a thousand millions: no conversion between floating-point
  and integer values leaves its range, and the table of powers is indexed inside, for every
  precision up to 41.
\<close>

section \<open>Every ordinary value is printed\<close>

text \<open>The absolute value of an ordinary one is at most a thousand millions.\<close>

definition at_most_max :: "nat \<Rightarrow> int \<Rightarrow> bool" where
  "at_most_max m e \<longleftrightarrow> m * up2 e \<le> 10 ^ 9 * down2 e"

lemma ordinary_at_most:
  assumes "ordinary v"
  obtains s m e where "v = Fin s m e" "at_most_max m e"
proof -
  have not_inf: "v \<noteq> Inf s" for s
    using assms by (cases s) (auto simp: ordinary_def DBL_MAX_def)
  moreover have "v \<noteq> NaN"
    using assms by (auto simp: ordinary_def)
  ultimately obtain s m e where v: "v = Fin s m e"
    by (cases v) auto
  have scale: "up2 (- 23) = 1" "down2 (- 23) = 8388608"
    by (simp_all add: up2_def down2_def)
  have "\<not> double_less (Fin False 8388608000000000 (- 23)) v" "\<not> double_less v (Fin True 8388608000000000 (- 23))"
    using assms by (auto simp only: ordinary_def max_float_eq double_neg.simps not_False_eq_True)
  then have "\<not> int (8388608000000000 * down2 e) < int (m * up2 e * 8388608)"
    by (cases s) (simp_all only: v double_less.simps dnum_def scale if_False if_True of_nat_mult mult_1_right
        not_False_eq_True mult_minus_left neg_less_iff_less)
  then have "m * up2 e \<le> 10 ^ 9 * down2 e"
    by (simp only: of_nat_less_iff not_less) simp
  then show ?thesis
    using that v by (simp add: at_most_max_def)
qed

lemma ftoa_round_total:
  assumes "s \<longrightarrow> m = 0" "at_most_max m e" "unat prec \<le> 9"
  shows "\<exists>whole fr. ftoa_round (Fin s m e) prec = Inr (whole, fr)"
proof -
  define w where "w = m * up2 e div down2 e"
  have "w \<le> 10 ^ 9"
    using assms(2) div_le_mono [of "m * up2 e" "10 ^ 9 * down2 e" "down2 e"] by (simp add: w_def at_most_max_def)
  moreover have "double_trunc (Fin s m e) = Inr (int w)"
    using assms(1) by (auto simp: double_trunc_def w_def Let_def)
  ultimately have whole: "double_to_int (Fin s m e) = Inr (int w)" and small: "w < 2 ^ 52"
    by (simp_all add: double_to_int_def)
  have p10: "(10 :: nat) ^ unat prec \<le> 10 ^ 9"
    using assms(3) by (intro power_increasing) simp_all
  then obtain q f where q: "double_of_int (int (10 ^ unat prec)) = Fin False q f"
    "q * up2 f = 10 ^ unat prec * down2 f"
    using double_of_int_exact [of "10 ^ unat prec"] by auto
  have "dval q f = real (10 ^ unat prec)"
    unfolding dval_frac q(2) of_nat_mult by simp
  moreover have "real (10 ^ unat prec) \<le> real (10 ^ 9)"
    using p10 by (simp only: of_nat_le_iff)
  ultimately have "dval q f \<le> 10 ^ 9"
    by simp
  then have "nonneg (double_of_int (10 ^ unat prec)) (10 ^ 9)"
    using q(1) by (auto simp: nonneg_def)
  moreover have "(3 * 10 ^ 9 :: real) < 2 powr (real_of_int 31 + 1)"
    by (simp flip: powr_numeral)
  ultimately have "nonneg (double_mul (double_sub (Fin s m e) (double_of_int (int w)))
      (double_of_int (10 ^ unat prec))) (2 * (3 * 10 ^ 9) + 1)"
    using nonneg_mul [OF nonneg_sub_whole [OF assms(1) w_def small], of _ "10 ^ 9" 31] by simp
  from nonneg_to_ulong [OF this] obtain u where
    "double_to_ulong (double_mul (double_sub (Fin s m e) (double_of_int (int w)))
      (double_of_int (10 ^ unat prec))) = Inr u"
    by auto
  moreover have "pow10 prec = Inr (double_of_int (10 ^ unat prec))"
    using assms(3) by (simp add: pow10_def)
  ultimately show ?thesis
    by (auto simp: ftoa_round_def whole Let_def)
qed

lemma double_frac_nat: "0 < n \<Longrightarrow> double_frac z (int n) d = double_round False n d"
  by (simp add: double_frac_def)

text \<open>The sign is taken off without a change of the value.\<close>

lemma double_negate:
  assumes "double_ok (Fin True m e)" "m \<noteq> 0"
  shows "double_sub (double_of_int 0) (Fin True m e) = Fin False m e"
proof -
  have zero: "double_of_int 0 = Fin False 0 (-1074)"
    by (simp add: double_of_int_def double_frac_def)
  have "double_sub (double_of_int 0) (Fin True m e) =
      double_frac False (int (m * up2 e * 2 ^ 1074)) (down2 e * 2 ^ 1074)"
    by (simp add: zero double_sub_def dnum_def down2_def [of "- 1074"] mult.commute)
  also have "\<dots> = double_round False (m * up2 e * 2 ^ 1074) (down2 e * 2 ^ 1074)"
    using assms(2) by (intro double_frac_nat) simp
  also have "\<dots> = double_round False (m * up2 e) (down2 e)"
    by (rule double_round_scale) simp
  finally show ?thesis
    using double_round_exact [OF assms(1), of False] assms(2) by simp
qed

lemma double_negative_iff: "double_less (Fin s m e) (double_of_int 0) \<longleftrightarrow> s \<and> m \<noteq> 0"
proof -
  have zero: "double_of_int 0 = Fin False 0 (-1074)"
    by (simp add: double_of_int_def double_frac_def)
  have "0 < int (down2 (- 1074))"
    by simp
  then have "dnum s m e * int (down2 (- 1074)) < 0 \<longleftrightarrow> dnum s m e < 0"
    by (rule mult_less_cancel_right_pos [of _ _ 0, simplified])
  also have "\<dots> \<longleftrightarrow> s \<and> m \<noteq> 0"
    by (simp add: dnum_def zero_less_mult_iff mult_less_0_iff)
  finally show ?thesis
    by (simp only: zero double_less.simps) (simp add: dnum_def)
qed

text \<open>What is left of the precision after the loop that limits it.\<close>

lemma limited_precision:
  assumes "unat prec \<le> 41"
  shows "\<exists>prec' buf. ftoa_limit prec [] = Inr (prec', buf) \<and> unat prec' \<le> 9 \<and> fits buf"
proof -
  define k where "k = min (unat prec - 9) PRINTF_FTOA_BUFFER_SIZE"
  have k: "k \<le> unat prec" "k \<le> 32" "unat prec - k \<le> 9"
    using assms by (simp_all add: k_def PRINTF_FTOA_BUFFER_SIZE_def)
  then have "unat (of_nat k :: u32) = k"
    by (simp only: unat_of_nat take_bit_nat_eq_self_iff) simp
  then have "unat (prec - of_nat k) = unat prec - k"
    using k(1) by (subst unat_sub) (simp_all add: word_le_nat_alt)
  moreover have "ftoa_limit prec [] = Inr (prec - of_nat k, replicate k CHR ''0'')"
    by (simp add: ftoa_limit_eq k_def Let_def)
  ultimately show ?thesis
    using k by (simp add: fits_def PRINTF_FTOA_BUFFER_SIZE_def)
qed

lemma ftoa_ordinary_total:
  assumes "ordinary v" "double_ok v" "has flags FLAGS_PRECISION \<Longrightarrow> unat prec \<le> 41"
  shows "\<exists>cs. ftoa_with etoa' out b p mx v prec width flags = Inr (emit out b mx cs p)"
proof -
  obtain s m e where v: "v = Fin s m e" and most: "at_most_max m e"
    using ordinary_at_most [OF assms(1)] .
  define negative where "negative = double_less v (double_of_int 0)"
  define absv where "absv = (if negative then double_sub (double_of_int 0) v else v)"
  define pr where "pr = (if \<not> has flags FLAGS_PRECISION then PRINTF_DEFAULT_FLOAT_PRECISION else prec)"
  obtain s' where absv: "absv = Fin s' m e" "s' \<longrightarrow> m = 0"
  proof (cases negative)
    case True
    then have "s" "m \<noteq> 0"
      by (simp_all add: negative_def v double_negative_iff)
    then show ?thesis
      using that [of False] True double_negate [of m e] assms(2) by (simp add: absv_def v)
  next
    case False
    then have "s \<longrightarrow> m = 0" "absv = v"
      by (auto simp: negative_def absv_def v double_negative_iff)
    then show ?thesis
      using that [of s] v by simp
  qed
  have "unat pr \<le> 41"
    using assms(3) by (simp add: pr_def PRINTF_DEFAULT_FLOAT_PRECISION_def)
  then obtain pr' buf0 where lim: "ftoa_limit pr [] = Inr (pr', buf0)" "unat pr' \<le> 9" "fits buf0"
    using limited_precision by blast
  obtain whole fr where rnd: "ftoa_round absv pr' = Inr (whole, fr)"
    using ftoa_round_total [OF absv(2) most lim(2)] absv(1) by auto
  obtain buf1 where dig: "ftoa_digits absv pr' whole fr buf0 = Inr buf1" "fits buf1"
    using ftoa_digits_total [OF lim(3)] by blast
  obtain width' buf2 where fin: "ftoa_finish negative width flags buf1 = Inr (width', buf2)" "fits buf2"
    using ftoa_finish_total [OF dig(2)] by blast
  have "length buf2 < 2 ^ 64"
    using fin(2) by (simp add: fits_def PRINTF_FTOA_BUFFER_SIZE_def)
  note emitted = out_rev_emit [OF this, of out b p mx width' flags]
  have "ftoa_with etoa' out b p mx v prec width flags = Inr (out_rev out b p mx buf2 width' flags)"
    using assms(1)
    by (simp add: ftoa_with_def ordinary_def Let_def negative_def [symmetric] absv_def [symmetric]
        pr_def [symmetric] lim rnd dig fin del: double_less.simps double_eq.simps)
  then show ?thesis
    unfolding emitted by blast
qed

end
