(* ===== verification/Printf_Format.thy ===== *)
theory Printf_Format
  imports Printf_Spec
begin

text \<open>
  Format specifiers as data: flags, width, precision, length and conversion, and the text that
  spells one. The interpreter, given the text, calls the conversion with what was spelled, and
  goes on behind it. With that, the conversions of characters, strings and pointers are
  described for all their fields.
\<close>

section \<open>Specifiers\<close>

datatype amount = Absent | Number nat | Star

datatype len = NoLen | LenH | LenHH | LenL | LenLL | LenT | LenJ | LenZ

record spec =
  flag_chars :: string
  field_width :: amount
  field_precision :: "amount option"
  len_of :: len
  specifier :: char

fun amount_text :: "amount \<Rightarrow> string" where
  "amount_text Absent = []"
| "amount_text (Number n) = nat_text 10 n"
| "amount_text Star = ''*''"

fun len_text :: "len \<Rightarrow> string" where
  "len_text NoLen = []"
| "len_text LenH = ''h''"
| "len_text LenHH = ''hh''"
| "len_text LenL = ''l''"
| "len_text LenLL = ''ll''"
| "len_text LenT = ''t''"
| "len_text LenJ = ''j''"
| "len_text LenZ = ''z''"

definition precision_text :: "amount option \<Rightarrow> string" where
  "precision_text a = (case a of None \<Rightarrow> [] | Some a \<Rightarrow> CHR ''.'' # amount_text a)"

definition spec_text :: "spec \<Rightarrow> string" where
  "spec_text sp = flag_chars sp @ amount_text (field_width sp) @ precision_text (field_precision sp) @
     len_text (len_of sp) @ [specifier sp]"

text \<open>
  A specifier that can be spelled: a width that is written is not zero, since a zero there is a
  flag, numbers fit 32 bits, and the character of the conversion is not one of the other parts.
\<close>

definition spec_ok :: "spec \<Rightarrow> bool" where
  "spec_ok sp \<longleftrightarrow> set (flag_chars sp) \<subseteq> set ''0-+ #'' \<and>
     (case field_width sp of Number n \<Rightarrow> 0 < n \<and> n < 2 ^ 32 | _ \<Rightarrow> True) \<and>
     (case field_precision sp of Some (Number n) \<Rightarrow> n < 2 ^ 32 | _ \<Rightarrow> True) \<and> plain (specifier sp)"

section \<open>What they mean\<close>

fun flag_bit :: "char \<Rightarrow> u32" where
  "flag_bit c = (if c = CHR ''0'' then FLAGS_ZEROPAD else if c = CHR ''-'' then FLAGS_LEFT
     else if c = CHR ''+'' then FLAGS_PLUS else if c = CHR '' '' then FLAGS_SPACE else FLAGS_HASH)"

definition flag_bits :: "string \<Rightarrow> u32" where
  "flag_bits cs = fold (\<lambda>c f. f OR flag_bit c) cs 0"

fun len_bits :: "len \<Rightarrow> u32" where
  "len_bits NoLen = 0"
| "len_bits LenH = FLAGS_SHORT"
| "len_bits LenHH = FLAGS_SHORT OR FLAGS_CHAR"
| "len_bits LenL = FLAGS_LONG"
| "len_bits LenLL = FLAGS_LONG OR FLAGS_LONG_LONG"
| "len_bits LenT = FLAGS_LONG"
| "len_bits LenJ = FLAGS_LONG"
| "len_bits LenZ = FLAGS_LONG"

fun width_meaning :: "u32 \<Rightarrow> amount \<Rightarrow> va_list \<Rightarrow> (u32 \<times> u32 \<times> va_list) res" where
  "width_meaning flags Absent va = Inr (flags, 0, va)"
| "width_meaning flags (Number n) va = Inr (flags, of_nat n, va)"
| "width_meaning flags Star va = rbind (va_int va) (\<lambda>(w, va).
     if w <s 0 then rbind (abs_signed w) (\<lambda>width. Inr (flags OR FLAGS_LEFT, width, va)) else Inr (flags, w, va))"

fun precision_meaning :: "u32 \<Rightarrow> amount option \<Rightarrow> va_list \<Rightarrow> (u32 \<times> u32 \<times> va_list) res" where
  "precision_meaning flags None va = Inr (flags, 0, va)"
| "precision_meaning flags (Some Absent) va = Inr (flags OR FLAGS_PRECISION, 0, va)"
| "precision_meaning flags (Some (Number n)) va = Inr (flags OR FLAGS_PRECISION, of_nat n, va)"
| "precision_meaning flags (Some Star) va = rbind (va_int va) (\<lambda>(w, va).
     Inr (flags OR FLAGS_PRECISION, if 0 <s w then w else 0, va))"

section \<open>Reading them back\<close>

text \<open>What the following part of the specifier begins with decides where a part ends.\<close>

lemma parse_flags_text:
  assumes "set cs \<subseteq> set ''0-+ #''" "peek rest \<notin> set ''0-+ #''"
  shows "parse_flags flags (cs @ rest) = (fold (\<lambda>c f. f OR flag_bit c) cs flags, rest)"
  using assms(1)
proof (induction cs arbitrary: flags)
  case Nil
  then show ?case
    using assms(2) by (cases rest) simp_all
qed auto

lemma digit_value_char: "d < 10 \<Longrightarrow> is_digit (digit_char 0 d) \<and> of_char (digit_char 0 d) - 48 = d"
proof -
  have "list_all (\<lambda>d. is_digit (digit_char 0 d) \<and> of_char (digit_char 0 d) - 48 = d) [0..<10]"
    by code_simp
  then show "d < 10 \<Longrightarrow> is_digit (digit_char 0 d) \<and> of_char (digit_char 0 d) - 48 = d"
    by (simp add: list_all_iff)
qed

lemma atoi_loop_digits:
  assumes "\<forall>d \<in> set ds. d < 10" "\<not> is_digit (peek rest)"
  shows "atoi_loop i (map (digit_char 0) ds @ rest) = (fold (\<lambda>d i. i * 10 + of_nat d) ds i, rest)"
  using assms(1)
proof (induction ds arbitrary: i)
  case Nil
  then show ?case
    using assms(2) by (cases rest) simp_all
qed (simp add: digit_value_char)

lemma fold_digits_value: "fold (\<lambda>d i. i * 10 + of_nat d) (rev ds) 0 = (of_nat (digits_value 10 ds) :: u32)"
  by (induction ds) (simp_all add: algebra_simps)

lemma last_num_digits: "2 \<le> base \<Longrightarrow> 0 < n \<Longrightarrow> last (num_digits base n) \<noteq> 0"
proof (induction base n rule: num_digits.induct)
  case (1 base n)
  show ?case
  proof (cases "n < base")
    case True
    then show ?thesis
      using 1 by (subst num_digits.simps) simp
  next
    case False
    then show ?thesis
      using 1 by (subst num_digits.simps) (simp add: div_greater_zero_iff)
  qed
qed

lemma nat_text_map: "nat_text base n = map (digit_char 0) (rev (num_digits base n))"
  by (simp add: nat_text_def digits_text_def rev_map)

lemma atoi_nat_text: "\<not> is_digit (peek rest) \<Longrightarrow> atoi (nat_text 10 n @ rest) = (of_nat n, rest)"
  using num_digits_less [of 10 _ n] atoi_loop_digits [of "rev (num_digits 10 n)" rest 0]
  by (simp add: atoi_def nat_text_map fold_digits_value digits_value_num_digits)

text \<open>A number begins with a digit, and one that is not zero with a digit that is no flag.\<close>

lemma peek_nat_text:
  obtains d where "d < 10" "peek (nat_text 10 n @ rest) = digit_char 0 d" "0 < n \<Longrightarrow> 0 < d"
proof
  let ?d = "last (num_digits 10 n)"
  show "?d < 10"
    using num_digits_less [of 10 ?d n] by simp
  show "peek (nat_text 10 n @ rest) = digit_char 0 ?d"
    by (simp add: nat_text_map peek_def list.case_eq_if hd_map hd_rev hd_append)
  show "0 < n \<Longrightarrow> 0 < ?d"
    using last_num_digits [of 10 n] by simp
qed

lemma digit_no_flag: "d < 10 \<Longrightarrow> 0 < d \<Longrightarrow> digit_char 0 d \<notin> set ''0-+ #''"
proof -
  have "list_all (\<lambda>d. digit_char 0 d \<notin> set ''0-+ #'') [1..<10]"
    by code_simp
  then show "d < 10 \<Longrightarrow> 0 < d \<Longrightarrow> digit_char 0 d \<notin> set ''0-+ #''"
    by (simp add: list_all_iff)
qed

lemma is_digit_nat_text: "is_digit (peek (nat_text 10 n @ rest))"
  by (rule peek_nat_text [of n rest]) (simp add: digit_value_char)

lemma parse_width_text:
  assumes "\<not> is_digit (peek rest)" "peek rest \<noteq> CHR ''*''"
  shows "parse_width flags (amount_text w @ rest) va =
    rbind (width_meaning flags w va) (\<lambda>(flags, width, va). Inr (flags, width, rest, va))"
proof (cases w)
  case Absent
  then show ?thesis
    using assms by (simp add: parse_width_def)
next
  case (Number n)
  then show ?thesis
    using is_digit_nat_text [of n rest] atoi_nat_text [OF assms(1), of n] by (simp add: parse_width_def)
next
  case Star
  then show ?thesis
    by (auto simp: parse_width_def is_digit_def rbind_def split: sum.splits)
qed

lemma parse_precision_text:
  assumes "\<not> is_digit (peek rest)" "peek rest \<notin> set ''*.''"
  shows "parse_precision flags (precision_text a @ rest) va =
    rbind (precision_meaning flags a va) (\<lambda>(flags, precision, va). Inr (flags, precision, rest, va))"
proof (cases a)
  case None
  then show ?thesis
    using assms by (simp add: parse_precision_def precision_text_def)
next
  case (Some w)
  show ?thesis
  proof (cases w)
    case Absent
    then show ?thesis
      using Some assms by (simp add: parse_precision_def precision_text_def)
  next
    case (Number n)
    then show ?thesis
      using Some is_digit_nat_text [of n rest] atoi_nat_text [OF assms(1), of n]
      by (simp add: parse_precision_def precision_text_def)
  next
    case Star
    then show ?thesis
      using Some by (auto simp: parse_precision_def precision_text_def is_digit_def rbind_def split: sum.splits)
  qed
qed

lemma parse_length_text:
  "plain c \<Longrightarrow> parse_length flags (len_text l @ c # rest) = Inr (flags OR len_bits l, c # rest)"
  by (cases l) (auto simp: parse_length_def plain_def or.assoc)

lemma peek_len_text:
  "plain c \<Longrightarrow> \<not> is_digit (peek (len_text l @ c # rest)) \<and> peek (len_text l @ c # rest) \<notin> set ''0-+ #*.''"
  by (cases l) (auto simp: plain_def is_digit_def)

lemma peek_precision_text:
  assumes "plain c"
  shows "\<not> is_digit (peek (precision_text a @ len_text l @ c # rest)) \<and>
    peek (precision_text a @ len_text l @ c # rest) \<notin> set ''0-+ #*''"
  using peek_len_text [OF assms, of l rest] by (cases a) (auto simp: precision_text_def is_digit_def)

lemma directive_text:
  assumes "spec_ok sp"
  shows "directive out b m (spec_text sp @ rest) va p =
    rbind (width_meaning (flag_bits (flag_chars sp)) (field_width sp) va) (\<lambda>(flags, width, va).
    rbind (precision_meaning flags (field_precision sp) va) (\<lambda>(flags, precision, va).
    rbind (conversion out b m (specifier sp) (flags OR len_bits (len_of sp)) width precision va p) (\<lambda>(va, p).
    Inr ((rest, va), p))))"
proof -
  let ?x3 = "len_text (len_of sp) @ specifier sp # rest"
  let ?x2 = "precision_text (field_precision sp) @ ?x3"
  let ?x1 = "amount_text (field_width sp) @ ?x2"
  have c: "plain (specifier sp)" and f: "set (flag_chars sp) \<subseteq> set ''0-+ #''"
    using assms by (simp_all add: spec_ok_def)
  note p3 = peek_len_text [OF c, of "len_of sp" rest]
  note p2 = peek_precision_text [OF c, of "field_precision sp" "len_of sp" rest]
  have "peek ?x1 \<notin> set ''0-+ #''"
  proof (cases "field_width sp")
    case (Number n)
    then have "0 < n"
      using assms by (simp add: spec_ok_def)
    then show ?thesis
      using Number digit_no_flag by (auto intro: peek_nat_text [of n ?x2])
  qed (use p2 in auto)
  then have "parse_flags 0 (spec_text sp @ rest) = (flag_bits (flag_chars sp), ?x1)"
    using parse_flags_text [OF f] by (simp add: spec_text_def flag_bits_def)
  moreover have "parse_width flags ?x1 va = rbind (width_meaning flags (field_width sp) va)
      (\<lambda>(flags, width, va). Inr (flags, width, ?x2, va))" for flags va
    using p2 by (intro parse_width_text) auto
  moreover have "parse_precision flags ?x2 va = rbind (precision_meaning flags (field_precision sp) va)
      (\<lambda>(flags, precision, va). Inr (flags, precision, ?x3, va))" for flags va
    using p3 by (intro parse_precision_text) auto
  ultimately show ?thesis
    using parse_length_text [OF c]
    by (simp add: directive_def rbind_assoc split_def Let_def cong: rbind_cong)
qed

section \<open>Strings\<close>

lemma strnlen_s_loop_eq:
  "CHR 0x00 \<notin> set s \<Longrightarrow> strnlen_s_loop s maxsize n = n + of_nat (min (length s) (unat maxsize))"
proof (induction s arbitrary: maxsize n)
  case (Cons c cs)
  show ?case
  proof (cases "maxsize = 0")
    case False
    then have "unat maxsize = Suc (unat (maxsize - 1))"
      by (simp add: unat_minus_one unat_gt_0)
    then show ?thesis
      using Cons False by (subst strnlen_s_loop.simps) (auto simp: min_def)
  qed (subst strnlen_s_loop.simps, simp)
qed (subst strnlen_s_loop.simps, simp)

definition in_field :: "bool \<Rightarrow> nat \<Rightarrow> string \<Rightarrow> string" where
  "in_field left w cs =
     (if left then cs @ replicate (w - length cs) CHR '' '' else replicate (w - length cs) CHR '' '' @ cs)"

lemma pad_text_field:
  "unat l = length cs \<Longrightarrow> pad_text flags l width cs = in_field (has flags FLAGS_LEFT) (unat width) cs"
  by (simp add: pad_text_def in_field_def Let_def)

lemma str_field_eq:
  assumes "CHR 0x00 \<notin> set s" "length s < 2 ^ 32" "\<not> has flags FLAGS_PRECISION \<Longrightarrow> precision = 0"
  shows "str_field flags width precision s =
    in_field (has flags FLAGS_LEFT) (unat width) (if has flags FLAGS_PRECISION then take (unat precision) s else s)"
proof -
  let ?t = "if has flags FLAGS_PRECISION then take (unat precision) s else s"
  let ?l = "strnlen_s s (if precision \<noteq> 0 then ucast precision else - 1)"
  have t: "str_text (has flags FLAGS_PRECISION) precision s = ?t"
  proof -
    have tw: "takeWhile (\<lambda>c. c \<noteq> CHR 0x00) s = s"
      using assms(1) by (auto simp: takeWhile_eq_all_conv)
    show ?thesis
      by (simp only: str_text_def Let_def tw)
  qed
  have max: "unat (- 1 :: u64) = 2 ^ 64 - 1"
    by (simp add: unsigned_minus_1_eq_mask mask_eq_exp_minus_1)
  have "?l = of_nat (if precision = 0 then length s else min (length s) (unat precision))"
    using assms(2) by (simp add: strnlen_s_def strnlen_s_loop_eq [OF assms(1)] max min_def)
  then have l: "unat ?l = (if precision = 0 then length s else min (length s) (unat precision))"
    using assms(2) by (simp add: unat_of_nat take_bit_nat_eq_self)
  have "unat (if has flags FLAGS_PRECISION then if ?l < precision then ?l else precision else ?l) = length ?t"
    using l assms(3) by (auto simp: word_less_nat_alt min_def not_less)
  then show ?thesis
    by (simp add: str_field_def Let_def t pad_text_field)
qed

text \<open>The numbers written in the specifier.\<close>

fun amount_value :: "amount \<Rightarrow> nat" where
  "amount_value (Number n) = n"
| "amount_value a = 0"

definition cut :: "amount option \<Rightarrow> string \<Rightarrow> string" where
  "cut a s = (case a of None \<Rightarrow> s | Some a \<Rightarrow> take (amount_value a) s)"

lemma has_union: "has (f OR g) m \<longleftrightarrow> has f m \<or> has g m"
  by (simp add: has_def bit.conj_disj_distrib2 or_eq_0_iff)

lemma has_constants:
  "\<not> has FLAGS_ZEROPAD FLAGS_LEFT" "has FLAGS_LEFT FLAGS_LEFT" "\<not> has FLAGS_PLUS FLAGS_LEFT"
  "\<not> has FLAGS_SPACE FLAGS_LEFT" "\<not> has FLAGS_HASH FLAGS_LEFT" "\<not> has FLAGS_PRECISION FLAGS_LEFT"
  "\<not> has FLAGS_SHORT FLAGS_LEFT" "\<not> has FLAGS_CHAR FLAGS_LEFT" "\<not> has FLAGS_LONG FLAGS_LEFT"
  "\<not> has FLAGS_LONG_LONG FLAGS_LEFT"
  "\<not> has FLAGS_ZEROPAD FLAGS_PRECISION" "\<not> has FLAGS_LEFT FLAGS_PRECISION" "\<not> has FLAGS_PLUS FLAGS_PRECISION"
  "\<not> has FLAGS_SPACE FLAGS_PRECISION" "\<not> has FLAGS_HASH FLAGS_PRECISION" "has FLAGS_PRECISION FLAGS_PRECISION"
  "\<not> has FLAGS_SHORT FLAGS_PRECISION" "\<not> has FLAGS_CHAR FLAGS_PRECISION" "\<not> has FLAGS_LONG FLAGS_PRECISION"
  "\<not> has FLAGS_LONG_LONG FLAGS_PRECISION"
  by (simp_all add: has_def FLAGS_defs)

lemma flag_bit_has: "c \<in> set ''0-+ #'' \<Longrightarrow> has (flag_bit c) FLAGS_LEFT \<longleftrightarrow> c = CHR ''-''"
  "\<not> has (flag_bit c) FLAGS_PRECISION"
  by (auto simp: has_constants)

lemma fold_flag_bits:
  assumes "set cs \<subseteq> set ''0-+ #''"
  shows "has (fold (\<lambda>c f. f OR flag_bit c) cs f) FLAGS_LEFT \<longleftrightarrow> has f FLAGS_LEFT \<or> CHR ''-'' \<in> set cs"
    "has (fold (\<lambda>c f. f OR flag_bit c) cs f) FLAGS_PRECISION \<longleftrightarrow> has f FLAGS_PRECISION"
  using assms
proof (induction cs arbitrary: f)
  case (Cons c cs)
  {
    case 1
    then show ?case
      using Cons.IH(1) [of "f OR flag_bit c"] flag_bit_has(1) [of c] by (auto simp: has_union simp del: flag_bit.simps)
  next
    case 2
    then show ?case
      using Cons.IH(2) [of "f OR flag_bit c"] flag_bit_has(2) [of c] by (simp add: has_union del: flag_bit.simps)
  }
qed simp_all

lemma len_bits_has: "\<not> has (len_bits l) FLAGS_LEFT" "\<not> has (len_bits l) FLAGS_PRECISION"
  by (cases l; simp add: has_union has_constants)+

lemma width_written:
  "w \<noteq> Star \<Longrightarrow> width_meaning flags w va = Inr (flags, of_nat (amount_value w), va)"
  by (cases w) simp_all

lemma precision_written:
  "a \<noteq> Some Star \<Longrightarrow> precision_meaning flags a va =
    Inr (if a = None then flags else flags OR FLAGS_PRECISION,
      of_nat (case a of None \<Rightarrow> 0 | Some a \<Rightarrow> amount_value a), va)"
  by (cases a; cases "the a") auto

text \<open>A conversion that emits one text, in the format.\<close>

lemma format_text_spec:
  assumes "spec_ok sp" "field_width sp \<noteq> Star" "field_precision sp \<noteq> Some Star"
    and "\<And>flags. has flags FLAGS_LEFT \<longleftrightarrow> CHR ''-'' \<in> set (flag_chars sp) \<Longrightarrow>
      has flags FLAGS_PRECISION \<longleftrightarrow> field_precision sp \<noteq> None \<Longrightarrow>
      conversion recorder 1 0 (specifier sp) flags (of_nat (amount_value (field_width sp)))
        (of_nat (case field_precision sp of None \<Rightarrow> 0 | Some a \<Rightarrow> amount_value a)) va (0, []) =
      Inr (va', emit recorder 1 0 cs (0, []))"
  shows "format_text (CHR ''%'' # spec_text sp @ rest) va = rbind (format_text rest va') (\<lambda>ts. Inr (cs @ ts))"
proof -
  let ?f = "flag_bits (flag_chars sp)"
  let ?g = "(if field_precision sp = None then ?f else ?f OR FLAGS_PRECISION) OR len_bits (len_of sp)"
  have f: "set (flag_chars sp) \<subseteq> set ''0-+ #''"
    using assms(1) by (simp add: spec_ok_def)
  have "has ?g FLAGS_LEFT \<longleftrightarrow> CHR ''-'' \<in> set (flag_chars sp)" "has ?g FLAGS_PRECISION \<longleftrightarrow> field_precision sp \<noteq> None"
    using fold_flag_bits [OF f, of 0] by (simp_all add: flag_bits_def has_union len_bits_has has_constants)
  from assms(4) [OF this] show ?thesis
    using assms(2,3)
    by (simp add: format_text_percent directive_text [OF assms(1)] width_written precision_written emit_recorder)
qed

lemma small_amounts:
  assumes "spec_ok sp"
  shows "unat (of_nat (amount_value (field_width sp)) :: u32) = amount_value (field_width sp)"
    "unat (of_nat (case field_precision sp of None \<Rightarrow> 0 | Some a \<Rightarrow> amount_value a) :: u32) =
      (case field_precision sp of None \<Rightarrow> 0 | Some a \<Rightarrow> amount_value a)"
  using assms
  by (cases "field_width sp"; cases "field_precision sp"; cases "the (field_precision sp)";
      simp add: spec_ok_def unat_of_nat take_bit_nat_eq_self)+

lemma format_text_string:
  assumes "spec_ok sp" "specifier sp = CHR ''s''" "field_width sp \<noteq> Star" "field_precision sp \<noteq> Some Star"
    and "CHR 0x00 \<notin> set s" "length s < 2 ^ 32"
  shows "format_text (CHR ''%'' # spec_text sp @ rest) (VaStr a s # va) =
    rbind (format_text rest va) (\<lambda>ts. Inr (in_field (CHR ''-'' \<in> set (flag_chars sp))
      (amount_value (field_width sp)) (cut (field_precision sp) s) @ ts))"
proof (rule format_text_spec [OF assms(1,3,4)])
  fix flags :: u32
  let ?p = "of_nat (case field_precision sp of None \<Rightarrow> 0 | Some a \<Rightarrow> amount_value a) :: u32"
  assume *: "has flags FLAGS_LEFT \<longleftrightarrow> CHR ''-'' \<in> set (flag_chars sp)"
    "has flags FLAGS_PRECISION \<longleftrightarrow> field_precision sp \<noteq> None"
  have "str_field flags (of_nat (amount_value (field_width sp))) ?p s =
      in_field (CHR ''-'' \<in> set (flag_chars sp)) (amount_value (field_width sp)) (cut (field_precision sp) s)"
    using * small_amounts [OF assms(1)]
    by (subst str_field_eq [OF assms(5,6)]) (auto simp: cut_def split: option.splits)
  then show "conversion recorder 1 0 (specifier sp) flags (of_nat (amount_value (field_width sp))) ?p (VaStr a s # va) (0, []) =
      Inr (va, emit recorder 1 0 (in_field (CHR ''-'' \<in> set (flag_chars sp))
        (amount_value (field_width sp)) (cut (field_precision sp) s)) (0, []))"
    by (simp add: conversion_def assms(2) conv_str_emit va_str_def)
qed

lemma format_text_char:
  assumes "spec_ok sp" "specifier sp = CHR ''c''" "field_width sp \<noteq> Star" "field_precision sp \<noteq> Some Star"
  shows "format_text (CHR ''%'' # spec_text sp @ rest) (VaInt w # va) =
    rbind (format_text rest va) (\<lambda>ts. Inr (in_field (CHR ''-'' \<in> set (flag_chars sp))
      (amount_value (field_width sp)) [char_of (unat (ucast w :: u8))] @ ts))"
proof (rule format_text_spec [OF assms(1,3,4)])
  fix flags :: u32
  assume *: "has flags FLAGS_LEFT \<longleftrightarrow> CHR ''-'' \<in> set (flag_chars sp)"
  have "(ucast (ucast w :: u32) :: u8) = ucast w"
    by (intro bit_word_eqI) (auto simp: bit_simps)
  then have "char_text flags (of_nat (amount_value (field_width sp))) (ucast w) =
      in_field (CHR ''-'' \<in> set (flag_chars sp)) (amount_value (field_width sp)) [char_of (unat (ucast w :: u8))]"
    using * small_amounts(1) [OF assms(1)] by (simp add: char_text_def pad_text_field)
  then show "conversion recorder 1 0 (specifier sp) flags (of_nat (amount_value (field_width sp)))
      (of_nat (case field_precision sp of None \<Rightarrow> 0 | Some a \<Rightarrow> amount_value a)) (VaInt w # va) (0, []) =
      Inr (va, emit recorder 1 0 (in_field (CHR ''-'' \<in> set (flag_chars sp))
        (amount_value (field_width sp)) [char_of (unat (ucast w :: u8))]) (0, []))"
    by (simp add: conversion_def assms(2) conv_char_emit va_int_def va_long_def)
qed

section \<open>Pointers\<close>

definition pointer_text :: "u64 \<Rightarrow> string" where
  "pointer_text w = (let ds = digits_text FLAGS_UPPERCASE 16 (unat w) in replicate (16 - length ds) CHR ''0'' @ ds)"

lemma conv_p:
  "conversion out b m CHR ''p'' 0 0 0 (VaInt w # va) p = Inr (va, emit out b m (pointer_text w) p)"
proof -
  let ?f = "FLAGS_ZEROPAD OR FLAGS_UPPERCASE"
  have f: "\<not> has ?f FLAGS_HASH" "\<not> has ?f FLAGS_LEFT" "has ?f FLAGS_ZEROPAD" "\<not> has ?f FLAGS_PRECISION"
    "\<not> has ?f (FLAGS_PLUS OR FLAGS_SPACE)" "has ?f FLAGS_UPPERCASE"
    by (simp_all add: has_def FLAGS_defs)
  have "unat w < 2 ^ 64"
    using unsigned_less [of w] by simp
  then have "unat w < 16 ^ 31"
    by simp
  then have fits: "ntoa_fits w 16 0 16 ?f"
    by (simp add: ntoa_fits_def)
  have "digits_text ?f 16 n = digits_text FLAGS_UPPERCASE 16 n" for n
    by (simp add: digits_text_def digit_char_def f has_def FLAGS_defs)
  then have "ntoa_text w False 16 0 16 ?f = pointer_text w"
    using f by (simp add: ntoa_text_def ntoa_digits_text_def ntoa_zero_count_def field_text_zeropad
        sign_text_def has_or pointer_text_def Let_def)
  then show ?thesis
    using ntoa_long_fits [OF f(1) fits, of out b p m False]
    by (simp add: ntoa_long_long_eq conversion_def conv_ptr_def va_ptr_def)
qed

lemma length_pointer_text: "length (pointer_text w) = 16"
proof -
  have "unat w < 2 ^ 64"
    using unsigned_less [of w] by simp
  then have "unat w < 16 ^ 16"
    by simp
  then have "length (digits_text FLAGS_UPPERCASE 16 (unat w)) \<le> 16"
    using length_num_digits [of 16 "unat w" 16] by (simp add: digits_text_def)
  then show ?thesis
    by (simp add: pointer_text_def Let_def)
qed

lemma format_text_p:
  "format_text (CHR ''%'' # CHR ''p'' # cs) (VaInt w # va) =
    rbind (format_text cs va) (\<lambda>ts. Inr (pointer_text w @ ts))"
proof -
  have "plain CHR ''p''"
    by (simp add: plain_def is_digit_def)
  then show ?thesis
    by (simp add: format_text_percent directive_plain conv_p emit_recorder)
qed

lemma pointer_reads_back: "text_value 16 (pointer_text w) = unat w"
  using text_value_zeros_digits [of 16 _ FLAGS_UPPERCASE "unat w"] by (simp add: pointer_text_def Let_def)

end
