(* ===== verification/Printf_Properties.thy ===== *)
theory Printf_Properties
  imports Printf_Total Printf_Format
begin

text \<open>
  The properties of the printf library: what a call writes, where it may write, which text the
  conversions produce, and the arguments on which they fail.
\<close>

text \<open>Numerals of the concrete calls the properties are applied to.\<close>

lemmas numeral_text = nat_text_def digits_text_def num_digits.simps digit_char_def
  digit_chars int_text_def

lemma text_12345: "format_text ''%d'' [VaInt 12345] = Inr ''12345''"
  by (simp add: format_text_simps numeral_text)

section \<open>The call\<close>

text \<open>
  C2. \<open>snprintf\<close> stores the text of its format, cut off to the size of the buffer and
  terminated, and returns the length of the whole text.
\<close>

theorem snprintf_stores_text:
  assumes "b \<noteq> 0" "format_text format va = Inr cs" "length cs < 2 ^ 64"
  shows "snprintf b count format va m = Inr (of_nat (length cs), store_string b (stored_text count cs) m)"
  using assms by (rule snprintf_text)

theorem snprintf_stores_text_witness:
  "snprintf 0x1000 4 ''%d'' [VaInt 12345] (\<lambda>_. 0xAB) =
    Inr (5, store_string 0x1000 (''123'' @ [CHR 0x00]) (\<lambda>_. 0xAB))"
  using snprintf_stores_text [where b = "0x1000" and count = "4" and m = "\<lambda>_. 0xAB", OF _ text_12345]
  by (simp add: stored_text_def)

text \<open>
  C35. The text does not depend on where it goes. For every output function the call emits
  \<open>format_text\<close> character by character, then the terminator inside the buffer, and returns
  the length; a null buffer only counts.
\<close>

theorem vsnprintf_same_text:
  "vsnprintf out b m format va s =
    rbind (format_text format va) (\<lambda>cs.
      let out = (if b = 0 then out_null else out);
          n = of_nat (length cs)
      in Inr (of_nat (length cs), out CHR 0x00 b (if n < m then n else m - 1) m
           (snd (emit out b m cs (0, s)))))"
  by (rule vsnprintf_text)

text \<open>
  C3. No call of \<open>snprintf\<close>, whatever its format and arguments, changes a byte outside the
  \<open>count\<close> bytes of the buffer.
\<close>

theorem snprintf_in_bounds:
  assumes "snprintf b count format va m = Inr (n, m')" "\<not> a - b < count"
  shows "m' a = m a"
  using buffer_sink.vsnprintf_sinv [of b count format va m n m' m] assms
  by (simp add: snprintf_def outside_kept_def)

theorem snprintf_in_bounds_witness:
  "store_string 0x1000 (stored_text 4 ''12345'') (\<lambda>_. 0xAB) 0x1004 = 0xAB"
  by (rule snprintf_in_bounds [OF snprintf_text [OF _ text_12345]]) simp_all

section \<open>Integers\<close>

text \<open>
  C39. \<open>%d\<close> prints the signed decimal of the low 32 bits of its argument, for every argument
  but the least integer, whose negation overflows.
\<close>

theorem printf_d:
  "format_text ''%d'' [VaInt w] =
    (if sint (ucast w :: u32) = - (2 ^ 31) then Inl SignedOverflow
     else Inr (int_text (sint (ucast w :: u32))))"
  by (simp add: format_text_simps)

text \<open>
  C32. What \<open>%lx\<close>, \<open>%u\<close> and \<open>%p\<close> print reads back as the number that was printed: all 64
  bits in base 16, the low 32 bits in base 10, and a pointer in sixteen digits.
\<close>

theorem printf_reads_back:
  "(\<exists>cs. format_text ''%lx'' [VaInt w] = Inr cs \<and> text_value 16 cs = unat w) \<and>
   (\<exists>cs. format_text ''%u'' [VaInt w] = Inr cs \<and> text_value 10 cs = unat (ucast w :: u32)) \<and>
   (\<exists>cs. format_text ''%p'' [VaInt w] = Inr cs \<and> length cs = 16 \<and> text_value 16 cs = unat w)"
  using text_value_zeros_digits [of 16 0 0 "unat w"] text_value_zeros_digits [of 10 0 0 "unat (ucast w :: u32)"]
  using format_text_p [of "[]" w "[]"] length_pointer_text [of w] pointer_reads_back [of w]
  by (simp add: format_text_simps nat_text_def)



text \<open>
  C34. Without any condition on value, precision, width and flags, an integer conversion in a
  base of at least two returns: it never indexes outside its buffer, and what it emits is at
  most as long as the width or the buffer.
\<close>

theorem ntoa_bounded:
  assumes "2 \<le> unat base"
  shows "\<exists>cs. length cs \<le> max (unat width) PRINTF_NTOA_BUFFER_SIZE \<and>
    ntoa_long out b p m v negative base prec width flags = Inr (emit out b m cs p)"
  using ntoa_long_emit [OF assms] by blast

theorem ntoa_bounded_witness:
  "\<exists>cs. length cs \<le> 40 \<and>
    ntoa_long recorder 1 (0, []) 0 (- 1) True 2 99 40 FLAGS_HASH = Inr (emit recorder 1 0 cs (0, []))"
  using ntoa_bounded [of 2 40 recorder 1 "(0, [])" 0 "- 1" True 99 FLAGS_HASH]
  by (simp add: PRINTF_NTOA_BUFFER_SIZE_def)

text \<open>
  With \<open>#\<close> and a width equal to the number of its digits, a hexadecimal number other
  than zero is printed without its two leading digits.
\<close>

theorem hash_drops_digits:
  assumes "v \<noteq> 0"
  shows "let ds = digits_text FLAGS_HASH 16 (unat v)
    in ntoa_long out b p m v False 16 0 (of_nat (length ds)) FLAGS_HASH =
      Inr (emit out b m (''0x'' @ drop 2 ds) p)"
proof -
  have flags: "has FLAGS_HASH FLAGS_HASH" "\<not> has FLAGS_HASH FLAGS_PRECISION" "\<not> has FLAGS_HASH FLAGS_ZEROPAD"
    "\<not> has FLAGS_HASH FLAGS_LEFT" "\<not> has FLAGS_HASH FLAGS_UPPERCASE" "\<not> has FLAGS_HASH FLAGS_PLUS"
    "\<not> has FLAGS_HASH FLAGS_SPACE"
    by (simp_all add: has_def FLAGS_defs)
  define ds where "ds = digits_text FLAGS_HASH 16 (unat v)"
  have "length ds \<le> 16"
    using length_num_digits [of 16 "unat v" 16] unsigned_less [of v] by (simp add: ds_def digits_text_def)
  then have "unat (of_nat (length ds) :: u32) = length ds"
    by (simp only: unat_of_nat take_bit_nat_eq_self_iff) simp
  then show ?thesis
    using assms flags
    by (simp add: ntoa_long_hash16 ds_def [symmetric] field_text_def sign_text_def Let_def)
qed

theorem hash_drops_digits_witness:
  "ntoa_long recorder 1 (0, []) 0 0x1234 False 16 0 4 FLAGS_HASH = Inr (emit recorder 1 0 ''0x34'' (0, []))"
proof -
  have "digits_text FLAGS_HASH 16 0x1234 = ''1234''"
    by (simp add: numeral_text has_def FLAGS_defs)
  then show ?thesis
    using hash_drops_digits [of "0x1234" recorder 1 "(0, [])" 0] by simp
qed

text \<open>
  A format that ends in a single \<open>%\<close> makes the interpreter step over the terminating
  NUL and read on behind the string.
\<close>

theorem trailing_percent:
  assumes "CHR 0x00 \<notin> set cs" "CHR ''%'' \<notin> set cs"
  shows "format_text (cs @ ''%'') va = Inl OutOfBounds"
  by (simp add: format_text_append [OF assms] format_text_trailing)

theorem trailing_percent_witness: "format_text ''50%'' [] = Inl OutOfBounds"
  using trailing_percent [of "''50''" "[]"] by simp

section \<open>Specifiers\<close>

text \<open>
  C15. The interpreter reads back every specifier that can be spelled. For flags in any order
  and number, a width and a precision that are written, taken from the arguments or absent, a
  length and a conversion, it calls that conversion with the bits of the flags, the numbers and
  the arguments that are left, and goes on behind the specifier.
\<close>

theorem printf_specifier:
  assumes "spec_ok sp"
  shows "directive out b m (spec_text sp @ rest) va p =
    rbind (width_meaning (flag_bits (flag_chars sp)) (field_width sp) va) (\<lambda>(flags, width, va).
    rbind (precision_meaning flags (field_precision sp) va) (\<lambda>(flags, precision, va).
    rbind (conversion out b m (specifier sp) (flags OR len_bits (len_of sp)) width precision va p) (\<lambda>(va, p).
    Inr ((rest, va), p))))"
  using assms by (rule directive_text)

theorem printf_specifier_witness:
  "directive recorder 1 0 ''- 12.*lx!'' [VaInt 3, VaInt 255] (0, []) =
    rbind (conversion recorder 1 0 CHR ''x'' (FLAGS_LEFT OR FLAGS_SPACE OR FLAGS_PRECISION OR FLAGS_LONG) 12 3
      [VaInt 255] (0, [])) (\<lambda>(va, p). Inr ((''!'', va), p))"
proof -
  let ?sp = "\<lparr>flag_chars = ''- '', field_width = Number 12, field_precision = Some Star, len_of = LenL,
    specifier = CHR ''x''\<rparr>"
  have "spec_ok ?sp" "spec_text ?sp @ ''!'' = ''- 12.*lx!''"
    by (simp_all add: spec_ok_def spec_text_def precision_text_def numeral_text plain_def is_digit_def)
  then show ?thesis
    using printf_specifier [of ?sp recorder 1 0 "''!''" "[VaInt 3, VaInt 255]" "(0, [])"]
    by (simp add: flag_bits_def va_int_def va_long_def or.assoc word_sless_alt)
qed

text \<open>
  C33. \<open>%s\<close> prints its string, cut to the precision if there is one, padded with blanks to the
  width: behind it with the flag \<open>-\<close>, in front of it otherwise. The other flags and the length
  change nothing.
\<close>

theorem printf_string:
  assumes "spec_ok sp" "specifier sp = CHR ''s''" "field_width sp \<noteq> Star" "field_precision sp \<noteq> Some Star"
    and "CHR 0x00 \<notin> set s" "length s < 2 ^ 32"
  shows "format_text (CHR ''%'' # spec_text sp @ rest) (VaStr a s # va) =
    rbind (format_text rest va) (\<lambda>ts. Inr (in_field (CHR ''-'' \<in> set (flag_chars sp))
      (amount_value (field_width sp)) (cut (field_precision sp) s) @ ts))"
  using assms by (rule format_text_string)

theorem printf_string_witness:
  "format_text ''%-8.3s|'' [VaStr 0x2000 ''kernel''] = Inr ''ker     |''"
proof -
  let ?sp = "\<lparr>flag_chars = ''-'', field_width = Number 8, field_precision = Some (Number 3), len_of = NoLen,
    specifier = CHR ''s''\<rparr>"
  have "spec_ok ?sp" "CHR ''%'' # spec_text ?sp @ ''|'' = ''%-8.3s|''"
    by (simp_all add: spec_ok_def spec_text_def precision_text_def numeral_text plain_def is_digit_def)
  moreover have "in_field True 8 ''ker'' = ''ker     ''"
    by code_simp
  moreover have "cut (Some (Number 3)) ''kernel'' = ''ker''"
    by (simp add: cut_def)
  moreover have "format_text ''|'' [] = Inr ''|''"
    by (simp add: format_text_simps)
  ultimately show ?thesis
    using printf_string [of ?sp "''kernel''" "''|''" "0x2000" "[]"] by simp
qed

section \<open>Floating point\<close>

text \<open>A concrete value: \<open>1.25\<close>, and its conversion with two decimals.\<close>

definition quarter5 :: double where
  "quarter5 = Fin False 5629499534213120 (- 52)"

lemma quarter5_ordinary: "ordinary quarter5" "double_ok quarter5" "\<not> double_less quarter5 (double_of_int 0)"
  by (simp_all add: ordinary_def double_ok_def quarter5_def not_negative max_float_eq DBL_MAX_def double_eval)




text \<open>
  C17. \<open>%f\<close> is total on ordinary values: every number up to a thousand millions in absolute
  value is printed, with any precision up to 41; no conversion between floating-point and
  integer values leaves its range and no index leaves its array.
\<close>

theorem printf_f_total:
  assumes "ordinary v" "double_ok v" "0 < sint (ucast w :: u32)" "sint (ucast w :: u32) \<le> 41"
  shows "\<exists>cs. format_text ''%.*f'' [VaInt w, VaDouble v] = Inr cs"
proof -
  have "sint (ucast w :: u32) = int (unat (ucast w :: u32))"
    using assms(3) by (intro sint_nonneg_unat) simp
  with assms(4) have "unat (ucast w :: u32) \<le> 41"
    by linarith
  then obtain cs where "ftoa recorder 1 (0, []) 0 v (ucast w) 0 FLAGS_PRECISION =
      Inr (emit recorder 1 0 cs (0, []))"
    using ftoa_ordinary_total [OF assms(1,2), of FLAGS_PRECISION "ucast w" _ recorder 1 "(0, [])" 0 0]
    by (auto simp: float_unfold)
  then have "format_text ''%.*f'' [VaInt w, VaDouble v] = Inr cs"
    using assms(3) by (intro format_text_star_f [OF refl]) (simp_all add: word_sless_alt)
  then show ?thesis
    by blast
qed

theorem printf_f_total_witness: "\<exists>cs. format_text ''%.*f'' [VaInt 41, VaDouble quarter5] = Inr cs"
  by (rule printf_f_total [OF quarter5_ordinary(1,2)]) simp_all

text \<open>
  From a precision of 42 on, the loop that limits the precision runs out of buffer and the
  table of powers of ten is read outside its bounds, for every number from zero to a thousand
  millions.
\<close>

theorem printf_f_wide:
  assumes "ordinary (Fin False m e)" "42 \<le> sint (ucast w :: u32)"
  shows "format_text ''%.*f'' [VaInt w, VaDouble (Fin False m e)] = Inl OutOfBounds"
proof -
  have "sint (ucast w :: u32) = int (unat (ucast w :: u32))"
    using assms(2) by (intro sint_nonneg_unat) simp
  with assms(2) have "42 \<le> unat (ucast w :: u32)"
    by linarith
  then have "ftoa recorder 1 (0, []) 0 (Fin False m e) (ucast w) 0 FLAGS_PRECISION = Inl OutOfBounds"
    using ftoa_wide_precision [OF assms(1), of FLAGS_PRECISION "ucast w"]
    by (simp add: float_unfold has_def FLAGS_defs)
  then show ?thesis
    using assms(2) by (intro format_text_star_f [OF refl]) (simp_all add: word_sless_alt)
qed

theorem printf_f_wide_witness: "format_text ''%.*f'' [VaInt 42, VaDouble quarter5] = Inl OutOfBounds"
  using printf_f_wide [of 5629499534213120 "- 52" 42] quarter5_ordinary(1) by (simp add: quarter5_def)

text \<open>
  A fraction exactly half way is rounded up without the carry into the whole part that
  the other branch makes: the value \<open>0.95\<close> with one decimal comes out as thirty zeros and
  the digits \<open>10\<close>, without a point.
\<close>

theorem printf_f_halfway:
  "format_text ''%.*f'' [VaInt 1, VaDouble (decimal 95 100)] = Inr (replicate 30 CHR ''0'' @ ''10'')"
proof (rule format_text_star_f [OF refl])
  show "0 <s (ucast (1 :: u64) :: u32)"
    by (simp add: word_sless_alt)
  have "ftoa recorder 1 (0, []) 0 (decimal 95 100) 1 0 FLAGS_PRECISION =
      Inr (emit recorder 1 0 (replicate 30 CHR ''0'' @ ''10'') (0, []))"
    unfolding float_unfold by (rule ftoa_95)
  then show "ftoa recorder 1 (0, []) 0 (decimal 95 100) (ucast (1 :: u64)) 0 FLAGS_PRECISION =
      rbind (Inr (replicate 30 CHR ''0'' @ ''10'')) (\<lambda>cs. Inr (emit recorder 1 0 cs (0, [])))"
    by simp
qed

text \<open>
  The depth to which the mutual recursion of the two floating-point conversions is
  unrolled does not matter: when the conversion returns a text or a fault, every greater depth
  gives the same.
\<close>

theorem float_depth_independent:
  assumes "4 \<le> n"
  shows "(ftoa out b p m v prec width flags \<noteq> Inl NoReturn \<longrightarrow>
      ftoa_depth n out b p m v prec width flags = ftoa out b p m v prec width flags) \<and>
    (etoa out b p m v prec width flags \<noteq> Inl NoReturn \<longrightarrow>
      etoa_depth n out b p m v prec width flags = etoa out b p m v prec width flags)"
  using float_depth [OF assms] by blast

theorem float_depth_independent_witness:
  "ftoa_depth 9 recorder 1 (0, []) 0 NaN 2 6 0 = ftoa recorder 1 (0, []) 0 NaN 2 6 0"
  using float_depth_independent [of 9 recorder 1 "(0, [])" 0 NaN 2 6 0]
  by (simp add: float_unfold ftoa_with_def)

end
