(* ===== verification/Machine.thy ===== *)
theory Machine
  imports Memory
begin

text \<open>
  The machine below the C++ code, as \<open>misc/cpu.h\<close> and \<open>misc/io.h\<close> use it: memory, the
  privileged instructions, and a hardware that answers reads. An instruction with an effect
  outside memory is an event; the trace of a machine holds its events, the last one first.
  What a read returns may depend on everything that happened before it, so the hardware is a
  parameter: functions from the trace to the value read.
\<close>

section \<open>State\<close>

datatype event =
    Outb u16 u8
  | Inb u16
  | Wrmsr u32 u64
  | Rdmsr u32
  | MmioWrite u64 u32
  | MmioRead u64
  | Cpuid u32 u32
  | Rdtsc
  | Rdtscp
  | Rdpmc u32
  | Mfence
  | Lfence
  | Wbinvd
  | Invlpg u64
  | Lidt u16 u64
  | Cli
  | Sti
  | Hlt

record hardware =
  port_in :: "event list \<Rightarrow> u16 \<Rightarrow> u8"
  msr_in :: "event list \<Rightarrow> u32 \<Rightarrow> u64"
  mmio_in :: "event list \<Rightarrow> u64 \<Rightarrow> u32"
  cpuid_in :: "event list \<Rightarrow> u32 \<Rightarrow> u32 \<Rightarrow> u32 \<times> u32 \<times> u32 \<times> u32"
  tsc_in :: "event list \<Rightarrow> u64"
  pmc_in :: "event list \<Rightarrow> u32 \<Rightarrow> u64"

record machine =
  mem :: memory
  trace :: "event list"
  hw :: hardware

definition occur :: "event \<Rightarrow> 'a machine_scheme \<Rightarrow> 'a machine_scheme" where
  "occur e s = s\<lparr>trace := e # trace s\<rparr>"

lemma occur_simps [simp]:
  "mem (occur e s) = mem s" "trace (occur e s) = e # trace s" "hw (occur e s) = hw s"
  "machine.more (occur e s) = machine.more s"
  by (simp_all add: occur_def)

text \<open>The halves of a 64-bit value in \<open>edx:eax\<close>.\<close>

definition edx_eax :: "u32 \<Rightarrow> u32 \<Rightarrow> u64" where
  "edx_eax high low = push_bit 32 (ucast high) OR ucast low"

lemma edx_eax_halves:
  "edx_eax (ucast (drop_bit 32 v)) (ucast (v AND 0xFFFFFFFF)) = (v :: u64)"
  "edx_eax (ucast (drop_bit 32 v)) (ucast v) = v"
proof -
  have "v AND 0xFFFFFFFF = take_bit 32 v"
    by (simp add: take_bit_eq_mask mask_eq_exp_minus_1)
  then show "edx_eax (ucast (drop_bit 32 v)) (ucast (v AND 0xFFFFFFFF)) = v"
    by (intro bit_word_eqI) (auto simp: edx_eax_def bit_simps)
  show "edx_eax (ucast (drop_bit 32 v)) (ucast v) = v"
    by (intro bit_word_eqI) (auto simp: edx_eax_def bit_simps)
qed

section \<open>Ports\<close>

text \<open>
  The port of \<open>outb\<close> is an \<open>int16_t\<close> and its value an \<open>int8_t\<close>: the instruction
  takes their bit patterns.
\<close>

definition outb :: "u16 \<Rightarrow> u8 \<Rightarrow> 'a machine_scheme \<Rightarrow> 'a machine_scheme" where
  "outb port val s = occur (Outb port val) s"

definition inb :: "u16 \<Rightarrow> 'a machine_scheme \<Rightarrow> u8 \<times> 'a machine_scheme" where
  "inb port s = (port_in (hw s) (trace s) port, occur (Inb port) s)"

section \<open>Model-specific registers\<close>

definition rdmsr :: "u32 \<Rightarrow> 'a machine_scheme \<Rightarrow> u64 \<times> 'a machine_scheme" where
  "rdmsr msr s =
     (let v = msr_in (hw s) (trace s) msr;
          high = ucast (drop_bit 32 v) :: u32;
          low = ucast v :: u32
      in (push_bit 32 (ucast high) OR ucast low, occur (Rdmsr msr) s))"

definition wrmsr :: "u32 \<Rightarrow> u64 \<Rightarrow> 'a machine_scheme \<Rightarrow> 'a machine_scheme" where
  "wrmsr msr v s =
     (let low = ucast (v AND 0xFFFFFFFF);
          high = ucast (drop_bit 32 v)
      in occur (Wrmsr msr (edx_eax high low)) s)"

lemma rdmsr_eq: "rdmsr msr s = (msr_in (hw s) (trace s) msr, occur (Rdmsr msr) s)"
  using edx_eax_halves(2) [unfolded edx_eax_def] by (simp add: rdmsr_def)

lemma wrmsr_eq: "wrmsr msr v s = occur (Wrmsr msr v) s"
  by (simp add: wrmsr_def edx_eax_halves)

section \<open>The local APIC's registers\<close>

definition apic_base :: u64 where
  "apic_base = 0x13370000000"

definition apic_read :: "u32 \<Rightarrow> 'a machine_scheme \<Rightarrow> u32 \<times> 'a machine_scheme" where
  "apic_read reg s =
     (let a = apic_base + 4 * ucast (reg div 4)
      in (mmio_in (hw s) (trace s) a, occur (MmioRead a) s))"

definition apic_write :: "u32 \<Rightarrow> u32 \<Rightarrow> 'a machine_scheme \<Rightarrow> 'a machine_scheme" where
  "apic_write reg v s = occur (MmioWrite (apic_base + 4 * ucast (reg div 4)) v) s"

definition get_apic_id :: "'a machine_scheme \<Rightarrow> u64 \<times> 'a machine_scheme" where
  "get_apic_id s =
     (let (v, s) = apic_read 0x20 s in (ucast (drop_bit 24 v AND 0xff), s))"

definition eoi :: "'a machine_scheme \<Rightarrow> 'a machine_scheme" where
  "eoi s = apic_write 0xb0 0 s"

text \<open>A register number that is a multiple of four is the offset of its cell.\<close>

lemma apic_cell:
  assumes "4 dvd unat (reg :: u32)"
  shows "4 * ucast (reg div 4) = (ucast reg :: u64)"
proof (rule unsigned_word_eqI [where 'a = nat])
  have r: "unat (ucast (reg div 4) :: u64) = unat reg div 4"
    by (simp add: unat_div_distrib)
  have "unat reg < 2 ^ 32"
    using unsigned_less [of reg, where ?'a = nat] by simp
  then show "unat (4 * ucast (reg div 4) :: u64) = unat (ucast reg :: u64)"
    using assms r by (subst unat_word_ariths) auto
qed

section \<open>Identification, time and control\<close>

text \<open>\<open>cpuid\<close> returns the registers in the order \<open>eax, ebx, edx, ecx\<close>.\<close>

definition cpuid :: "u32 \<Rightarrow> u32 \<Rightarrow> 'a machine_scheme \<Rightarrow> (u32 \<times> u32 \<times> u32 \<times> u32) \<times> 'a machine_scheme" where
  "cpuid eax ecx s =
     (let (eax', ebx', ecx', edx') = cpuid_in (hw s) (trace s) eax ecx
      in ((eax', ebx', edx', ecx'), occur (Cpuid eax ecx) s))"

definition rdtsc :: "'a machine_scheme \<Rightarrow> u64 \<times> 'a machine_scheme" where
  "rdtsc s =
     (let v = tsc_in (hw s) (trace s);
          high = ucast (drop_bit 32 v) :: u32;
          low = ucast v :: u32
      in (push_bit 32 (ucast high) OR ucast low, occur Rdtsc s))"

text \<open>
  The two bracketing readers execute \<open>cpuid\<close> as a barrier, with whatever \<open>eax\<close> and
  \<open>ecx\<close> hold at that point.
\<close>

definition rdtsc_s :: "u32 \<Rightarrow> u32 \<Rightarrow> 'a machine_scheme \<Rightarrow> u64 \<times> 'a machine_scheme" where
  "rdtsc_s eax ecx s =
     (let (_, s) = cpuid eax ecx s;
          v = tsc_in (hw s) (trace s);
          a = ucast v :: u32;
          d = ucast (drop_bit 32 v) :: u32
      in (ucast a OR push_bit 32 (ucast d), occur Rdtsc s))"

definition rdtsc_e :: "u32 \<Rightarrow> u32 \<Rightarrow> 'a machine_scheme \<Rightarrow> u64 \<times> 'a machine_scheme" where
  "rdtsc_e eax ecx s =
     (let v = tsc_in (hw s) (trace s);
          a = ucast v :: u32;
          d = ucast (drop_bit 32 v) :: u32;
          s = occur Rdtscp s;
          (_, s) = cpuid eax ecx s
      in (ucast a OR push_bit 32 (ucast d), s))"

definition is_bsp :: "'a machine_scheme \<Rightarrow> bool \<times> 'a machine_scheme" where
  "is_bsp s = (let (v, s) = rdmsr 0x1b s in (v AND push_bit 8 1 \<noteq> 0, s))"

definition disable_interrupt :: "'a machine_scheme \<Rightarrow> 'a machine_scheme" where
  "disable_interrupt s = occur Cli s"

definition enable_interrupt :: "'a machine_scheme \<Rightarrow> 'a machine_scheme" where
  "enable_interrupt s = occur Sti s"

definition halt :: "'a machine_scheme \<Rightarrow> 'a machine_scheme" where
  "halt s = occur Hlt s"

definition lfence :: "'a machine_scheme \<Rightarrow> 'a machine_scheme" where
  "lfence s = occur Lfence s"

definition mfence :: "'a machine_scheme \<Rightarrow> 'a machine_scheme" where
  "mfence s = occur Mfence s"

definition invlpg :: "u64 \<Rightarrow> 'a machine_scheme \<Rightarrow> 'a machine_scheme" where
  "invlpg m s = occur (Invlpg m) s"

text \<open>\<open>cpu::recursion\<close> calls itself without end.\<close>

partial_function (option) recursion :: "u64 \<Rightarrow> unit option" where
  "recursion incr = recursion 0"

lemma recursion_no_return: "recursion incr = None"
proof -
  have "recursion incr = Some y \<Longrightarrow> False" for y
    by (rule recursion.raw_induct [of "\<lambda>incr y. False"]) auto
  then show ?thesis by (cases "recursion incr") auto
qed

end
