(* ===== verification/Serial.thy ===== *)
theory Serial
  imports Machine Lock Printf_Spec
begin

text \<open>
  The serial driver, \<open>serial.cc\<close> with \<open>serial.h\<close>, and the entry points of the printf
  library that write to it (\<open>printf_\<close>, \<open>vprintf_\<close> of \<open>printf.cc\<close>).
  The driver sets up the ports the BIOS data area lists and sends each byte to all of them,
  waiting for the transmitter of each.
\<close>

section \<open>State\<close>

text \<open>
  The global \<open>comdevices\<close>, four port numbers of which 0 means no device, and the counters
  of the global ticket lock \<open>spin\<close> that \<open>printf_\<close> takes.
\<close>

record serial_machine = machine +
  device :: "u16 list"
  spin :: lock

text \<open>The bytes written to a port, in the order they were written.\<close>

fun sent :: "u16 \<Rightarrow> event list \<Rightarrow> u8 list" where
  "sent p [] = []"
| "sent p (e # tr) =
     (case e of Outb q v \<Rightarrow> if q = p then sent p tr @ [v] else sent p tr | _ \<Rightarrow> sent p tr)"

lemma sent_inputs [simp]: "sent p (replicate n (Inb q) @ tr) = sent p tr"
  by (induction n) simp_all

section \<open>Initialisation\<close>

definition com_port :: "memory \<Rightarrow> nat \<Rightarrow> u16" where
  "com_port m com_id = load_le m (0x0400 + 2 * of_nat com_id)"

definition init_port :: "u16 \<Rightarrow> 'a machine_scheme \<Rightarrow> 'a machine_scheme" where
  "init_port port s =
     (let s = outb (port + 1) 0x00 s;
          s = outb (port + 3) 0x80 s;
          s = outb (port + 0) 0x01 s;
          s = outb (port + 1) 0x00 s;
          s = outb (port + 2) 0xC7 s;
          s = outb (port + 3) 0x03 s
      in outb (port + 4) 0x0B s)"

definition init_device :: "nat \<Rightarrow> 'a serial_machine_scheme \<Rightarrow> 'a serial_machine_scheme" where
  "init_device com_id s =
     (let port = com_port (mem s) com_id
      in if port = 0 then s\<lparr>device := (device s)[com_id := 0]\<rparr>
         else let s = init_port port s in s\<lparr>device := (device s)[com_id := port]\<rparr>)"

definition init :: "'a serial_machine_scheme \<Rightarrow> 'a serial_machine_scheme" where
  "init s = fold init_device [0..<4] s"

text \<open>\<open>Serial::init\<close> initialises the global device list.\<close>

definition serial_init :: "'a serial_machine_scheme \<Rightarrow> 'a serial_machine_scheme" where
  "serial_init s = init s"

section \<open>Output\<close>

partial_function (option) poll :: "u16 \<Rightarrow> 'a machine_scheme \<Rightarrow> 'a machine_scheme option" where
  "poll dev s = (let (v, s) = inb (dev + 5) s in if v AND 0x20 = 0 then poll dev s else Some s)"

definition write_device :: "char \<Rightarrow> u16 \<Rightarrow> 'a machine_scheme \<Rightarrow> 'a machine_scheme res" where
  "write_device byte dev s =
     (let s = (if byte = CHR 0x0A then outb dev 0x0d s else s)
      in if dev = 0 then Inr s
         else case poll dev s of None \<Rightarrow> Inl NoReturn | Some s \<Rightarrow> Inr (outb dev (of_char byte) s))"

primrec write_devices :: "char \<Rightarrow> u16 list \<Rightarrow> 'a machine_scheme \<Rightarrow> 'a machine_scheme res" where
  "write_devices byte [] s = Inr s"
| "write_devices byte (dev # devs) s =
     rbind (write_device byte dev s) (\<lambda>s. write_devices byte devs s)"

definition write_byte :: "char \<Rightarrow> 'a serial_machine_scheme \<Rightarrow> 'a serial_machine_scheme res" where
  "write_byte byte s = write_devices byte (device s) s"

text \<open>
  \<open>_putchar_serial\<close> as the state change of an output function: nothing happens any more
  once the driver waits for ever.
\<close>

definition putchar_serial :: "char \<Rightarrow> 'a serial_machine_scheme res \<Rightarrow> 'a serial_machine_scheme res" where
  "putchar_serial byte r = rbind r (write_byte byte)"

text \<open>
  \<open>vprintf_\<close>: the buffer is a local array, its address is not null. A fault of the
  formatting is reported in preference to a driver that does not return.
\<close>

definition vprintf_api ::
    "u64 \<Rightarrow> string \<Rightarrow> va_list \<Rightarrow> 'a serial_machine_scheme \<Rightarrow> (u32 \<times> 'a serial_machine_scheme) res" where
  "vprintf_api buffer format va s =
     rbind (vsnprintf (out_char putchar_serial) buffer (- 1) format va (Inr s))
       (\<lambda>(n, r). rbind r (\<lambda>s. Inr (n, s)))"

text \<open>
  \<open>printf_\<close> makes the same call with the lock held. This is the call as one processor
  runs it while the others leave the lock alone: if the ticket is not the one being served,
  the wait does not end.
\<close>

definition printf_api ::
    "u64 \<Rightarrow> string \<Rightarrow> va_list \<Rightarrow> 'a serial_machine_scheme \<Rightarrow> (u32 \<times> 'a serial_machine_scheme) res" where
  "printf_api buffer format va s =
     (let (ticket, l) = take_ticket (spin s);
          s = s\<lparr>spin := l\<rparr>
      in if my_turn (spin s) ticket
         then rbind (vprintf_api buffer format va s) (\<lambda>(ret, s). Inr (ret, s\<lparr>spin := drop_guard (spin s)\<rparr>))
         else Inl NoReturn)"

section \<open>Initialisation: lemmas\<close>

text \<open>
  A 16550 UART seen from its registers: what its documentation says the writes to the
  offsets 0 to 4 do. With the divisor latch access bit set, the offsets 0 and 1 are the
  divisor.
\<close>

record uart =
  divisor_low :: u8
  divisor_high :: u8
  interrupts :: u8
  fifo_control :: u8
  line_control :: u8
  modem_control :: u8

definition uart_write :: "nat \<Rightarrow> u8 \<Rightarrow> uart \<Rightarrow> uart" where
  "uart_write off v u =
     (if off = 0 then (if bit (line_control u) 7 then u\<lparr>divisor_low := v\<rparr> else u)
      else if off = 1 then
        (if bit (line_control u) 7 then u\<lparr>divisor_high := v\<rparr> else u\<lparr>interrupts := v\<rparr>)
      else if off = 2 then u\<lparr>fifo_control := v\<rparr>
      else if off = 3 then u\<lparr>line_control := v\<rparr>
      else if off = 4 then u\<lparr>modem_control := v\<rparr>
      else u)"

text \<open>The state of the UART at a port, after a trace.\<close>

fun uart_after :: "u16 \<Rightarrow> uart \<Rightarrow> event list \<Rightarrow> uart" where
  "uart_after port u [] = u"
| "uart_after port u (e # tr) =
     (case e of Outb q v \<Rightarrow> uart_write (unat (q - port)) v (uart_after port u tr)
      | _ \<Rightarrow> uart_after port u tr)"

lemma init_port_simps [simp]:
  "mem (init_port p s) = mem s" "hw (init_port p s) = hw s"
  "machine.more (init_port p s) = machine.more s"
  by (simp_all add: init_port_def outb_def)

lemma init_port_trace:
  "trace (init_port p s) =
    [Outb (p + 4) 0x0B, Outb (p + 3) 0x03, Outb (p + 2) 0xC7, Outb (p + 1) 0x00, Outb p 0x01,
     Outb (p + 3) 0x80, Outb (p + 1) 0x00] @ trace s"
  by (simp add: init_port_def outb_def)

lemma uart_after_append: "uart_after p u (xs @ tr) = uart_after p (uart_after p u tr) xs"
  by (induction xs) (auto split: event.splits)


text \<open>\<open>115200\<close> baud, eight data bits, no parity, FIFOs on, no interrupts.\<close>

definition uart_ready :: uart where
  "uart_ready = \<lparr>divisor_low = 1, divisor_high = 0, interrupts = 0, fifo_control = 0xC7,
     line_control = 0x03, modem_control = 0x0B\<rparr>"

definition port_block :: "u16 \<Rightarrow> event list" where
  "port_block p =
    [Outb (p + 4) 0x0B, Outb (p + 3) 0x03, Outb (p + 2) 0xC7, Outb (p + 1) 0x00, Outb p 0x01,
     Outb (p + 3) 0x80, Outb (p + 1) 0x00]"

lemma uart_after_own:
  "\<not> bit (line_control u) 7 \<Longrightarrow> uart_after p u (port_block p) = uart_ready"
  by (simp add: port_block_def uart_write_def uart_ready_def bit_numeral_rec)

lemma uart_after_other:
  assumes "\<And>j. j \<le> 4 \<Longrightarrow> 5 \<le> unat (q + of_nat j - p)"
  shows "uart_after p u (port_block q) = u"
proof -
  have far: "uart_write (unat (q + of_nat j - p)) v u = u" if "j \<le> 4" for j v u
    using assms [OF that] by (simp add: uart_write_def)
  show ?thesis
    using far [of 0] far [of 1] far [of 2] far [of 3] far [of 4] by (simp add: port_block_def)
qed

lemma init_device_simps [simp]:
  "mem (init_device i s) = mem s" "hw (init_device i s) = hw s" "spin (init_device i s) = spin s"
  "serial_machine.more (init_device i s) = serial_machine.more s"
  "device (init_device i s) = (device s)[i := com_port (mem s) i]"
  by (simp_all add: init_device_def init_port_def outb_def occur_def Let_def)

lemma init_device_trace:
  "trace (init_device i s) =
    (if com_port (mem s) i = 0 then [] else port_block (com_port (mem s) i)) @ trace s"
  by (simp add: init_device_def init_port_trace port_block_def Let_def)

lemma upt_0_4: "[0..<4] = [0, 1, 2, 3 :: nat]"
  by (simp add: upt_rec)

lemma init_simps [simp]:
  "mem (init s) = mem s" "hw (init s) = hw s" "spin (init s) = spin s"
  "serial_machine.more (init s) = serial_machine.more s"
  by (simp_all add: init_def upt_0_4)

lemma init_device_list:
  "length (device s) = 4 \<Longrightarrow> device (init s) = map (com_port (mem s)) [0..<4]"
  by (auto simp: init_def upt_0_4 numeral_eq_Suc length_Suc_conv)

lemma init_trace:
  "trace (init s) =
    concat (map (\<lambda>p. if p = 0 then [] else port_block p) (rev (map (com_port (mem s)) [0..<4]))) @ trace s"
  by (simp add: init_def upt_0_4 init_device_trace)

text \<open>The ports of two devices: their five registers do not overlap.\<close>

definition apart :: "u16 \<Rightarrow> u16 \<Rightarrow> bool" where
  "apart p q \<longleftrightarrow> (\<forall>j\<in>{0..4 :: nat}. 5 \<le> unat (q + of_nat j - p))"

lemma uart_after_blocks:
  assumes "\<And>q. q \<in> set ps \<Longrightarrow> q = 0 \<or> q = p \<or> apart p q" "\<not> bit (line_control u) 7"
  shows "uart_after p u (concat (map (\<lambda>p. if p = 0 then [] else port_block p) ps)) =
    (if p \<noteq> 0 \<and> p \<in> set ps then uart_ready else u)"
  using assms(1)
proof (induction ps)
  case Nil
  then show ?case by simp
next
  case (Cons q ps)
  let ?u = "uart_after p u (concat (map (\<lambda>p. if p = 0 then [] else port_block p) ps))"
  have u: "?u = (if p \<noteq> 0 \<and> p \<in> set ps then uart_ready else u)"
    using Cons by simp
  then have "\<not> bit (line_control ?u) 7"
    using assms(2) by (simp add: uart_ready_def bit_numeral_rec)
  moreover have "apart p q \<Longrightarrow> uart_after p ?u (port_block q) = ?u"
    by (rule uart_after_other) (auto simp: apart_def)
  moreover have "\<not> apart p p"
    by (auto simp: apart_def intro: bexI [of _ 0])
  ultimately show ?case
    using Cons.prems [of q] u by (auto simp: uart_after_append uart_after_own)
qed

lemma init_uart:
  assumes "p \<in> set (map (com_port (mem s)) [0..<4])" "p \<noteq> 0"
    and "\<And>q. q \<in> set (map (com_port (mem s)) [0..<4]) \<Longrightarrow> q = 0 \<or> q = p \<or> apart p q"
    and "\<not> bit (line_control (uart_after p u (trace s))) 7"
  shows "uart_after p u (trace (init s)) = uart_ready"
  using uart_after_blocks [of "rev (map (com_port (mem s)) [0..<4])" p] assms
  by (simp add: init_trace uart_after_append del: upt_Suc)


section \<open>Output: lemmas\<close>

text \<open>
  The transmitter of a device gets ready: however long it was polled, there is a later read
  of the line status register with bit 5 set.
\<close>

definition thr_ready :: "hardware \<Rightarrow> u16 \<Rightarrow> bool" where
  "thr_ready h dev \<longleftrightarrow>
     (\<forall>tr. \<exists>n. port_in h (replicate n (Inb (dev + 5)) @ tr) (dev + 5) AND 0x20 \<noteq> 0)"

definition polled :: "u16 \<Rightarrow> nat \<Rightarrow> 'a machine_scheme \<Rightarrow> 'a machine_scheme" where
  "polled dev n s = s\<lparr>trace := replicate n (Inb (dev + 5)) @ trace s\<rparr>"

lemma polled_simps [simp]:
  "mem (polled dev n s) = mem s" "hw (polled dev n s) = hw s"
  "trace (polled dev n s) = replicate n (Inb (dev + 5)) @ trace s"
  "machine.more (polled dev n s) = machine.more s"
  by (simp_all add: polled_def)

lemma poll_step:
  "poll dev s =
    (if port_in (hw s) (trace s) (dev + 5) AND 0x20 = 0 then poll dev (polled dev (Suc 0) s)
     else Some (polled dev (Suc 0) s))"
  by (subst poll.simps) (simp add: inb_def polled_def occur_def)

lemma polled_polled: "polled dev n (polled dev (Suc 0) s) = polled dev (Suc n) s"
  by (simp add: polled_def replicate_append_same [symmetric])

lemma poll_Some:
  assumes "poll dev s = Some t"
  shows "\<exists>n. t = polled dev (Suc n) s \<and>
    port_in (hw s) (replicate n (Inb (dev + 5)) @ trace s) (dev + 5) AND 0x20 \<noteq> 0"
proof (rule poll.raw_induct [of "\<lambda>dev s t. \<exists>n. t = polled dev (Suc n) s \<and>
    port_in (hw s) (replicate n (Inb (dev + 5)) @ trace s) (dev + 5) AND 0x20 \<noteq> 0", OF _ assms])
  fix poll' dev and s :: "'a machine_scheme" and t
  assume IH: "\<And>dev s t. poll' dev s = Some t \<Longrightarrow> \<exists>n. t = polled dev (Suc n) s \<and>
      port_in (hw s) (replicate n (Inb (dev + 5)) @ trace s) (dev + 5) AND 0x20 \<noteq> 0"
    and step: "(let (v, s) = inb (dev + 5) s in if v AND 0x20 = 0 then poll' dev s else Some s) = Some t"
  show "\<exists>n. t = polled dev (Suc n) s \<and>
      port_in (hw s) (replicate n (Inb (dev + 5)) @ trace s) (dev + 5) AND 0x20 \<noteq> 0"
  proof (cases "port_in (hw s) (trace s) (dev + 5) AND 0x20 = 0")
    case True
    then have "poll' dev (polled dev (Suc 0) s) = Some t"
      using step by (simp add: inb_def polled_def occur_def)
    from IH [OF this] obtain n where "t = polled dev (Suc n) (polled dev (Suc 0) s)"
      "port_in (hw s) (replicate n (Inb (dev + 5)) @ Inb (dev + 5) # trace s) (dev + 5) AND 0x20 \<noteq> 0"
      by auto
    then show ?thesis
      by (intro exI [of _ "Suc n"]) (simp add: polled_def replicate_app_Cons_same)
  next
    case False
    with step show ?thesis
      by (intro exI [of _ 0]) (simp add: inb_def polled_def occur_def)
  qed
qed

lemma poll_after:
  assumes "port_in (hw s) (replicate n (Inb (dev + 5)) @ trace s) (dev + 5) AND 0x20 \<noteq> 0"
  shows "\<exists>k. poll dev s = Some (polled dev k s)"
  using assms
proof (induction n arbitrary: s)
  case 0
  then show ?case by (subst poll_step) auto
next
  case (Suc n)
  have "\<exists>k. poll dev (polled dev (Suc 0) s) = Some (polled dev k (polled dev (Suc 0) s))"
    using Suc.prems by (intro Suc.IH) (simp add: replicate_app_Cons_same)
  then show ?case
    by (subst poll_step) (auto simp: polled_polled)
qed

lemma poll_ready: "thr_ready (hw s) dev \<Longrightarrow> \<exists>n. poll dev s = Some (polled dev n s)"
  using poll_after unfolding thr_ready_def by blast

lemma poll_None_iff:
  "poll dev s = None \<longleftrightarrow>
    (\<forall>n. port_in (hw s) (replicate n (Inb (dev + 5)) @ trace s) (dev + 5) AND 0x20 = 0)"
  using poll_Some [of dev s] poll_after [of s _ dev] by (cases "poll dev s") fastforce+

text \<open>What one character is on the wire of a device.\<close>

definition wire :: "char \<Rightarrow> u8 list" where
  "wire c = (if c = CHR 0x0A then [0x0d, 0x0a] else [of_char c])"

definition wire_text :: "string \<Rightarrow> u8 list" where
  "wire_text cs = concat (map wire (filter (\<lambda>c. c \<noteq> CHR 0x00) cs))"

text \<open>The driver's frame: only the trace changes, by port accesses.\<close>

fun is_port :: "event \<Rightarrow> bool" where
  "is_port (Outb p v) \<longleftrightarrow> True"
| "is_port (Inb p) \<longleftrightarrow> True"
| "is_port _ \<longleftrightarrow> False"

definition only_trace :: "'a machine_scheme \<Rightarrow> 'a machine_scheme \<Rightarrow> bool" where
  "only_trace s t \<longleftrightarrow> mem t = mem s \<and> hw t = hw s \<and> machine.more t = machine.more s \<and>
     (\<exists>xs. trace t = xs @ trace s \<and> list_all is_port xs)"

lemma only_trace_refl [simp]: "only_trace s s"
  by (simp add: only_trace_def)

lemma only_trace_trans: "only_trace s t \<Longrightarrow> only_trace t u \<Longrightarrow> only_trace s u"
  by (force simp: only_trace_def)

lemma only_trace_polled [simp]: "only_trace s t \<Longrightarrow> only_trace s (polled dev n t)"
  by (force simp: only_trace_def list_all_iff)

lemma only_trace_outb [simp]: "only_trace s t \<Longrightarrow> only_trace s (outb p v t)"
  by (force simp: only_trace_def outb_def)

lemma only_trace_serial:
  "only_trace s t \<Longrightarrow> device t = device s \<and> spin t = spin s \<and> serial_machine.more t = serial_machine.more s"
  by (cases s; cases t) (simp add: only_trace_def)

lemma sent_outb: "sent p (trace (outb q v s)) = sent p (trace s) @ (if p = q then [v] else [])"
  by (simp add: outb_def)

definition ready :: "'a serial_machine_scheme \<Rightarrow> bool" where
  "ready s \<longleftrightarrow> (\<forall>dev \<in> set (device s). dev \<noteq> 0 \<longrightarrow> thr_ready (hw s) dev)"

text \<open>The bytes a character adds at port \<open>p\<close> by way of one device.\<close>

definition device_bytes :: "char \<Rightarrow> u16 \<Rightarrow> u16 \<Rightarrow> u8 list" where
  "device_bytes c p dev =
     (if dev \<noteq> p then []
      else (if c = CHR 0x0A then [0x0d] else []) @ (if dev = 0 then [] else [of_char c]))"

lemma write_device_ready:
  assumes "dev \<noteq> 0 \<Longrightarrow> thr_ready (hw s) dev"
  shows "\<exists>t. write_device c dev s = Inr t \<and> only_trace s t \<and>
    (\<forall>p. sent p (trace t) = sent p (trace s) @ device_bytes c p dev)"
proof (cases "dev = 0")
  case True
  then show ?thesis
    by (auto simp: write_device_def sent_outb device_bytes_def)
next
  case False
  let ?s = "if c = CHR 0x0A then outb dev 0x0d s else s"
  have "hw ?s = hw s"
    by (simp add: outb_def)
  then obtain n where "poll dev ?s = Some (polled dev n ?s)"
    using poll_ready [of ?s dev] assms False by metis
  then show ?thesis
    using False by (auto simp: write_device_def sent_outb device_bytes_def)
qed

lemma write_devices_ready:
  assumes "\<forall>dev \<in> set devs. dev \<noteq> 0 \<longrightarrow> thr_ready (hw s) dev"
  shows "\<exists>t. write_devices c devs s = Inr t \<and> only_trace s t \<and>
    (\<forall>p. sent p (trace t) = sent p (trace s) @ concat (map (device_bytes c p) devs))"
  using assms
proof (induction devs arbitrary: s)
  case Nil
  then show ?case by simp
next
  case (Cons dev devs)
  then obtain t where t: "write_device c dev s = Inr t" "only_trace s t"
    "\<And>p. sent p (trace t) = sent p (trace s) @ device_bytes c p dev"
    using write_device_ready [of dev s c] by auto
  then obtain u where "write_devices c devs t = Inr u" "only_trace t u"
    "\<And>p. sent p (trace u) = sent p (trace t) @ concat (map (device_bytes c p) devs)"
    using Cons.IH [of t] Cons.prems by (auto simp: only_trace_def)
  with t show ?case
    by (auto intro: only_trace_trans)
qed

lemma device_bytes_distinct:
  "p \<noteq> 0 \<Longrightarrow> distinct (filter (\<lambda>d. d \<noteq> 0) devs) \<Longrightarrow>
    concat (map (device_bytes c p) devs) = (if p \<in> set devs then wire c else [])"
proof (induction devs)
  case (Cons d devs)
  then show ?case
    by (cases "d = 0"; cases "d = p") (auto simp: device_bytes_def wire_def)
qed simp


text \<open>The contract of an output function: whatever is printed, only the trace changes.\<close>

lemma poll_only_trace: "poll dev s = Some t \<Longrightarrow> only_trace s t"
  by (drule poll_Some) auto

lemma write_device_only_trace:
  assumes "write_device c dev s = Inr t"
  shows "only_trace s t"
proof -
  let ?s = "if c = CHR 0x0A then outb dev 0x0d s else s"
  have s: "only_trace s ?s"
    by simp
  show ?thesis
  proof (cases "dev = 0")
    case True
    then have "t = ?s"
      using assms by (auto simp: write_device_def)
    with s show ?thesis by simp
  next
    case False
    then obtain u where "poll dev ?s = Some u" "t = outb dev (of_char c) u"
      using assms by (auto simp: write_device_def Let_def split: option.splits)
    then show ?thesis
      using only_trace_trans [OF s poll_only_trace] by simp
  qed
qed

lemma write_devices_only_trace: "write_devices c devs s = Inr t \<Longrightarrow> only_trace s t"
  by (induction devs arbitrary: s)
    (auto simp: rbind_Inr_iff dest!: write_device_only_trace intro: only_trace_trans)

definition serial_frame :: "'a serial_machine_scheme \<Rightarrow> 'a serial_machine_scheme res \<Rightarrow> bool" where
  "serial_frame s r \<longleftrightarrow> (\<forall>t. r = Inr t \<longrightarrow> only_trace s t)"

interpretation serial_sink: sink "out_char putchar_serial" buffer maxlen "serial_frame s"
  for buffer maxlen and s :: "'a serial_machine_scheme"
  by unfold_locales
    (auto simp: serial_frame_def out_char_def putchar_serial_def write_byte_def rbind_Inr_iff
      dest!: write_devices_only_trace intro: only_trace_trans)

lemma vprintf_frame: "vprintf_api b format va s = Inr (n, t) \<Longrightarrow> only_trace s t"
proof -
  assume "vprintf_api b format va s = Inr (n, t)"
  then have "vsnprintf (out_char putchar_serial) b (- 1) format va (Inr s) = Inr (n, Inr t)"
    by (auto simp: vprintf_api_def rbind_Inr_iff)
  from serial_sink.vsnprintf_sinv [OF this, of s] show "only_trace s t"
    by (simp add: serial_frame_def)
qed

text \<open>A text, sent to devices that all get ready.\<close>

lemma emit_serial:
  assumes "ready s"
  shows "\<exists>t. snd (emit (out_char putchar_serial) b m cs (i, Inr s)) = Inr t \<and> only_trace s t \<and>
    (\<forall>p. sent p (trace t) = sent p (trace s) @
      concat (map (\<lambda>c. concat (map (device_bytes c p) (device s))) (filter (\<lambda>c. c \<noteq> CHR 0x00) cs)))"
  using assms
proof (induction cs arbitrary: i s)
  case Nil
  then show ?case by simp
next
  case (Cons c cs)
  show ?case
  proof (cases "c = CHR 0x00")
    case True
    with Cons show ?thesis by (simp add: put_def out_char_def)
  next
    case False
    obtain t where t: "write_byte c s = Inr t" "only_trace s t"
      "\<And>p. sent p (trace t) = sent p (trace s) @ concat (map (device_bytes c p) (device s))"
      using write_devices_ready [of "device s" s c] Cons.prems by (auto simp: ready_def write_byte_def)
    then have "ready t" "device t = device s"
      using Cons.prems only_trace_serial [OF t(2)] by (auto simp: ready_def only_trace_def)
    with Cons.IH [of t "i + 1"] obtain u where
      "snd (emit (out_char putchar_serial) b m cs (i + 1, Inr t)) = Inr u" "only_trace t u"
      "\<And>p. sent p (trace u) = sent p (trace t) @
        concat (map (\<lambda>c. concat (map (device_bytes c p) (device s))) (filter (\<lambda>c. c \<noteq> CHR 0x00) cs))"
      by auto
    moreover have "put (out_char putchar_serial) b m c (i, Inr s) = (i + 1, Inr t)"
      using t(1) False by (simp add: put_def out_char_def putchar_serial_def)
    ultimately show ?thesis
      using t False by (auto intro: only_trace_trans)
  qed
qed

lemma vprintf_sent:
  assumes "format_text format va = Inr cs" "b \<noteq> 0" "ready s"
    and "distinct (filter (\<lambda>d. d \<noteq> 0) (device s))"
  shows "\<exists>t. vprintf_api b format va s = Inr (of_nat (length cs), t) \<and> only_trace s t \<and>
    (\<forall>p. p \<noteq> 0 \<longrightarrow> sent p (trace t) =
      sent p (trace s) @ (if p \<in> set (device s) then wire_text cs else []))"
proof -
  obtain t where t: "snd (emit (out_char putchar_serial) b (- 1) cs (0, Inr s)) = Inr t" "only_trace s t"
    "\<And>p. sent p (trace t) = sent p (trace s) @
      concat (map (\<lambda>c. concat (map (device_bytes c p) (device s))) (filter (\<lambda>c. c \<noteq> CHR 0x00) cs))"
    using emit_serial [OF assms(3)] by blast
  have "vprintf_api b format va s = Inr (of_nat (length cs), t)"
    using assms(1,2) t(1) by (simp add: vprintf_api_def vsnprintf_text Let_def out_char_def)
  moreover have "concat (map (\<lambda>c. if p \<in> set (device s) then wire c else []) xs) =
      (if p \<in> set (device s) then concat (map wire xs) else [])" for p xs
    by (induction xs) auto
  ultimately show ?thesis
    using t assms(4) by (auto simp: device_bytes_distinct wire_text_def)
qed

text \<open>A device that is absent, port 0, is not polled, but gets the carriage returns.\<close>

lemma device_bytes_absent:
  "concat (map (device_bytes c 0) devs) =
    (if c = CHR 0x0A then replicate (count_list devs 0) 0x0d else [])"
  by (induction devs) (auto simp: device_bytes_def)

lemma vprintf_absent:
  assumes "format_text format va = Inr cs" "b \<noteq> 0" "ready s"
  shows "\<exists>t. vprintf_api b format va s = Inr (of_nat (length cs), t) \<and>
    sent 0 (trace t) = sent 0 (trace s) @ replicate (count_list cs CHR 0x0A * count_list (device s) 0) 0x0d"
proof -
  obtain t where t: "snd (emit (out_char putchar_serial) b (- 1) cs (0, Inr s)) = Inr t"
    "\<And>p. sent p (trace t) = sent p (trace s) @
      concat (map (\<lambda>c. concat (map (device_bytes c p) (device s))) (filter (\<lambda>c. c \<noteq> CHR 0x00) cs))"
    using emit_serial [OF assms(3)] by blast
  have "vprintf_api b format va s = Inr (of_nat (length cs), t)"
    using assms(1,2) t(1) by (simp add: vprintf_api_def vsnprintf_text Let_def out_char_def)
  moreover have "concat (map (\<lambda>c. if c = CHR 0x0A then replicate n x else []) (filter (\<lambda>c. c \<noteq> CHR 0x00) cs)) =
      replicate (count_list cs CHR 0x0A * n) x" for n and x :: u8
    by (induction cs) (auto simp: replicate_add)
  ultimately show ?thesis
    using t(2) [of 0] by (simp add: device_bytes_absent)
qed

text \<open>With the lock: the text is sent when nobody holds it, and otherwise the call waits for ever.\<close>

lemma printf_sent:
  assumes "format_text format va = Inr cs" "b \<noteq> 0" "ready s"
    and "distinct (filter (\<lambda>d. d \<noteq> 0) (device s))" "release (spin s) = acquire (spin s)"
  shows "\<exists>t. printf_api b format va s = Inr (of_nat (length cs), t) \<and>
    mem t = mem s \<and> device t = device s \<and> hw t = hw s \<and> release (spin t) = acquire (spin t) \<and>
    (\<forall>p. p \<noteq> 0 \<longrightarrow> sent p (trace t) =
      sent p (trace s) @ (if p \<in> set (device s) then wire_text cs else []))"
proof -
  let ?s = "s\<lparr>spin := (spin s)\<lparr>acquire := acquire (spin s) + 1\<rparr>\<rparr>"
  have "ready ?s"
    using assms(3) by (simp add: ready_def)
  with vprintf_sent [of format va cs b ?s] assms obtain t where
    t: "vprintf_api b format va ?s = Inr (of_nat (length cs), t)" "only_trace ?s t"
    "\<And>p. p \<noteq> 0 \<Longrightarrow> sent p (trace t) =
      sent p (trace s) @ (if p \<in> set (device s) then wire_text cs else [])"
    by auto
  have "printf_api b format va s = Inr (of_nat (length cs), t\<lparr>spin := drop_guard (spin t)\<rparr>)"
    using t(1) assms(5) by (simp add: printf_api_def take_ticket_def my_turn_def)
  then show ?thesis
    using t only_trace_serial [OF t(2)] assms(5) by (auto simp: only_trace_def drop_guard_def)
qed

lemma printf_held:
  "release (spin s) \<noteq> acquire (spin s) \<Longrightarrow> printf_api b format va s = Inl NoReturn"
  by (simp add: printf_api_def take_ticket_def my_turn_def)

end
