(* ===== verification/Layout.thy ===== *)
theory Layout
  imports Memory
begin

text \<open>
  The packed structures the kernel reads and writes through pointers: the ACPI tables of
  \<open>apic.cc\<close>, the operand of \<open>lidt\<close> of \<open>interrupt.cc\<close>, and the register frames and the memory
  map entries of \<open>misc/cpu.h\<close>. A structure is a record with a function that loads its fields
  from their offsets. That these are the offsets of the declaration is the law of the locale
  \<open>packed\<close>: the fields follow each other in the order they are declared, without padding.
\<close>

section \<open>Fields of a block of bytes\<close>

lemma length_load_bytes [simp]: "length (load_bytes m a n) = n"
  by (simp add: load_bytes_def)

lemma load_bytes_part:
  assumes "k + w \<le> n"
  shows "load_bytes m (a + of_nat k) w = take w (drop k (load_bytes m a n))"
  using assms by (intro nth_equalityI) (simp_all add: load_bytes_def add.assoc)

lemma load_byte_part: "k < n \<Longrightarrow> m (a + of_nat k) = load_bytes m a n ! k"
  by (simp add: load_bytes_def)

lemma load_le_part:
  assumes "k + LENGTH('a) div 8 \<le> n"
  shows "(load_le m (a + of_nat k) :: 'a::len word) = bytes_word (take (LENGTH('a) div 8) (drop k (load_bytes m a n)))"
  by (simp add: load_le_def load_bytes_part [OF assms])

lemma bytes_word_eq [simp]:
  "bytes_word (word_bytes w) = (w :: u16)" "bytes_word (word_bytes v) = (v :: u32)"
  "bytes_word (word_bytes u) = (u :: u64)"
  by (simp_all add: bytes_word_word_bytes)

lemma word_bytes_bytes_word:
  assumes "length bs = LENGTH('a) div 8" "8 dvd LENGTH('a)"
  shows "word_bytes (bytes_word bs :: 'a::len word) = bs"
proof (rule nth_equalityI)
  show "length (word_bytes (bytes_word bs :: 'a word)) = length bs"
    using assms(1) by simp
  fix i assume "i < length (word_bytes (bytes_word bs :: 'a word))"
  then have i: "i < LENGTH('a) div 8"
    by simp
  show "word_bytes (bytes_word bs :: 'a word) ! i = bs ! i"
  proof (rule bit_word_eqI)
    fix k assume "k < LENGTH(8)"
    then have k: "k < 8" "8 * i + k < LENGTH('a)" "(8 * i + k) div 8 = i" "(8 * i + k) mod 8 = k"
      using i assms(2) by (auto elim!: dvdE)
    then show "bit (word_bytes (bytes_word bs :: 'a word) ! i) k \<longleftrightarrow> bit (bs ! i) k"
      using i assms(1) by (simp add: word_bytes_def bit_simps bit_bytes_word)
  qed
qed

lemma word_bytes_load [simp]:
  "word_bytes (load_le m a :: u16) = load_bytes m a 2" "word_bytes (load_le m a :: u32) = load_bytes m a 4"
  "word_bytes (load_le m a :: u64) = load_bytes m a 8"
  by (simp_all add: load_le_def word_bytes_bytes_word)

lemma load_bytes_append: "load_bytes m a k @ load_bytes m (a + of_nat k) n = load_bytes m a (k + n)"
  by (rule nth_equalityI) (auto simp: load_bytes_def nth_append add.assoc of_nat_diff)

text \<open>
  The interface of a packed structure: its bytes, in the order of the fields, as many as
  \<open>sizeof\<close> says; and the load of the structure from a block of memory that holds them.
\<close>

locale packed =
  fixes size :: nat
    and bytes_of :: "'r \<Rightarrow> u8 list"
    and load :: "memory \<Rightarrow> u64 \<Rightarrow> 'r"
    and ok :: "'r \<Rightarrow> bool"
  assumes length_bytes: "ok r \<Longrightarrow> length (bytes_of r) = size"
    and load_from: "ok r \<Longrightarrow> load_bytes m a size = bytes_of r \<Longrightarrow> load m a = r"
    and load_ok: "ok (load m a)"
    and bytes_load: "bytes_of (load m a) = load_bytes m a size"
    and small: "size < 2 ^ 64"
begin

lemma load_store: "ok r \<Longrightarrow> load (store_bytes a (bytes_of r) m) a = r"
  using load_store_bytes [of "bytes_of r" a m] length_bytes small by (intro load_from) simp_all

text \<open>A structure depends on its own bytes only.\<close>

lemma load_cong:
  assumes "\<And>i. i < size \<Longrightarrow> m' (a + of_nat i) = m (a + of_nat i)"
  shows "load m' a = load m a"
proof (rule load_from [OF load_ok])
  show "load_bytes m' a size = bytes_of (load m a)"
    using assms by (simp add: bytes_load) (simp add: load_bytes_def)
qed

end

section \<open>The ACPI tables\<close>

record rsdp =
  rsdp_signature :: "u8 list"
  rsdp_checksum :: u8
  rsdp_oem_id :: "u8 list"
  rsdp_revision :: u8
  rsdt_addr :: u32
  rsdp_length :: u32
  rsdp_xsdt :: u64
  rsdp_checksum2 :: u8
  rsdp_reserved :: "u8 list"

definition sizeof_rsdp :: nat where "sizeof_rsdp = 36"

definition load_rsdp :: "memory \<Rightarrow> u64 \<Rightarrow> rsdp" where
  "load_rsdp m a =
     \<lparr>rsdp_signature = load_bytes m a 8, rsdp_checksum = m (a + 8), rsdp_oem_id = load_bytes m (a + 9) 6,
      rsdp_revision = m (a + 15), rsdt_addr = load_le m (a + 16), rsdp_length = load_le m (a + 20),
      rsdp_xsdt = load_le m (a + 24), rsdp_checksum2 = m (a + 32), rsdp_reserved = load_bytes m (a + 33) 3\<rparr>"

definition rsdp_bytes :: "rsdp \<Rightarrow> u8 list" where
  "rsdp_bytes r = rsdp_signature r @ [rsdp_checksum r] @ rsdp_oem_id r @ [rsdp_revision r] @
     word_bytes (rsdt_addr r) @ word_bytes (rsdp_length r) @ word_bytes (rsdp_xsdt r) @
     [rsdp_checksum2 r] @ rsdp_reserved r"

definition rsdp_ok :: "rsdp \<Rightarrow> bool" where
  "rsdp_ok r \<longleftrightarrow> length (rsdp_signature r) = 8 \<and> length (rsdp_oem_id r) = 6 \<and> length (rsdp_reserved r) = 3"

interpretation rsdp_layout: packed sizeof_rsdp rsdp_bytes load_rsdp rsdp_ok
proof
  fix r m a
  assume r: "rsdp_ok r" and b: "load_bytes m a sizeof_rsdp = rsdp_bytes r"
  note part = load_bytes_part [of _ _ 36 m a] load_byte_part [of _ 36 m a] load_le_part [of _ 36 m a]
  show "load_rsdp m a = r"
    using r b part(1) [of 0 8] part(2) [of 8] part(1) [of 9 6] part(2) [of 15] part(3) [of 16, where ?'a = 32]
      part(3) [of 20, where ?'a = 32] part(3) [of 24, where ?'a = 64] part(2) [of 32] part(1) [of 33 3]
    by (simp add: load_rsdp_def rsdp_ok_def sizeof_rsdp_def rsdp_bytes_def nth_append)
next
  fix m a
  show "rsdp_bytes (load_rsdp m a) = load_bytes m a sizeof_rsdp"
    by (simp add: rsdp_bytes_def load_rsdp_def sizeof_rsdp_def load_bytes_def upt_rec add.assoc)
qed (simp_all add: rsdp_ok_def rsdp_bytes_def sizeof_rsdp_def load_rsdp_def)

text \<open>
  The header of a table; the flexible array \<open>payload\<close> begins where it ends, and
  \<open>sizeof (struct acpisdt)\<close> is the size of the header.
\<close>

record acpisdt =
  sdt_signature :: "u8 list"
  sdt_length :: u32
  sdt_revision :: u8
  sdt_checksum :: u8
  sdt_oem_id :: "u8 list"
  sdt_oem_table_id :: "u8 list"
  sdt_oem_revision :: u32
  sdt_creator_id :: u32
  sdt_creator_revision :: u32

definition sizeof_acpisdt :: nat where "sizeof_acpisdt = 36"

definition load_acpisdt :: "memory \<Rightarrow> u64 \<Rightarrow> acpisdt" where
  "load_acpisdt m a =
     \<lparr>sdt_signature = load_bytes m a 4, sdt_length = load_le m (a + 4),
      sdt_revision = m (a + 8), sdt_checksum = m (a + 9), sdt_oem_id = load_bytes m (a + 10) 6,
      sdt_oem_table_id = load_bytes m (a + 16) 8, sdt_oem_revision = load_le m (a + 24),
      sdt_creator_id = load_le m (a + 28), sdt_creator_revision = load_le m (a + 32)\<rparr>"

definition acpisdt_bytes :: "acpisdt \<Rightarrow> u8 list" where
  "acpisdt_bytes r =
     sdt_signature r @ word_bytes (sdt_length r) @ [sdt_revision r] @ [sdt_checksum r] @
     sdt_oem_id r @ sdt_oem_table_id r @ word_bytes (sdt_oem_revision r) @
     word_bytes (sdt_creator_id r) @ word_bytes (sdt_creator_revision r)"

definition acpisdt_ok :: "acpisdt \<Rightarrow> bool" where
  "acpisdt_ok r \<longleftrightarrow> length (sdt_signature r) = 4 \<and> length (sdt_oem_id r) = 6 \<and> length (sdt_oem_table_id r) = 8"

interpretation acpisdt_layout: packed sizeof_acpisdt acpisdt_bytes load_acpisdt acpisdt_ok
proof
  fix r m a
  assume r: "acpisdt_ok r" and b: "load_bytes m a sizeof_acpisdt = acpisdt_bytes r"
  note part = load_bytes_part [of _ _ 36 m a] load_byte_part [of _ 36 m a] load_le_part [of _ 36 m a]
  show "load_acpisdt m a = r"
    using r b part(1) [of 0 4] part(3) [of 4, where ?'a = 32] part(2) [of 8] part(2) [of 9]
      part(1) [of 10 6] part(1) [of 16 8] part(3) [of 24, where ?'a = 32]
      part(3) [of 28, where ?'a = 32] part(3) [of 32, where ?'a = 32]
    by (simp add: load_acpisdt_def acpisdt_ok_def sizeof_acpisdt_def acpisdt_bytes_def nth_append)
next
  fix m a
  show "acpisdt_bytes (load_acpisdt m a) = load_bytes m a sizeof_acpisdt"
    by (simp add: acpisdt_bytes_def load_acpisdt_def sizeof_acpisdt_def load_bytes_def upt_rec add.assoc)
qed (simp_all add: acpisdt_ok_def acpisdt_bytes_def sizeof_acpisdt_def load_acpisdt_def)

definition acpisdt_payload :: "u64 \<Rightarrow> u64" where
  "acpisdt_payload a = a + of_nat sizeof_acpisdt"

text \<open>What follows the header of the MADT, again with a \<open>payload\<close> behind it.\<close>

record acpi_madt =
  madt_lapic_addr :: u32
  madt_reserved :: u32

definition sizeof_acpi_madt :: nat where "sizeof_acpi_madt = 8"

definition load_acpi_madt :: "memory \<Rightarrow> u64 \<Rightarrow> acpi_madt" where
  "load_acpi_madt m a =
     \<lparr>madt_lapic_addr = load_le m a, madt_reserved = load_le m (a + 4)\<rparr>"

definition acpi_madt_bytes :: "acpi_madt \<Rightarrow> u8 list" where
  "acpi_madt_bytes r =
     word_bytes (madt_lapic_addr r) @ word_bytes (madt_reserved r)"

definition acpi_madt_ok :: "acpi_madt \<Rightarrow> bool" where
  "acpi_madt_ok r \<longleftrightarrow> True"

interpretation acpi_madt_layout: packed sizeof_acpi_madt acpi_madt_bytes load_acpi_madt acpi_madt_ok
proof
  fix r m a
  assume r: "acpi_madt_ok r" and b: "load_bytes m a sizeof_acpi_madt = acpi_madt_bytes r"
  note part = load_bytes_part [of _ _ 8 m a] load_byte_part [of _ 8 m a] load_le_part [of _ 8 m a]
  show "load_acpi_madt m a = r"
    using r b part(3) [of 0, where ?'a = 32] part(3) [of 4, where ?'a = 32]
    by (simp add: load_acpi_madt_def acpi_madt_ok_def sizeof_acpi_madt_def acpi_madt_bytes_def nth_append)
next
  fix m a
  show "acpi_madt_bytes (load_acpi_madt m a) = load_bytes m a sizeof_acpi_madt"
    by (simp add: acpi_madt_bytes_def load_acpi_madt_def sizeof_acpi_madt_def load_bytes_def upt_rec add.assoc)
qed (simp_all add: acpi_madt_ok_def acpi_madt_bytes_def sizeof_acpi_madt_def load_acpi_madt_def)

definition madt_payload :: "memory \<Rightarrow> u64 \<Rightarrow> nat \<Rightarrow> u8" where
  "madt_payload m a k = m (a + of_nat (sizeof_acpi_madt + k))"

lemma payload_simps [simp]:
  "acpisdt_payload a = a + 36" "madt_payload m a 0 = m (a + 8)" "madt_payload m a (Suc 0) = m (a + 9)"
  "madt_payload m a 2 = m (a + 10)"
  by (simp_all add: acpisdt_payload_def sizeof_acpisdt_def madt_payload_def sizeof_acpi_madt_def)

text \<open>The fields the code reads.\<close>

lemma table_fields [simp]:
  "rsdt_addr (load_rsdp m a) = load_le m (a + 16)" "sdt_length (load_acpisdt m a) = load_le m (a + 4)"
  by (simp_all add: load_rsdp_def load_acpisdt_def)

section \<open>Interrupts\<close>

text \<open>
  A gate of the interrupt descriptor table. Its six bit-fields share a 16-bit unit: \<open>ist\<close> has
  the bits 0 to 2, \<open>res0\<close> 3 to 7, \<open>type\<close> 8 to 11, \<open>res1\<close> 12, \<open>dpl\<close> 13 and 14, \<open>present\<close> 15.
\<close>

record idt_desc =
  desc_offset_1 :: u16
  desc_selector :: u16
  desc_unit :: u16
  desc_offset_2 :: u16
  desc_offset_3 :: u32
  desc_res2 :: u32

definition sizeof_idt_desc :: nat where [simp]: "sizeof_idt_desc = 16"

definition load_idt_desc :: "memory \<Rightarrow> u64 \<Rightarrow> idt_desc" where
  "load_idt_desc m a =
     \<lparr>desc_offset_1 = load_le m a, desc_selector = load_le m (a + 2), desc_unit = load_le m (a + 4),
      desc_offset_2 = load_le m (a + 6), desc_offset_3 = load_le m (a + 8), desc_res2 = load_le m (a + 12)\<rparr>"

definition idt_desc_bytes :: "idt_desc \<Rightarrow> u8 list" where
  "idt_desc_bytes r =
     word_bytes (desc_offset_1 r) @ word_bytes (desc_selector r) @ word_bytes (desc_unit r) @
     word_bytes (desc_offset_2 r) @ word_bytes (desc_offset_3 r) @ word_bytes (desc_res2 r)"

interpretation idt_desc_layout: packed sizeof_idt_desc idt_desc_bytes load_idt_desc "\<lambda>_. True"
proof
  fix r m a
  assume b: "load_bytes m a sizeof_idt_desc = idt_desc_bytes r"
  note part = load_le_part [of _ 16 m a]
  show "load_idt_desc m a = r"
    using b part [of 0, where ?'a = 16] part [of 2, where ?'a = 16] part [of 4, where ?'a = 16]
      part [of 6, where ?'a = 16] part [of 8, where ?'a = 32] part [of 12, where ?'a = 32]
    by (simp add: load_idt_desc_def idt_desc_bytes_def)
next
  fix m a
  show "idt_desc_bytes (load_idt_desc m a) = load_bytes m a sizeof_idt_desc"
    by (simp add: idt_desc_bytes_def load_idt_desc_def load_bytes_def upt_rec add.assoc)
qed (simp_all add: idt_desc_bytes_def)

text \<open>The operand of \<open>lidt\<close>.\<close>

record idt_reg =
  idt_limit :: u16
  idt_base_address :: u64

definition sizeof_idt_reg :: nat where "sizeof_idt_reg = 10"

definition load_idt_reg :: "memory \<Rightarrow> u64 \<Rightarrow> idt_reg" where
  "load_idt_reg m a =
     \<lparr>idt_limit = load_le m a, idt_base_address = load_le m (a + 2)\<rparr>"

definition idt_reg_bytes :: "idt_reg \<Rightarrow> u8 list" where
  "idt_reg_bytes r =
     word_bytes (idt_limit r) @ word_bytes (idt_base_address r)"

definition idt_reg_ok :: "idt_reg \<Rightarrow> bool" where
  "idt_reg_ok r \<longleftrightarrow> True"

interpretation idt_reg_layout: packed sizeof_idt_reg idt_reg_bytes load_idt_reg idt_reg_ok
proof
  fix r m a
  assume r: "idt_reg_ok r" and b: "load_bytes m a sizeof_idt_reg = idt_reg_bytes r"
  note part = load_bytes_part [of _ _ 10 m a] load_byte_part [of _ 10 m a] load_le_part [of _ 10 m a]
  show "load_idt_reg m a = r"
    using r b part(3) [of 0, where ?'a = 16] part(3) [of 2, where ?'a = 64]
    by (simp add: load_idt_reg_def idt_reg_ok_def sizeof_idt_reg_def idt_reg_bytes_def nth_append)
next
  fix m a
  show "idt_reg_bytes (load_idt_reg m a) = load_bytes m a sizeof_idt_reg"
    by (simp add: idt_reg_bytes_def load_idt_reg_def sizeof_idt_reg_def load_bytes_def upt_rec add.assoc)
qed (simp_all add: idt_reg_ok_def idt_reg_bytes_def sizeof_idt_reg_def load_idt_reg_def)

text \<open>What the processor pushes on an interrupt, from the lowest address on.\<close>

record interrupt_frame =
  frame_rip :: u64
  frame_cs :: u64
  frame_rflags :: u64
  frame_rsp :: u64
  frame_ss :: u64

definition sizeof_interrupt_frame :: nat where "sizeof_interrupt_frame = 40"

definition load_interrupt_frame :: "memory \<Rightarrow> u64 \<Rightarrow> interrupt_frame" where
  "load_interrupt_frame m a =
     \<lparr>frame_rip = load_le m a, frame_cs = load_le m (a + 8),
      frame_rflags = load_le m (a + 16), frame_rsp = load_le m (a + 24),
      frame_ss = load_le m (a + 32)\<rparr>"

definition interrupt_frame_bytes :: "interrupt_frame \<Rightarrow> u8 list" where
  "interrupt_frame_bytes r =
     word_bytes (frame_rip r) @ word_bytes (frame_cs r) @ word_bytes (frame_rflags r) @
     word_bytes (frame_rsp r) @ word_bytes (frame_ss r)"

definition interrupt_frame_ok :: "interrupt_frame \<Rightarrow> bool" where
  "interrupt_frame_ok r \<longleftrightarrow> True"

interpretation interrupt_frame_layout: packed sizeof_interrupt_frame interrupt_frame_bytes load_interrupt_frame interrupt_frame_ok
proof
  fix r m a
  assume r: "interrupt_frame_ok r" and b: "load_bytes m a sizeof_interrupt_frame = interrupt_frame_bytes r"
  note part = load_bytes_part [of _ _ 40 m a] load_byte_part [of _ 40 m a] load_le_part [of _ 40 m a]
  show "load_interrupt_frame m a = r"
    using r b part(3) [of 0, where ?'a = 64] part(3) [of 8, where ?'a = 64]
      part(3) [of 16, where ?'a = 64] part(3) [of 24, where ?'a = 64]
      part(3) [of 32, where ?'a = 64]
    by (simp add: load_interrupt_frame_def interrupt_frame_ok_def sizeof_interrupt_frame_def interrupt_frame_bytes_def nth_append)
next
  fix m a
  show "interrupt_frame_bytes (load_interrupt_frame m a) = load_bytes m a sizeof_interrupt_frame"
    by (simp add: interrupt_frame_bytes_def load_interrupt_frame_def sizeof_interrupt_frame_def load_bytes_def upt_rec add.assoc)
qed (simp_all add: interrupt_frame_ok_def interrupt_frame_bytes_def sizeof_interrupt_frame_def load_interrupt_frame_def)

text \<open>The general registers, as \<open>struct registers\<close> declares them.\<close>

record registers =
  reg_r8 :: u64
  reg_r9 :: u64
  reg_r10 :: u64
  reg_r11 :: u64
  reg_r12 :: u64
  reg_r13 :: u64
  reg_r14 :: u64
  reg_r15 :: u64
  reg_rbp :: u64
  reg_rsi :: u64
  reg_rdi :: u64
  reg_rdx :: u64
  reg_rcx :: u64
  reg_rbx :: u64
  reg_rax :: u64

definition sizeof_registers :: nat where "sizeof_registers = 120"

definition load_registers :: "memory \<Rightarrow> u64 \<Rightarrow> registers" where
  "load_registers m a =
     \<lparr>reg_r8 = load_le m a, reg_r9 = load_le m (a + 8), reg_r10 = load_le m (a + 16),
      reg_r11 = load_le m (a + 24), reg_r12 = load_le m (a + 32), reg_r13 = load_le m (a + 40),
      reg_r14 = load_le m (a + 48), reg_r15 = load_le m (a + 56), reg_rbp = load_le m (a + 64),
      reg_rsi = load_le m (a + 72), reg_rdi = load_le m (a + 80), reg_rdx = load_le m (a + 88),
      reg_rcx = load_le m (a + 96), reg_rbx = load_le m (a + 104), reg_rax = load_le m (a + 112)\<rparr>"

definition registers_bytes :: "registers \<Rightarrow> u8 list" where
  "registers_bytes r =
     word_bytes (reg_r8 r) @ word_bytes (reg_r9 r) @ word_bytes (reg_r10 r) @
     word_bytes (reg_r11 r) @ word_bytes (reg_r12 r) @ word_bytes (reg_r13 r) @
     word_bytes (reg_r14 r) @ word_bytes (reg_r15 r) @ word_bytes (reg_rbp r) @
     word_bytes (reg_rsi r) @ word_bytes (reg_rdi r) @ word_bytes (reg_rdx r) @
     word_bytes (reg_rcx r) @ word_bytes (reg_rbx r) @ word_bytes (reg_rax r)"

definition registers_ok :: "registers \<Rightarrow> bool" where
  "registers_ok r \<longleftrightarrow> True"

interpretation registers_layout: packed sizeof_registers registers_bytes load_registers registers_ok
proof
  fix r m a
  assume r: "registers_ok r" and b: "load_bytes m a sizeof_registers = registers_bytes r"
  note part = load_bytes_part [of _ _ 120 m a] load_byte_part [of _ 120 m a] load_le_part [of _ 120 m a]
  show "load_registers m a = r"
    using r b part(3) [of 0, where ?'a = 64] part(3) [of 8, where ?'a = 64]
      part(3) [of 16, where ?'a = 64] part(3) [of 24, where ?'a = 64]
      part(3) [of 32, where ?'a = 64] part(3) [of 40, where ?'a = 64]
      part(3) [of 48, where ?'a = 64] part(3) [of 56, where ?'a = 64]
      part(3) [of 64, where ?'a = 64] part(3) [of 72, where ?'a = 64]
      part(3) [of 80, where ?'a = 64] part(3) [of 88, where ?'a = 64]
      part(3) [of 96, where ?'a = 64] part(3) [of 104, where ?'a = 64]
      part(3) [of 112, where ?'a = 64]
    by (simp add: load_registers_def registers_ok_def sizeof_registers_def registers_bytes_def nth_append)
next
  fix m a
  show "registers_bytes (load_registers m a) = load_bytes m a sizeof_registers"
    by (simp add: registers_bytes_def load_registers_def sizeof_registers_def load_bytes_def upt_rec add.assoc)
qed (simp_all add: registers_ok_def registers_bytes_def sizeof_registers_def load_registers_def)

text \<open>The fields that are read.\<close>

lemma idt_fields [simp]:
  "idt_limit (load_idt_reg m a) = load_le m a" "idt_base_address (load_idt_reg m a) = load_le m (a + 2)"
  by (simp_all add: load_idt_reg_def)

lemma frame_field [simp]: "frame_rip (load_interrupt_frame m a) = load_le m a"
  by (simp add: load_interrupt_frame_def)

section \<open>The memory map\<close>

record e20_entry =
  e20_base :: u64
  e20_len :: u64
  e20_type :: u32
  e20_res0 :: u32

definition sizeof_e20_entry :: nat where "sizeof_e20_entry = 24"

definition load_e20_entry :: "memory \<Rightarrow> u64 \<Rightarrow> e20_entry" where
  "load_e20_entry m a =
     \<lparr>e20_base = load_le m a, e20_len = load_le m (a + 8), e20_type = load_le m (a + 16),
      e20_res0 = load_le m (a + 20)\<rparr>"

definition e20_entry_bytes :: "e20_entry \<Rightarrow> u8 list" where
  "e20_entry_bytes r =
     word_bytes (e20_base r) @ word_bytes (e20_len r) @ word_bytes (e20_type r) @
     word_bytes (e20_res0 r)"

definition e20_entry_ok :: "e20_entry \<Rightarrow> bool" where
  "e20_entry_ok r \<longleftrightarrow> True"

interpretation e20_entry_layout: packed sizeof_e20_entry e20_entry_bytes load_e20_entry e20_entry_ok
proof
  fix r m a
  assume r: "e20_entry_ok r" and b: "load_bytes m a sizeof_e20_entry = e20_entry_bytes r"
  note part = load_bytes_part [of _ _ 24 m a] load_byte_part [of _ 24 m a] load_le_part [of _ 24 m a]
  show "load_e20_entry m a = r"
    using r b part(3) [of 0, where ?'a = 64] part(3) [of 8, where ?'a = 64]
      part(3) [of 16, where ?'a = 32] part(3) [of 20, where ?'a = 32]
    by (simp add: load_e20_entry_def e20_entry_ok_def sizeof_e20_entry_def e20_entry_bytes_def nth_append)
next
  fix m a
  show "e20_entry_bytes (load_e20_entry m a) = load_bytes m a sizeof_e20_entry"
    by (simp add: e20_entry_bytes_def load_e20_entry_def sizeof_e20_entry_def load_bytes_def upt_rec add.assoc)
qed (simp_all add: e20_entry_ok_def e20_entry_bytes_def sizeof_e20_entry_def load_e20_entry_def)

lemma e20_fields [simp]:
  "e20_base (load_e20_entry m a) = load_le m a" "e20_len (load_e20_entry m a) = load_le m (a + 8)"
  "e20_type (load_e20_entry m a) = load_le m (a + 16)"
  by (simp_all add: load_e20_entry_def)

end
