(* ===== verification/Interrupt.thy ===== *)
theory Interrupt
  imports Serial Layout
begin

text \<open>
  \<open>interrupt.cc\<close>: the interrupt descriptor table, built in memory gate by gate, and the
  handler the assembly stubs call. The addresses of the table, of the \<open>idt_reg\<close> operand,
  of the stub table \<open>ex_handlers\<close> and of \<open>default_trap_handler\<close>, which the assembly
  files and the linker provide, are parameters.
\<close>

section \<open>The code\<close>

definition INTERRUPT_GATE :: u8 where "INTERRUPT_GATE = 0xe"
definition TRAP_GATE :: u8 where "TRAP_GATE = 0xf"
definition PAGE_FAULT :: u64 where "PAGE_FAULT = 0xe"
definition GP_FAULT :: u64 where "GP_FAULT = 0xd"
definition PMI_VEC :: u64 where "PMI_VEC = 0x2"

text \<open>
  The fields of \<open>struct IDT_Desc\<close> are written at their offsets (\<open>idt_desc\<close> of the theory
  \<open>Layout\<close>), the bit-fields within their unit.
\<close>

definition assign_bits :: "u64 \<Rightarrow> nat \<Rightarrow> nat \<Rightarrow> u16 \<Rightarrow> memory \<Rightarrow> memory" where
  "assign_bits a pos len v m = store_le a (set_bits pos len v (load_le m a)) m"

text \<open>The file's own copy of \<open>memset\<close>.\<close>

definition idt_memset :: "u64 \<Rightarrow> u8 \<Rightarrow> u64 \<Rightarrow> memory \<Rightarrow> memory" where
  "idt_memset dst byte sz m = memset_loop dst byte sz 0 m"

definition set_interrupt_gate :: "u64 \<Rightarrow> u8 \<Rightarrow> u8 \<Rightarrow> u64 \<Rightarrow> memory \<Rightarrow> memory" where
  "set_interrupt_gate interrupt_desc_table vector type handler m =
     (let idesc = interrupt_desc_table + of_nat sizeof_idt_desc * ucast vector;
          m = idt_memset idesc 0 (of_nat sizeof_idt_desc) m;
          m = store_le (idesc + 2) (0x08 :: u16) m;
          m = assign_bits (idesc + 4) 0 3 0 m;
          m = assign_bits (idesc + 4) 8 4 (ucast type) m;
          m = assign_bits (idesc + 4) 13 2 0 m;
          m = assign_bits (idesc + 4) 15 1 1 m;
          m = store_le idesc (ucast handler :: u16) m;
          m = store_le (idesc + 6) (ucast (drop_bit 16 handler) :: u16) m
      in store_le (idesc + 8) (ucast (drop_bit 32 handler) :: u32) m)"

text \<open>
  The two loops of \<open>load_idt\<close>, and the operand of \<open>lidt\<close>. The table is declared with
  255 entries: its size, and so the limit, is that of 255 gates.
\<close>

record idt_addresses =
  interrupt_desc_table :: u64
  idt :: u64
  ex_handlers :: u64
  default_trap_handler :: u64

definition table_size :: nat where
  "table_size = 255 * sizeof_idt_desc"

definition set_exception_gate :: "idt_addresses \<Rightarrow> nat \<Rightarrow> memory \<Rightarrow> memory" where
  "set_exception_gate A ii m =
     set_interrupt_gate (interrupt_desc_table A) (of_nat ii) INTERRUPT_GATE
       (load_le m (ex_handlers A + 8 * of_nat ii)) m"

definition set_default_gate :: "idt_addresses \<Rightarrow> nat \<Rightarrow> memory \<Rightarrow> memory" where
  "set_default_gate A ii m =
     set_interrupt_gate (interrupt_desc_table A) (of_nat ii) TRAP_GATE (default_trap_handler A) m"

definition load_idt :: "idt_addresses \<Rightarrow> 'a machine_scheme \<Rightarrow> 'a machine_scheme" where
  "load_idt A s =
     (let m = fold (set_exception_gate A) [0..<32] (mem s);
          m = fold (set_default_gate A) [32..<256] m;
          m = store_le (idt A) (of_nat table_size - 1 :: u16) m;
          m = store_le (idt A + 2) (interrupt_desc_table A) m;
          r = load_idt_reg m (idt A)
      in occur (Lidt (idt_limit r) (idt_base_address r)) (s\<lparr>mem := m\<rparr>))"

text \<open>
  The handler: \<open>frame\<close> and \<open>state\<close> are addresses, and \<open>buffer\<close> the one of the local
  array in \<open>printf_\<close>. The two endless loops do not return.
\<close>

definition interrupt_handler ::
    "u64 \<Rightarrow> u64 \<Rightarrow> u64 \<Rightarrow> u64 \<Rightarrow> u64 \<Rightarrow> 'a serial_machine_scheme \<Rightarrow> (u64 \<times> 'a serial_machine_scheme) res" where
  "interrupt_handler buffer vector frame error_code state s =
     (let rip = frame_rip (load_interrupt_frame (mem s) frame)
      in rbind (printf_api buffer (''Hallo from interrupt! vector %lx %d'' @ [CHR 0x0A])
           [VaInt rip, VaInt vector] s) (\<lambda>(_, s).
         if vector = PAGE_FAULT then
           rbind (printf_api buffer (''Page fault occurred! error_code %d'' @ [CHR 0x0A])
             [VaInt error_code] s) (\<lambda>(_, s). Inl NoReturn)
         else if vector = GP_FAULT then
           rbind (printf_api buffer (''General Protection fault occurred'' @ [CHR 0x0A]) [] s)
             (\<lambda>(_, s). Inl NoReturn)
         else if vector = PMI_VEC then
           rbind (printf_api buffer (''PMI Interrupt occurred'' @ [CHR 0x0A]) [] s)
             (\<lambda>(_, s). Inr (state, eoi s))
         else Inr (state, eoi s)))"

section \<open>Gates\<close>

text \<open>A gate as the processor reads it.\<close>

record gate =
  gate_offset :: u64
  gate_selector :: u16
  gate_ist :: u16
  gate_type :: u16
  gate_dpl :: u16
  gate_present :: bool

definition read_gate :: "memory \<Rightarrow> u64 \<Rightarrow> gate" where
  "read_gate m a =
     (let w = load_le m (a + 4) :: u16
      in \<lparr>gate_offset = ucast (load_le m a :: u16) OR push_bit 16 (ucast (load_le m (a + 6) :: u16))
            OR push_bit 32 (ucast (load_le m (a + 8) :: u32)),
          gate_selector = load_le m (a + 2),
          gate_ist = take_bit 3 w,
          gate_type = take_bit 4 (drop_bit 8 w),
          gate_dpl = take_bit 2 (drop_bit 13 w),
          gate_present = bit w 15\<rparr>)"

definition gate_for :: "u8 \<Rightarrow> u64 \<Rightarrow> gate" where
  "gate_for type handler =
     \<lparr>gate_offset = handler, gate_selector = 0x08, gate_ist = 0, gate_type = take_bit 4 (ucast type),
      gate_dpl = 0, gate_present = True\<rparr>"

lemma offset_parts:
  "ucast (ucast h :: u16) OR push_bit 16 (ucast (ucast (drop_bit 16 h) :: u16))
    OR push_bit 32 (ucast (ucast (drop_bit 32 h) :: u32)) = (h :: u64)"
proof (rule bit_word_eqI)
  fix n assume "n < LENGTH(64)"
  then show "bit (ucast (ucast h :: u16) OR push_bit 16 (ucast (ucast (drop_bit 16 h) :: u16))
      OR push_bit 32 (ucast (ucast (drop_bit 32 h) :: u32)) :: u64) n = bit h n"
    by (cases "n < 16"; cases "n < 32") (auto simp: bit_simps)
qed

lemma gate_word:
  fixes t w :: u16
  defines "v \<equiv> set_bits 15 (Suc 0) 1 (set_bits 13 2 0 (set_bits 8 4 t (set_bits 0 3 0 w)))"
  shows "take_bit 3 v = 0" "take_bit 4 (drop_bit 8 v) = take_bit 4 t"
    "take_bit 2 (drop_bit 13 v) = 0" "bit v 15"
proof -
  have v: "bit v n = (if n = 15 then True else if 13 \<le> n then False
      else if 8 \<le> n \<and> n < 12 then bit t (n - 8) else if n < 3 then False else bit w n)" if "n < 16" for n
    using that by (auto simp: v_def bit_set_bits)
  show "bit v 15"
    by (simp add: v)
  show "take_bit 3 v = 0" "take_bit 4 (drop_bit 8 v) = take_bit 4 t" "take_bit 2 (drop_bit 13 v) = 0"
    by (rule bit_word_eqI, auto simp: bit_take_bit_iff bit_drop_bit_eq v)+
qed

lemmas set_gate_eq = set_interrupt_gate_def [unfolded sizeof_idt_desc_def of_nat_numeral idt_memset_def, folded memset_def]

lemma read_set_gate:
  "read_gate (set_interrupt_gate table vector type handler m) (table + 16 * ucast vector) =
    gate_for type handler"
proof -
  define a where "a = table + 16 * ucast vector"
  show ?thesis
    unfolding a_def [symmetric] set_gate_eq assign_bits_def read_gate_def Let_def
    by (simp add: cells gate_for_def gate_word offset_parts)
qed

section \<open>The table\<close>

text \<open>A gate is sixteen bytes: nothing else is written, and nothing else is read.\<close>

lemma set_gate_frame:
  assumes "\<not> unat (x - (table + 16 * ucast vector)) < 16"
  shows "set_interrupt_gate table vector type handler m x = m x"
proof -
  define a where "a = table + 16 * ucast vector"
  have far: "\<not> unat (x - (a + of_nat k)) < w" if "k + w \<le> 16" "0 < w" for k w
  proof
    assume less: "unat (x - (a + of_nat k)) < w"
    have k: "unat (of_nat k :: u64) = k"
      using that by (intro unat_of_nat_64) simp
    have "unat (x - (a + of_nat k) + of_nat k) = unat (x - (a + of_nat k)) + k"
      using less that k by (subst unat_word_ariths) simp
    then have "unat (x - a) < 16"
      using less that by (simp add: algebra_simps)
    with assms show False by (simp add: a_def)
  qed
  show ?thesis
    using far [of 0 16] far [of 0 2] far [of 2 2] far [of 4 2] far [of 6 2] far [of 8 4]
    unfolding a_def [symmetric] set_gate_eq assign_bits_def Let_def
    by (simp add: cell16.st_frame cell32.st_frame memset_eq word_less_nat_alt)
qed

lemma read_gate_cong:
  assumes "\<And>i. i < 16 \<Longrightarrow> m' (a + of_nat i) = m (a + of_nat i)"
  shows "read_gate m' a = read_gate m a"
proof -
  have 16: "load_le m' (a + of_nat k) = (load_le m (a + of_nat k) :: u16)" if "k + 2 \<le> 16" for k
    using assms that by (intro cell16.ld_cong) (simp add: add.assoc flip: of_nat_add)
  have "m' (a + of_nat 8 + of_nat i) = m (a + of_nat 8 + of_nat i)" if "i < 4" for i
    using assms [of "8 + i"] that by (simp add: add.assoc)
  then have "load_le m' (a + of_nat 8) = (load_le m (a + of_nat 8) :: u32)"
    by (rule cell32.ld_cong)
  with 16 [of 0] 16 [of 2] 16 [of 4] 16 [of 6] show ?thesis
    by (simp add: read_gate_def)
qed

lemma unat_of_nat_diff:
  assumes "p < 2 ^ 63" "q < 2 ^ 63"
  shows "unat (of_nat p - of_nat q :: u64) = (if q \<le> p then p - q else 2 ^ 64 - (q - p))"
proof (cases "q \<le> p")
  case True
  then have "of_nat p - of_nat q = (of_nat (p - q) :: u64)"
    by simp
  then show ?thesis
    using True assms by (simp only: if_True) (intro unat_of_nat_64, simp)
next
  case False
  then have "of_nat (2 ^ 64 - (q - p)) = (of_nat (2 ^ 64) - of_nat (q - p) :: u64)"
    using assms by (intro of_nat_diff) simp
  also have "\<dots> = of_nat p - of_nat q"
    using False by simp
  finally have "of_nat p - of_nat q = (of_nat (2 ^ 64 - (q - p)) :: u64)"
    by simp
  then show ?thesis
    using False by (simp only: if_False) (intro unat_of_nat_64, simp)
qed

definition gate_at :: "idt_addresses \<Rightarrow> nat \<Rightarrow> u64" where
  "gate_at A ii = interrupt_desc_table A + of_nat (16 * ii)"

lemma gate_at_vector:
  assumes "ii < 256"
  shows "interrupt_desc_table A + 16 * ucast (of_nat ii :: u8) = gate_at A ii"
proof -
  have "unat (of_nat ii :: u8) = ii"
    using assms by (simp add: unsigned_of_nat take_bit_nat_eq_self_iff)
  then have "unat (ucast (of_nat ii :: u8) :: u64) = unat (of_nat ii :: u64)"
    using assms by (simp add: unsigned_ucast_eq unat_of_nat_64 take_bit_nat_eq_self_iff)
  then have "ucast (of_nat ii :: u8) = (of_nat ii :: u64)"
    by (rule unsigned_word_eqI)
  then show ?thesis
    by (simp add: gate_at_def)
qed

lemma gates_apart:
  assumes "ii < 256" "jj < 256" "ii \<noteq> jj" "i < 16"
  shows "\<not> unat (gate_at A ii + of_nat i - gate_at A jj) < 16"
proof -
  have "gate_at A ii + of_nat i - gate_at A jj = of_nat (16 * ii + i) - of_nat (16 * jj)"
    by (simp add: gate_at_def)
  then have *: "unat (gate_at A ii + of_nat i - gate_at A jj) =
      (if 16 * jj \<le> 16 * ii + i then 16 * ii + i - 16 * jj else 2 ^ 64 - (16 * jj - (16 * ii + i)))"
    using assms unat_of_nat_diff [of "16 * ii + i" "16 * jj"] by (simp only:) simp
  show ?thesis
    unfolding * using assms by auto
qed


text \<open>The 256 gates the loops write are 4096 bytes, 16 more than the table has.\<close>

definition in_gates :: "idt_addresses \<Rightarrow> u64 \<Rightarrow> bool" where
  "in_gates A x \<longleftrightarrow> unat (x - interrupt_desc_table A) < 4096"

lemma gate_bytes_in:
  assumes "ii < 256" "unat (x - gate_at A ii) < 16"
  shows "in_gates A x"
proof -
  have "unat (of_nat (16 * ii) :: u64) = 16 * ii"
    using assms(1) by (intro unat_of_nat_64) simp
  then have "unat (x - gate_at A ii + of_nat (16 * ii)) = unat (x - gate_at A ii) + 16 * ii"
    using assms by (subst unat_word_ariths) simp
  then show ?thesis
    using assms by (simp add: in_gates_def gate_at_def)
qed

lemma set_gate_at:
  assumes "ii < 256"
  shows "read_gate (set_interrupt_gate (interrupt_desc_table A) (of_nat ii) type h m) (gate_at A ii) = gate_for type h"
    and "jj < 256 \<Longrightarrow> jj \<noteq> ii \<Longrightarrow>
      read_gate (set_interrupt_gate (interrupt_desc_table A) (of_nat ii) type h m) (gate_at A jj) = read_gate m (gate_at A jj)"
    and "\<not> in_gates A x \<Longrightarrow> set_interrupt_gate (interrupt_desc_table A) (of_nat ii) type h m x = m x"
proof -
  note v = gate_at_vector [OF assms, of A]
  show "read_gate (set_interrupt_gate (interrupt_desc_table A) (of_nat ii) type h m) (gate_at A ii) = gate_for type h"
    using read_set_gate [of "interrupt_desc_table A" "of_nat ii"] by (simp only: v)
  show "jj < 256 \<Longrightarrow> jj \<noteq> ii \<Longrightarrow>
      read_gate (set_interrupt_gate (interrupt_desc_table A) (of_nat ii) type h m) (gate_at A jj) = read_gate m (gate_at A jj)"
    by (intro read_gate_cong set_gate_frame, subst v) (rule gates_apart [OF _ assms])
  show "\<not> in_gates A x \<Longrightarrow> set_interrupt_gate (interrupt_desc_table A) (of_nat ii) type h m x = m x"
    using gate_bytes_in [OF assms] by (intro set_gate_frame) (auto simp only: v)
qed

definition apart_from_gates :: "idt_addresses \<Rightarrow> bool" where
  "apart_from_gates A \<longleftrightarrow>
     (\<forall>k<256. \<not> in_gates A (ex_handlers A + of_nat k)) \<and> (\<forall>k<10. \<not> in_gates A (idt A + of_nat k))"

text \<open>The stub address an entry of \<open>ex_handlers\<close> holds.\<close>

definition stub :: "idt_addresses \<Rightarrow> memory \<Rightarrow> nat \<Rightarrow> u64" where
  "stub A m ii = load_le m (ex_handlers A + 8 * of_nat ii)"

lemma stub_cong:
  assumes "apart_from_gates A" "ii < 32" "\<And>x. \<not> in_gates A x \<Longrightarrow> m' x = m x"
  shows "stub A m' ii = stub A m ii"
  unfolding stub_def
proof (rule cell64.ld_cong)
  fix i :: nat assume "i < 8"
  then have "8 * ii + i < 256"
    using assms(2) by simp
  then have "\<not> in_gates A (ex_handlers A + of_nat (8 * ii + i))"
    using assms(1) unfolding apart_from_gates_def by blast
  then show "m' (ex_handlers A + 8 * of_nat ii + of_nat i) = m (ex_handlers A + 8 * of_nat ii + of_nat i)"
    using assms(3) by (simp add: add.assoc)
qed

lemma exception_gates:
  assumes "apart_from_gates A" "n \<le> 32"
  shows "(\<forall>ii<n. read_gate (fold (set_exception_gate A) [0..<n] m) (gate_at A ii) =
      gate_for INTERRUPT_GATE (stub A m ii)) \<and>
    (\<forall>x. \<not> in_gates A x \<longrightarrow> fold (set_exception_gate A) [0..<n] m x = m x)"
  using assms(2)
proof (induction n)
  case 0
  then show ?case by simp
next
  case (Suc n)
  let ?m = "fold (set_exception_gate A) [0..<n] m"
  have IH: "ii < n \<Longrightarrow> read_gate ?m (gate_at A ii) = gate_for INTERRUPT_GATE (stub A m ii)"
    "\<not> in_gates A x \<Longrightarrow> ?m x = m x" for ii x
    using Suc by simp_all
  have "set_exception_gate A n ?m =
      set_interrupt_gate (interrupt_desc_table A) (of_nat n) INTERRUPT_GATE (stub A m n) ?m"
    using stub_cong [OF assms(1), of n ?m m] IH(2) Suc.prems by (simp add: set_exception_gate_def stub_def)
  then show ?case
    using IH Suc.prems set_gate_at [of n] by (auto simp: less_Suc_eq)
qed

lemma default_gates:
  assumes "n \<le> 224"
  shows "(\<forall>ii. 32 \<le> ii \<and> ii < 32 + n \<longrightarrow>
      read_gate (fold (set_default_gate A) [32..<32 + n] m) (gate_at A ii) =
        gate_for TRAP_GATE (default_trap_handler A)) \<and>
    (\<forall>ii<32. read_gate (fold (set_default_gate A) [32..<32 + n] m) (gate_at A ii) = read_gate m (gate_at A ii)) \<and>
    (\<forall>x. \<not> in_gates A x \<longrightarrow> fold (set_default_gate A) [32..<32 + n] m x = m x)"
  using assms
proof (induction n)
  case 0
  then show ?case by auto
next
  case (Suc n)
  let ?m = "fold (set_default_gate A) [32..<32 + n] m"
  have "fold (set_default_gate A) [32..<32 + Suc n] m =
      set_interrupt_gate (interrupt_desc_table A) (of_nat (32 + n)) TRAP_GATE (default_trap_handler A) ?m"
    using upt_Suc_append [of 32 "32 + n"] by (simp add: set_default_gate_def)
  moreover have "ii < 33 + n \<longleftrightarrow> ii < 32 + n \<or> ii = 32 + n" for ii
    by auto
  ultimately show ?case
    using Suc set_gate_at [of "32 + n"] by (auto simp del: of_nat_add)
qed

lemma load_idt_mem:
  "mem (load_idt A s) =
    store_le (idt A + 2) (interrupt_desc_table A) (store_le (idt A) (0xFEF :: u16)
      (fold (set_default_gate A) [32..<256] (fold (set_exception_gate A) [0..<32] (mem s))))"
  by (simp add: load_idt_def table_size_def Let_def)

lemma operand_frame:
  assumes "apart_from_gates A" "in_gates A x"
  shows "store_le (idt A + 2) (v :: u64) (store_le (idt A) (w :: u16) m) x = m x"
proof -
  have far: "\<not> unat (x - (idt A + of_nat j)) < k" if "j + k \<le> 10" for j k
  proof
    assume less: "unat (x - (idt A + of_nat j)) < k"
    define n where "n = j + unat (x - (idt A + of_nat j))"
    have "n < 10" "x = idt A + of_nat n"
      using less that by (simp_all add: n_def)
    with assms show False
      unfolding apart_from_gates_def by blast
  qed
  show ?thesis
    using far [of 0 2] far [of 2 8] by (simp add: cell16.st_frame cell64.st_frame)
qed

lemma load_idt_gates:
  assumes "apart_from_gates A" "ii < 256"
  shows "read_gate (mem (load_idt A s)) (gate_at A ii) =
    (if ii < 32 then gate_for INTERRUPT_GATE (stub A (mem s) ii)
     else gate_for TRAP_GATE (default_trap_handler A))"
proof -
  let ?m = "fold (set_default_gate A) [32..<256] (fold (set_exception_gate A) [0..<32] (mem s))"
  have inside: "in_gates A (gate_at A ii + of_nat i)" if "i < 16" for i
  proof (rule gate_bytes_in [OF assms(2)])
    have "unat (of_nat i :: u64) = i"
      using that by (intro unat_of_nat_64) simp
    then show "unat (gate_at A ii + of_nat i - gate_at A ii) < 16"
      using that by simp
  qed
  have "read_gate (mem (load_idt A s)) (gate_at A ii) = read_gate ?m (gate_at A ii)"
    unfolding load_idt_mem by (intro read_gate_cong operand_frame [OF assms(1)] inside)
  then show ?thesis
    using default_gates [of 224 A "fold (set_exception_gate A) [0..<32] (mem s)"]
      exception_gates [OF assms(1), of 32 "mem s"] assms(2) by simp
qed

lemma load_idt_lidt:
  "trace (load_idt A s) = Lidt 0xFEF (interrupt_desc_table A) # trace s"
  by (simp add: load_idt_def table_size_def Let_def cells)


text \<open>Nothing but the gates and the operand is written.\<close>

lemma load_idt_frame:
  assumes "apart_from_gates A" "\<not> in_gates A x" "\<not> unat (x - idt A) < 10"
  shows "mem (load_idt A s) x = mem s x"
proof -
  have "fold (set_default_gate A) [32..<256] m x = m x" for m
    using default_gates [of 224 A m] assms(2) by simp
  moreover have "fold (set_exception_gate A) [0..<32] m x = m x" for m
    using exception_gates [OF assms(1), of 32 m] assms(2) by simp
  moreover have "\<not> unat (x - idt A) < 2"
    using assms(3) by simp
  moreover have "\<not> unat (x - (idt A + 2)) < 8"
  proof
    define y where "y = x - (idt A + 2)"
    assume "unat (x - (idt A + 2)) < 8"
    then have "unat (y + 2) < 10"
      by (simp add: y_def [symmetric] unat_word_ariths)
    moreover have "y + 2 = x - idt A"
      by (simp add: y_def)
    ultimately show False
      using assms(3) by simp
  qed
  ultimately show ?thesis
    by (simp add: load_idt_mem store_le_def store_bytes_frame)
qed

section \<open>The handler\<close>

lemma handler_message:
  assumes "vector < 256"
  shows "\<exists>cs. format_text (''Hallo from interrupt! vector %lx %d'' @ [CHR 0x0A]) [VaInt rip, VaInt vector] = Inr cs"
proof -
  have "unat vector < 256"
    using assms by (simp add: word_less_nat_alt)
  then have "sint (ucast vector :: u32) = int (unat vector)"
    by (intro sint_ucast_small) simp
  then have "0 \<le> sint (ucast vector :: u32)"
    by (metis of_nat_0_le_iff)
  then have "sint (ucast vector :: u32) \<noteq> - (2 ^ 31)"
    by auto
  then show ?thesis
    by (simp add: format_text_simps)
qed

lemma pmi_message: "\<exists>cs. format_text (''PMI Interrupt occurred'' @ [CHR 0x0A]) [] = Inr cs"
  by (simp add: format_text_simps)

text \<open>The conditions under which \<open>printf\<close> returns.\<close>

definition can_print :: "'a serial_machine_scheme \<Rightarrow> bool" where
  "can_print s \<longleftrightarrow> ready s \<and> distinct (filter (\<lambda>d. d \<noteq> 0) (device s)) \<and> release (spin s) = acquire (spin s)"

lemma printf_can_print:
  assumes "can_print s" "b \<noteq> 0" "format_text format va = Inr cs"
  shows "\<exists>t. printf_api b format va s = Inr (of_nat (length cs), t) \<and> mem t = mem s \<and> can_print t \<and>
    device t = device s \<and> (\<forall>p. p \<noteq> 0 \<longrightarrow> sent p (trace t) =
      sent p (trace s) @ (if p \<in> set (device s) then wire_text cs else []))"
proof -
  obtain t where "printf_api b format va s = Inr (of_nat (length cs), t)" "mem t = mem s"
    "device t = device s" "hw t = hw s" "release (spin t) = acquire (spin t)"
    "\<forall>p. p \<noteq> 0 \<longrightarrow> sent p (trace t) = sent p (trace s) @ (if p \<in> set (device s) then wire_text cs else [])"
    using printf_sent [OF assms(3,2)] assms(1) by (auto simp: can_print_def)
  with assms(1) show ?thesis
    by (simp add: can_print_def ready_def)
qed

lemma eoi_event: "trace (eoi s) = MmioWrite (apic_base + 0xb0) 0 # trace s"
  by (simp add: eoi_def apic_write_def)

lemma eoi_frame [simp]: "mem (eoi s) = mem s" "hw (eoi s) = hw s"
  by (simp_all add: eoi_def apic_write_def)

lemma eoi_serial [simp]: "device (eoi s) = device s" "spin (eoi s) = spin s"
  by (simp_all add: eoi_def apic_write_def occur_def)

lemma eoi_can_print [simp]: "can_print (eoi s) \<longleftrightarrow> can_print s"
  by (simp add: can_print_def ready_def)

lemma handler_returns:
  assumes "can_print s" "b \<noteq> 0" "vector < 256" "vector \<noteq> PAGE_FAULT" "vector \<noteq> GP_FAULT"
  shows "\<exists>t. interrupt_handler b vector frame error_code state s = Inr (state, t) \<and>
    mem t = mem s \<and> can_print t \<and> (\<exists>tr. trace t = MmioWrite (apic_base + 0xb0) 0 # tr)"
proof -
  obtain cs where "format_text (''Hallo from interrupt! vector %lx %d'' @ [CHR 0x0A])
      [VaInt (load_le (mem s) frame), VaInt vector] = Inr cs"
    using handler_message [OF assms(3)] by blast
  then obtain t where t: "printf_api b (''Hallo from interrupt! vector %lx %d'' @ [CHR 0x0A])
      [VaInt (load_le (mem s) frame), VaInt vector] s = Inr (of_nat (length cs), t)" "mem t = mem s" "can_print t"
    using printf_can_print [OF assms(1,2)] by blast
  obtain cs' where "format_text (''PMI Interrupt occurred'' @ [CHR 0x0A]) [] = Inr cs'"
    using pmi_message by blast
  then obtain u where u: "printf_api b (''PMI Interrupt occurred'' @ [CHR 0x0A]) [] t = Inr (of_nat (length cs'), u)"
    "mem u = mem t" "can_print u"
    using printf_can_print [OF t(3) assms(2)] by blast
  show ?thesis
  proof (cases "vector = PMI_VEC")
    case True
    then have "interrupt_handler b vector frame error_code state s = Inr (state, eoi u)"
      unfolding interrupt_handler_def Let_def frame_field t(1) using assms(4,5) u(1)
      by (simp only: rbind_simps prod.case if_False if_True refl)
    then show ?thesis
      using t u by (simp add: eoi_event)
  next
    case False
    then have "interrupt_handler b vector frame error_code state s = Inr (state, eoi t)"
      unfolding interrupt_handler_def Let_def frame_field t(1) using assms(4,5)
      by (simp only: rbind_simps prod.case if_False)
    then show ?thesis
      using t by (simp add: eoi_event)
  qed
qed

lemma handler_stops:
  "vector = PAGE_FAULT \<or> vector = GP_FAULT \<Longrightarrow> interrupt_handler b vector frame error_code state s \<noteq> Inr r"
  unfolding interrupt_handler_def Let_def
  by (auto simp: rbind_Inr_iff split: if_splits)

lemma handler_deadlock:
  "release (spin s) \<noteq> acquire (spin s) \<Longrightarrow>
    interrupt_handler b vector frame error_code state s = Inl NoReturn"
  unfolding interrupt_handler_def Let_def by (subst printf_held) (assumption, rule rbind_simps)

end
