(* ===== verification/Examples.thy ===== *)
theory Examples
  imports Interrupt
begin

text \<open>
  Concrete machines the properties are applied to: a hardware whose transmitters are always
  ready and whose registers read as zero, a machine with one serial port and the lock free,
  and a layout of the interrupt tables.
\<close>

definition quiet_hw :: hardware where
  "quiet_hw = \<lparr>port_in = \<lambda>_ _. 0x20, msr_in = \<lambda>_ _. 0, mmio_in = \<lambda>_ _. 0,
     cpuid_in = \<lambda>_ _ _. (0, 0, 0, 0), tsc_in = \<lambda>_. 0, pmc_in = \<lambda>_ _. 0\<rparr>"

definition one_port :: serial_machine where
  "one_port = \<lparr>mem = \<lambda>_. 0, trace = [], hw = quiet_hw, device = [0x3f8, 0, 0, 0], spin = lock_init\<rparr>"

lemma quiet_ready: "thr_ready quiet_hw p"
  by (simp add: thr_ready_def quiet_hw_def)

lemma one_port_simps:
  "device one_port = [0x3f8, 0, 0, 0]" "hw one_port = quiet_hw" "spin one_port = lock_init"
  "trace one_port = []" "mem one_port = (\<lambda>_. 0)"
  by (simp_all add: one_port_def)

lemma one_port_can_print: "can_print one_port"
  by (simp add: can_print_def ready_def one_port_simps quiet_ready lock_init_def)

text \<open>The same with the lock held: a ticket was fetched and not yet served.\<close>

definition held_port :: serial_machine where
  "held_port = one_port\<lparr>spin := \<lparr>acquire = 1, release = 0\<rparr>\<rparr>"

lemma held_port_held: "release (spin held_port) \<noteq> acquire (spin held_port)"
  by (simp add: held_port_def)

definition idt_layout :: idt_addresses where
  "idt_layout = \<lparr>interrupt_desc_table = 0x100000, idt = 0x102000, ex_handlers = 0x103000,
     default_trap_handler = 0x5000\<rparr>"

lemma idt_layout_apart: "apart_from_gates idt_layout"
proof -
  have far: "\<not> unat (of_nat (c + k) :: u64) < 4096" if "0x2000 \<le> c" "c \<le> 0x3000" "k < 256" for c k
  proof -
    have "unat (of_nat (c + k) :: u64) = c + k"
      using that by (intro unat_of_nat_64) simp
    then show ?thesis
      using that by simp
  qed
  have "0x102000 + of_nat k - 0x100000 = (of_nat (0x2000 + k) :: u64)"
    "0x103000 + of_nat k - 0x100000 = (of_nat (0x3000 + k) :: u64)" for k
    by simp_all
  then have "\<not> unat (0x102000 + of_nat k - 0x100000 :: u64) < 4096" "\<not> unat (0x103000 + of_nat k - 0x100000 :: u64) < 4096"
    if "k < 256" for k
    using that far [of "0x2000" k] far [of "0x3000" k] by (simp_all only:) simp_all
  then show ?thesis
    by (simp add: apart_from_gates_def in_gates_def idt_layout_def)
qed

end
