(* ===== verification/Apic.thy ===== *)
theory Apic
  imports Serial Layout
begin

text \<open>
  \<open>apic.cc\<close>: finding the processors' local APIC ids in the ACPI tables, and programming the
  local APIC. The tables are memory, read by the packed layouts of the structures; the two
  string literals the searches compare with are at addresses that are parameters.
\<close>

section \<open>State\<close>

text \<open>The globals of \<open>apic.cc\<close> and \<open>init.cc\<close>: the array of ids and the core counter.\<close>

record kernel = serial_machine +
  cpu_nodes :: "u8 list"
  CORE_ID :: u32

definition MADT_LAPIC :: u8 where "MADT_LAPIC = 0x00"
definition MAX_CPUS :: nat where "MAX_CPUS = 18"
definition APIC_LVT_MASKED :: u32 where "APIC_LVT_MASKED = 0x10000"

record literals =
  rsd_ptr :: u64
  apic_sig :: u64

section \<open>Searching the tables\<close>

text \<open>A \<open>char\<close> is signed: the difference is that of signed values.\<close>

function memcmp :: "memory \<Rightarrow> u64 \<Rightarrow> u64 \<Rightarrow> u64 \<Rightarrow> int" where
  "memcmp m src dest sz =
     (if m src = m dest \<and> 0 < sz then memcmp m (src + 1) (dest + 1) (sz - 1)
      else if sz = 0 then 0 else sint (m src) - sint (m dest))"
  by pat_completeness auto
termination
  by (relation "measure (\<lambda>(m, src, dest, sz). unat sz)") (auto simp: unat_minus_one unat_gt_0)

declare memcmp.simps [simp del]

function check_rsdt_loop :: "literals \<Rightarrow> memory \<Rightarrow> u64 \<Rightarrow> u32 \<Rightarrow> u64 option" where
  "check_rsdt_loop L m ii high =
     (if ii < ucast high
      then if memcmp m ii (rsd_ptr L) 8 = 0 then Some ii else check_rsdt_loop L m (ii + 16) high
      else None)"
  by pat_completeness auto
termination
proof (relation "measure (\<lambda>(L, m, ii, high). unat (ucast high :: u64) - unat ii)")
  fix L and m :: memory and ii :: u64 and high :: u32
  assume ii: "ii < ucast high"
  have "unat high < 2 ^ 32"
    using unsigned_less [of high, where ?'a = nat] by simp
  then have "unat (ii + 16) = unat ii + 16"
    using ii by (subst unat_word_ariths) (simp add: word_less_nat_alt)
  then show "((L, m, ii + 16, high), L, m, ii, high) \<in>
      measure (\<lambda>(L, m, ii, high). unat (ucast high :: u64) - unat ii)"
    using ii by (simp add: word_less_nat_alt)
qed simp

declare check_rsdt_loop.simps [simp del]

definition check_rsdt :: "literals \<Rightarrow> memory \<Rightarrow> u32 \<Rightarrow> u32 \<Rightarrow> u64 option" where
  "check_rsdt L m low high = check_rsdt_loop L m (ucast low) high"

text \<open>
  The loop over the entries of the MADT. \<open>madt_ptr\<close> starts at the payload of the table and
  is read as an \<open>acpi_madt\<close>, whose own payload is eight bytes further on.
\<close>

definition register_lapic :: "memory \<Rightarrow> u64 \<Rightarrow> u8 list \<Rightarrow> u8 list res" where
  "register_lapic m madt_ptr nodes =
     (let lapic_id = madt_payload m madt_ptr 2
      in if unat lapic_id < MAX_CPUS then Inr (nodes[unat lapic_id := lapic_id]) else Inl OutOfBounds)"

partial_function (option) madt_loop :: "memory \<Rightarrow> u64 \<Rightarrow> u64 \<Rightarrow> u8 list \<Rightarrow> u8 list res option" where
  "madt_loop m end_apic madt_ptr nodes =
     (if madt_ptr < end_apic
      then let type = madt_payload m madt_ptr 0;
               len = madt_payload m madt_ptr 1
           in case (if type = MADT_LAPIC then register_lapic m madt_ptr nodes else Inr nodes) of
                Inl e \<Rightarrow> Some (Inl e)
              | Inr nodes \<Rightarrow> madt_loop m end_apic (madt_ptr + ucast len) nodes
      else Some (Inr nodes))"

text \<open>
  The loop over the entries of the RSDT: \<open>n\<close> 32-bit addresses of tables from
  \<open>entries_ptr\<close> on.
\<close>

primrec rsdt_loop :: "literals \<Rightarrow> memory \<Rightarrow> u64 \<Rightarrow> nat \<Rightarrow> u8 list \<Rightarrow> u8 list res option" where
  "rsdt_loop L m entries_ptr 0 nodes = Some (Inr nodes)"
| "rsdt_loop L m entries_ptr (Suc n) nodes =
     (let acpi_ptr = ucast (load_le m entries_ptr :: u32)
      in case (if memcmp m acpi_ptr (apic_sig L) 4 = 0
               then madt_loop m (acpi_ptr + ucast (sdt_length (load_acpisdt m acpi_ptr))) (acpisdt_payload acpi_ptr) nodes
               else Some (Inr nodes)) of
           None \<Rightarrow> None
         | Some (Inl e) \<Rightarrow> Some (Inl e)
         | Some (Inr nodes) \<Rightarrow> rsdt_loop L m (entries_ptr + 4) n nodes)"

definition rsdt_entries :: "memory \<Rightarrow> u64 \<Rightarrow> int" where
  "rsdt_entries m rsdt =
     sint (ucast ((ucast (sdt_length (load_acpisdt m rsdt)) - of_nat sizeof_acpisdt :: u64) div 4) :: u32)"

text \<open>One range after the other; the result for the later ranges is not passed on.\<close>

fun iterate_check :: "literals \<Rightarrow> memory \<Rightarrow> (u32 \<times> u32) list \<Rightarrow> u8 list \<Rightarrow> (bool \<times> u8 list) res option" where
  "iterate_check L m [] nodes = Some (Inr (False, nodes))"
| "iterate_check L m ((low, high) # t) nodes =
     (case check_rsdt L m low high of
        Some rdsp_ptr \<Rightarrow>
          (let rsdt = ucast (rsdt_addr (load_rsdp m rdsp_ptr)) :: u64
           in case rsdt_loop L m (acpisdt_payload rsdt) (nat (rsdt_entries m rsdt)) nodes of
                None \<Rightarrow> None
              | Some (Inl e) \<Rightarrow> Some (Inl e)
              | Some (Inr nodes) \<Rightarrow> Some (Inr (True, nodes)))
      | None \<Rightarrow>
          if t \<noteq> []
          then (case iterate_check L m t nodes of
                  None \<Rightarrow> None
                | Some (Inl e) \<Rightarrow> Some (Inl e)
                | Some (Inr (_, nodes)) \<Rightarrow> Some (Inr (False, nodes)))
          else Some (Inr (False, nodes)))"

definition apic_ranges :: "memory \<Rightarrow> (u32 \<times> u32) list" where
  "apic_ranges m =
     (let paddr = push_bit 4 (ucast (load_le m 0x40e :: u16)) :: u32
      in [(paddr, paddr + 1024), (0xe0000, 0x100000)])"

definition init :: "literals \<Rightarrow> 'a kernel_scheme \<Rightarrow> 'a kernel_scheme res" where
  "init L s =
     (case iterate_check L (mem s) (apic_ranges (mem s)) (cpu_nodes s) of
        None \<Rightarrow> Inl NoReturn
      | Some (Inl e) \<Rightarrow> Inl e
      | Some (Inr (_, nodes)) \<Rightarrow> Inr (s\<lparr>cpu_nodes := nodes\<rparr>))"

section \<open>The local APIC\<close>

definition check_apic :: "'a machine_scheme \<Rightarrow> bool \<times> 'a machine_scheme" where
  "check_apic s =
     (let ((eax, ebx, edx, ecx), s) = cpuid 1 0 s
      in (edx AND push_bit 9 1 \<noteq> 0, s))"

text \<open>\<open>check_apic(core_id)\<close>: \<open>ii\<close> is never incremented, so that only \<open>c_id\<close> changes.\<close>

partial_function (option) check_core_loop :: "u8 list \<Rightarrow> u64 \<Rightarrow> int \<Rightarrow> u64 \<Rightarrow> u64 option" where
  "check_core_loop nodes core_id ii c_id =
     (if ii \<le> int MAX_CPUS
      then if ucast (nodes ! unat core_id) \<noteq> core_id then check_core_loop nodes core_id ii c_id
           else if c_id = core_id then Some (of_int ii)
           else check_core_loop nodes core_id ii (c_id + 1)
      else Some 0)"

definition check_apic_core :: "u8 list \<Rightarrow> u64 \<Rightarrow> u64 res" where
  "check_apic_core nodes core_id =
     (if unat core_id < length nodes
      then case check_core_loop nodes core_id 0 0 of None \<Rightarrow> Inl NoReturn | Some r \<Rightarrow> Inr r
      else Inl OutOfBounds)"

definition apic_eoi :: "'a machine_scheme \<Rightarrow> 'a machine_scheme" where
  "apic_eoi s = apic_write 0xb0 0x0 s"

definition mask_lvt :: "u32 \<Rightarrow> 'a machine_scheme \<Rightarrow> 'a machine_scheme" where
  "mask_lvt reg_addr s =
     (let (reg, s) = apic_read reg_addr s;
          reg = reg OR APIC_LVT_MASKED
      in apic_write reg_addr reg s)"

definition enable_lapic :: "'a machine_scheme \<Rightarrow> 'a machine_scheme" where
  "enable_lapic s =
     (let s = wrmsr 0x1b (ucast (0xfee00000 OR push_bit 11 1 :: u32)) s;
          s = apic_write 0xf0 (push_bit 8 1 OR 0xff) s;
          s = apic_write 0x80 0x0 s
      in apic_write 0xb0 0x0 s)"

definition launch_ap :: "u64 \<Rightarrow> 'a machine_scheme \<Rightarrow> bool \<times> 'a machine_scheme" where
  "launch_ap core_id s =
     (let s = apic_write 0x300 0xc4500 s;
          s = apic_write 0x300 0xc4608 s;
          s = apic_write 0x300 0xc4608 s
      in (False, s))"


section \<open>Searching: lemmas\<close>

definition same_bytes :: "memory \<Rightarrow> u64 \<Rightarrow> u64 \<Rightarrow> nat \<Rightarrow> bool" where
  "same_bytes m a b n \<longleftrightarrow> (\<forall>i<n. m (a + of_nat i) = m (b + of_nat i))"

lemma same_bytes_Suc:
  "same_bytes m a b (Suc n) \<longleftrightarrow> m a = m b \<and> same_bytes m (a + 1) (b + 1) n"
proof -
  have "(\<forall>i<Suc n. P i) \<longleftrightarrow> P 0 \<and> (\<forall>i<n. P (Suc i))" for P
    using less_Suc_eq_0_disj by auto
  then show ?thesis
    by (simp add: same_bytes_def add.assoc)
qed

lemma memcmp_0_iff: "memcmp m src dest sz = 0 \<longleftrightarrow> same_bytes m src dest (unat sz)"
proof (induction m src dest sz rule: memcmp.induct)
  case (1 m src dest sz)
  show ?case
  proof (cases "sz = 0")
    case True
    then show ?thesis by (subst memcmp.simps) (simp add: same_bytes_def)
  next
    case False
    then have pos: "0 < sz" "unat sz = Suc (unat (sz - 1))"
      using unat_minus_one [of sz] unat_gt_0 [of sz] by (auto simp: word_neq_0_conv)
    show ?thesis
    proof (cases "m src = m dest")
      case True
      then show ?thesis
        using 1 pos by (subst memcmp.simps) (simp add: same_bytes_Suc)
    next
      case ne: False
      then have "sint (m src) \<noteq> sint (m dest)"
        using signed_word_eqI by blast
      then show ?thesis
        using ne False by (subst memcmp.simps) (simp add: same_bytes_Suc pos(2))
    qed
  qed
qed

text \<open>\<open>check_rsdt\<close> returns the first address, in steps of 16, that has the signature.\<close>

definition rsdp_at :: "literals \<Rightarrow> memory \<Rightarrow> u64 \<Rightarrow> bool" where
  "rsdp_at L m a \<longleftrightarrow> same_bytes m a (rsd_ptr L) 8"

text \<open>The image of the first number with a property.\<close>

definition first :: "(nat \<Rightarrow> bool) \<Rightarrow> (nat \<Rightarrow> 'a) \<Rightarrow> 'a option" where
  "first P f = (if \<exists>k. P k then Some (f (LEAST k. P k)) else None)"

lemma first_0: "P 0 \<Longrightarrow> first P f = Some (f 0)"
  by (auto simp: first_def)

lemma first_Suc:
  assumes "\<not> P 0"
  shows "first P f = first (\<lambda>k. P (Suc k)) (\<lambda>k. f (Suc k))"
proof (cases "\<exists>k. P k")
  case True
  then obtain k where k: "P k" ..
  then have "\<exists>k. P (Suc k)"
    using assms by (cases k) auto
  with k Least_Suc [OF k assms] show ?thesis
    by (auto simp: first_def)
next
  case False
  then show ?thesis by (simp add: first_def)
qed

lemma first_None: "(\<And>k. \<not> P k) \<Longrightarrow> first P f = None"
  by (simp add: first_def)

lemma first_SomeD: "first P f = Some x \<Longrightarrow> \<exists>k. P k \<and> x = f k \<and> (\<forall>j<k. \<not> P j)"
  unfolding first_def by (metis (mono_tags, lifting) LeastI_ex not_less_Least option.distinct(1) option.inject)

lemma first_NoneD: "first P f = None \<Longrightarrow> \<not> P k"
  by (auto simp: first_def split: if_splits)

lemma check_rsdt_loop_spec:
  "check_rsdt_loop L m ii high =
    first (\<lambda>k. unat ii + 16 * k < unat high \<and> rsdp_at L m (ii + 16 * of_nat k)) (\<lambda>k. ii + 16 * of_nat k)"
proof (induction L m ii high rule: check_rsdt_loop.induct)
  case (1 L m ii high)
  show ?case
  proof (cases "ii < ucast high")
    case False
    then have "check_rsdt_loop L m ii high = None"
      by (subst check_rsdt_loop.simps) simp
    moreover have "\<not> unat ii + 16 * k < unat high" for k
      using False by (simp add: word_less_nat_alt)
    ultimately show ?thesis
      by (simp add: first_None)
  next
    case True
    show ?thesis
    proof (cases "rsdp_at L m ii")
      case at: True
      then have "check_rsdt_loop L m ii high = Some ii"
        using True by (subst check_rsdt_loop.simps) (simp add: memcmp_0_iff rsdp_at_def)
      then show ?thesis
        using True at by (subst first_0) (simp_all add: word_less_nat_alt)
    next
      case False
      then have ne: "memcmp m ii (rsd_ptr L) 8 \<noteq> 0"
        by (simp add: memcmp_0_iff rsdp_at_def)
      have "unat high < 2 ^ 32"
        using unsigned_less [of high, where ?'a = nat] by simp
      then have ii: "unat (ii + 16) = unat ii + 16"
        using True by (subst unat_word_ariths) (simp add: word_less_nat_alt)
      have "check_rsdt_loop L m ii high = check_rsdt_loop L m (ii + 16) high"
        using True ne by (subst check_rsdt_loop.simps) simp
      also note 1 [OF True ne]
      also have "first (\<lambda>k. unat (ii + 16) + 16 * k < unat high \<and> rsdp_at L m (ii + 16 + 16 * of_nat k))
            (\<lambda>k. ii + 16 + 16 * of_nat k) =
          first (\<lambda>k. unat ii + 16 * Suc k < unat high \<and> rsdp_at L m (ii + 16 * of_nat (Suc k)))
            (\<lambda>k. ii + 16 * of_nat (Suc k))"
        by (simp add: ii algebra_simps)
      also have "\<dots> = first (\<lambda>k. unat ii + 16 * k < unat high \<and> rsdp_at L m (ii + 16 * of_nat k))
            (\<lambda>k. ii + 16 * of_nat k)"
        using False by (subst (2) first_Suc) simp_all
      finally show ?thesis .
    qed
  qed
qed

lemma check_rsdt_Some:
  assumes "check_rsdt L m low high = Some a"
  shows "\<exists>k. a = ucast low + 16 * of_nat k \<and> unat low + 16 * k < unat high \<and> rsdp_at L m a \<and>
    (\<forall>j<k. \<not> rsdp_at L m (ucast low + 16 * of_nat j))"
proof -
  obtain k where "unat low + 16 * k < unat high" "rsdp_at L m (ucast low + 16 * of_nat k)"
    "a = ucast low + 16 * of_nat k"
    "\<forall>j<k. \<not> (unat low + 16 * j < unat high \<and> rsdp_at L m (ucast low + 16 * of_nat j))"
    using first_SomeD [OF assms [unfolded check_rsdt_def check_rsdt_loop_spec]] by auto
  then show ?thesis
    by (intro exI [of _ k]) auto
qed

lemma check_rsdt_None:
  "check_rsdt L m low high = None \<Longrightarrow> unat low + 16 * k < unat high \<Longrightarrow>
    \<not> rsdp_at L m (ucast low + 16 * of_nat k)"
  unfolding check_rsdt_def check_rsdt_loop_spec by (drule first_NoneD [of _ _ k]) simp


section \<open>The MADT loop: lemmas\<close>

text \<open>
  The walk the loop makes: from one record to the next while the pointer is below the end,
  collecting the ids of the local APIC records.
\<close>

inductive madt_walk :: "memory \<Rightarrow> u64 \<Rightarrow> u64 \<Rightarrow> u8 list \<Rightarrow> bool" for m e where
  stop: "\<not> p < e \<Longrightarrow> madt_walk m e p []"
| lapic: "p < e \<Longrightarrow> m (p + 8) = MADT_LAPIC \<Longrightarrow> madt_walk m e (p + ucast (m (p + 9))) ids \<Longrightarrow>
    madt_walk m e p (m (p + 10) # ids)"
| other: "p < e \<Longrightarrow> m (p + 8) \<noteq> MADT_LAPIC \<Longrightarrow> madt_walk m e (p + ucast (m (p + 9))) ids \<Longrightarrow>
    madt_walk m e p ids"

inductive_cases madt_walkE: "madt_walk m e p ids"

definition register_all :: "u8 list \<Rightarrow> u8 list \<Rightarrow> u8 list" where
  "register_all ids nodes = fold (\<lambda>i ns. ns[unat i := i]) ids nodes"

text \<open>The outcome: the nodes, unless an id is outside the array.\<close>

lemma madt_loop_walk:
  assumes "madt_walk m e p ids"
  shows "madt_loop m e p nodes =
    Some (if \<forall>i\<in>set ids. unat i < MAX_CPUS then Inr (register_all ids nodes) else Inl OutOfBounds)"
  using assms
proof (induction arbitrary: nodes)
  case (stop p)
  then show ?case by (subst madt_loop.simps) (simp add: register_all_def)
next
  case (lapic p ids)
  then show ?case by (subst madt_loop.simps) (simp add: register_lapic_def register_all_def Let_def)
next
  case (other p ids)
  then show ?case by (subst madt_loop.simps) (simp add: register_all_def)
qed

text \<open>A loop that returns has made the whole walk, or stopped at an id outside the array.\<close>

lemma madt_loop_returns:
  assumes "madt_loop m e p nodes = Some (Inr nodes')"
  shows "\<exists>ids. madt_walk m e p ids \<and> nodes' = register_all ids nodes \<and> (\<forall>i\<in>set ids. unat i < MAX_CPUS)"
proof -
  have "r = Inr nodes' \<longrightarrow> (\<exists>ids. madt_walk m e p ids \<and> nodes' = register_all ids nodes \<and>
      (\<forall>i\<in>set ids. unat i < MAX_CPUS))" if "madt_loop m e p nodes = Some r" for r nodes'
  proof (rule madt_loop.raw_induct [of "\<lambda>m e p nodes r. \<forall>nodes'. r = Inr nodes' \<longrightarrow>
      (\<exists>ids. madt_walk m e p ids \<and> nodes' = register_all ids nodes \<and>
      (\<forall>i\<in>set ids. unat i < MAX_CPUS))", OF _ that, THEN spec])
    fix loop m e p nodes r
    assume IH: "\<And>m e p nodes r. loop m e p nodes = Some r \<Longrightarrow> \<forall>nodes'. r = Inr nodes' \<longrightarrow>
        (\<exists>ids. madt_walk m e p ids \<and> nodes' = register_all ids nodes \<and> (\<forall>i\<in>set ids. unat i < MAX_CPUS))"
      and step: "(if p < e
        then let type = madt_payload m p 0; len = madt_payload m p 1
             in case (if type = MADT_LAPIC then register_lapic m p nodes else Inr nodes) of
                  Inl e \<Rightarrow> Some (Inl e) | Inr nodes \<Rightarrow> loop m e (p + ucast len) nodes
        else Some (Inr nodes)) = Some r"
    show "\<forall>nodes'. r = Inr nodes' \<longrightarrow> (\<exists>ids. madt_walk m e p ids \<and> nodes' = register_all ids nodes \<and>
        (\<forall>i\<in>set ids. unat i < MAX_CPUS))"
    proof (intro allI impI)
      fix nodes' assume r: "r = Inr nodes'"
      show "\<exists>ids. madt_walk m e p ids \<and> nodes' = register_all ids nodes \<and> (\<forall>i\<in>set ids. unat i < MAX_CPUS)"
      proof (cases "p < e")
        case False
        with step r show ?thesis
          by (intro exI [of _ "[]"]) (auto simp: register_all_def intro: madt_walk.stop)
      next
        case True
        show ?thesis
        proof (cases "m (p + 8) = MADT_LAPIC")
          case lapic: True
          then have id: "unat (m (p + 10)) < MAX_CPUS"
            and "loop m e (p + ucast (m (p + 9))) (nodes[unat (m (p + 10)) := m (p + 10)]) = Some r"
            using step r True by (auto simp: register_lapic_def Let_def split: if_splits)
          with IH r obtain ids where "madt_walk m e (p + ucast (m (p + 9))) ids"
            "nodes' = register_all ids (nodes[unat (m (p + 10)) := m (p + 10)])"
            "\<forall>i\<in>set ids. unat i < MAX_CPUS"
            by blast
          then show ?thesis
            using True lapic id by (intro exI [of _ "m (p + 10) # ids"])
              (auto simp: register_all_def intro: madt_walk.lapic)
        next
          case other: False
          then have "loop m e (p + ucast (m (p + 9))) nodes = Some r"
            using step True by simp
          with IH r True other show ?thesis
            by (blast intro: madt_walk.other)
        qed
      qed
    qed
  qed
  with assms show ?thesis by blast
qed

text \<open>A record of length zero is never left.\<close>

lemma madt_loop_zero:
  assumes "p < e" "m (p + 9) = 0" "m (p + 8) = MADT_LAPIC \<Longrightarrow> unat (m (p + 10)) < MAX_CPUS"
  shows "madt_loop m e p nodes = None"
proof -
  let ?stuck = "\<lambda>m e p. p < e \<and> m (p + 9) = 0 \<and>
    (m (p + 8) = MADT_LAPIC \<longrightarrow> unat (m (p + 10)) < MAX_CPUS)"
  have "\<not> ?stuck m e p" if "madt_loop m e p nodes = Some r" for r
  proof (rule madt_loop.raw_induct [of "\<lambda>m e p nodes r. \<not> ?stuck m e p", OF _ that])
    fix loop m e p nodes r
    assume IH: "\<And>m e p nodes r. loop m e p nodes = Some r \<Longrightarrow> \<not> ?stuck m e p"
      and step: "(if p < e
        then let type = madt_payload m p 0; len = madt_payload m p 1
             in case (if type = MADT_LAPIC then register_lapic m p nodes else Inr nodes) of
                  Inl e \<Rightarrow> Some (Inl e) | Inr nodes \<Rightarrow> loop m e (p + ucast len) nodes
        else Some (Inr nodes)) = Some r"
    show "\<not> ?stuck m e p"
    proof
      assume "?stuck m e p"
      then have "\<exists>nodes'. loop m e p nodes' = Some r"
        using step by (auto simp: register_lapic_def Let_def split: if_splits)
      with IH \<open>?stuck m e p\<close> show False by blast
    qed
  qed
  with assms show ?thesis
    by (cases "madt_loop m e p nodes") auto
qed

text \<open>Records of positive length end the loop.\<close>

lemma madt_walk_ends:
  assumes "\<And>q. q < e \<Longrightarrow> m (q + 9) \<noteq> 0" "unat e < 2 ^ 64 - 255"
  shows "\<exists>ids. madt_walk m e p ids"
proof (induction "unat e - unat p" arbitrary: p rule: less_induct)
  case less
  show ?case
  proof (cases "p < e")
    case False
    then show ?thesis by (blast intro: madt_walk.stop)
  next
    case True
    let ?l = "ucast (m (p + 9)) :: u64"
    have l: "unat ?l = unat (m (p + 9))"
      by simp
    have "unat (m (p + 9)) \<noteq> 0"
      using assms(1) [OF True] by (simp add: unat_eq_0)
    moreover have "unat (m (p + 9)) < 256"
      using unsigned_less [of "m (p + 9)", where ?'a = nat] by simp
    moreover have "unat (p + ?l) = unat p + unat (m (p + 9))"
      using True assms(2) \<open>unat (m (p + 9)) < 256\<close> l
      by (subst unat_word_ariths) (simp add: word_less_nat_alt)
    ultimately have "unat e - unat (p + ?l) < unat e - unat p"
      using True by (simp add: word_less_nat_alt)
    from less [OF this] show ?thesis
      using True by (cases "m (p + 8) = MADT_LAPIC") (blast intro: madt_walk.intros)+
  qed
qed


text \<open>
  A table whose records, from \<open>a\<close> on, end exactly at \<open>e\<close>. The loop follows all of them,
  and then reads the eight bytes behind the table as one more record.
\<close>

inductive madt_table :: "memory \<Rightarrow> u64 \<Rightarrow> u64 \<Rightarrow> u8 list \<Rightarrow> bool" for m e where
  tbl_end: "madt_table m e e []"
| tbl_lapic: "m a = MADT_LAPIC \<Longrightarrow> m (a + 1) \<noteq> 0 \<Longrightarrow> unat a + unat (m (a + 1)) \<le> unat e \<Longrightarrow>
    madt_table m e (a + ucast (m (a + 1))) ids \<Longrightarrow> madt_table m e a (m (a + 2) # ids)"
| tbl_other: "m a \<noteq> MADT_LAPIC \<Longrightarrow> m (a + 1) \<noteq> 0 \<Longrightarrow> unat a + unat (m (a + 1)) \<le> unat e \<Longrightarrow>
    madt_table m e (a + ucast (m (a + 1))) ids \<Longrightarrow> madt_table m e a ids"

lemma record_step:
  fixes a e :: u64 and l :: u8
  assumes "8 \<le> a" "l \<noteq> 0" "unat a + unat l \<le> unat e"
  shows "a - 8 < e" "8 \<le> a + ucast l" "a - 8 + ucast l = a + ucast l - 8"
proof -
  have "0 < unat l"
    using assms(2) by (simp add: unat_gt_0)
  have "unat (a - 8) = unat a - 8" "8 \<le> unat a"
    using assms(1) by (simp_all add: unat_sub word_le_nat_alt)
  then show "a - 8 < e"
    using assms(3) \<open>0 < unat l\<close> by (simp add: word_less_nat_alt)
  have "unat e < 2 ^ 64"
    using unsigned_less [of e, where ?'a = nat] by simp
  then have "unat (a + ucast l) = unat a + unat l"
    using assms(3) by (subst unat_word_ariths) simp
  then show "8 \<le> a + ucast l"
    using \<open>8 \<le> unat a\<close> by (simp add: word_le_nat_alt)
  show "a - 8 + ucast l = a + ucast l - 8"
    by simp
qed

lemma madt_loop_table:
  assumes "madt_table m e a ids" "8 \<le> a" "\<forall>i\<in>set ids. unat i < MAX_CPUS"
  shows "madt_loop m e (a - 8) nodes = madt_loop m e (e - 8) (register_all ids nodes)"
  using assms
proof (induction arbitrary: nodes)
  case tbl_end
  then show ?case by (simp add: register_all_def)
next
  case (tbl_lapic a ids)
  note step = record_step [OF tbl_lapic.prems(1) tbl_lapic.hyps(2,3)]
  have "madt_loop m e (a - 8) nodes =
      madt_loop m e (a + ucast (m (a + 1)) - 8) (nodes[unat (m (a + 2)) := m (a + 2)])"
    using tbl_lapic.hyps(1) tbl_lapic.prems(2) step
    by (subst madt_loop.simps) (simp add: register_lapic_def Let_def algebra_simps)
  also have "\<dots> = madt_loop m e (e - 8) (register_all ids (nodes[unat (m (a + 2)) := m (a + 2)]))"
    using step tbl_lapic.prems(2) by (intro tbl_lapic.IH) simp_all
  finally show ?case by (simp add: register_all_def)
next
  case (tbl_other a ids)
  note step = record_step [OF tbl_other.prems(1) tbl_other.hyps(2,3)]
  have "madt_loop m e (a - 8) nodes = madt_loop m e (a + ucast (m (a + 1)) - 8) nodes"
    using tbl_other.hyps(1) step by (subst madt_loop.simps) (simp add: algebra_simps)
  also have "\<dots> = madt_loop m e (e - 8) (register_all ids nodes)"
    using step tbl_other.prems(2) by (intro tbl_other.IH) simp_all
  finally show ?case .
qed

text \<open>What the bytes behind the table decide.\<close>

lemma madt_loop_ends:
  assumes "madt_table m e a ids" "8 \<le> a" "\<forall>i\<in>set ids. unat i < MAX_CPUS" "8 \<le> e"
    and "m e \<noteq> MADT_LAPIC" "8 \<le> m (e + 1)" "unat e < 2 ^ 64 - 255"
  shows "madt_loop m e (a - 8) nodes = Some (Inr (register_all ids nodes))"
proof -
  have e: "unat (e - 8) = unat e - 8" "8 \<le> unat e" "8 \<le> unat (m (e + 1))"
    using assms(4,6) by (simp_all add: unat_sub word_le_nat_alt)
  have "unat (m (e + 1)) < 256"
    using unsigned_less [of "m (e + 1)", where ?'a = nat] by simp
  then have "unat (e - 8 + ucast (m (e + 1))) = unat e - 8 + unat (m (e + 1))"
    using e assms(7) by (subst unat_word_ariths) simp
  then have "\<not> e - 8 + ucast (m (e + 1)) < e"
    using e by (simp add: word_less_nat_alt)
  then have "madt_walk m e (e - 8 + ucast (m (e + 1))) []"
    by (rule madt_walk.stop)
  moreover have "e - 8 < e"
    using e by (simp add: word_less_nat_alt)
  ultimately have "madt_walk m e (e - 8) []"
    using assms(5) madt_walk.other [of "e - 8" e m "[]"] by (simp add: add.commute)
  then show ?thesis
    by (simp add: madt_loop_table [OF assms(1-3)] madt_loop_walk register_all_def)
qed

lemma madt_loop_hangs:
  assumes "madt_table m e a ids" "8 \<le> a" "\<forall>i\<in>set ids. unat i < MAX_CPUS" "8 \<le> e"
    and "m (e + 1) = 0" "m e = MADT_LAPIC \<Longrightarrow> unat (m (e + 2)) < MAX_CPUS"
  shows "madt_loop m e (a - 8) nodes = None"
proof -
  have "unat (e - 8) = unat e - 8" "8 \<le> unat e"
    using assms(4) by (simp_all add: unat_sub word_le_nat_alt)
  then have "e - 8 < e"
    by (simp add: word_less_nat_alt)
  then have "madt_loop m e (e - 8) (register_all ids nodes) = None"
    using assms(5,6) by (intro madt_loop_zero) (simp_all add: add.commute)
  then show ?thesis
    by (simp add: madt_loop_table [OF assms(1-3)])
qed

lemma register_all_length [simp]: "length (register_all ids nodes) = length nodes"
  unfolding register_all_def by (induction ids arbitrary: nodes) simp_all

lemma register_all_nth:
  assumes "unat i < length nodes"
  shows "register_all ids nodes ! unat i = (if i \<in> set ids then i else nodes ! unat i)"
  using assms
proof (induction ids rule: rev_induct)
  case (snoc j ids)
  have "length (register_all ids nodes) = length nodes"
    unfolding register_all_def by (induction ids arbitrary: nodes) simp_all
  moreover have "unat i = unat j \<longleftrightarrow> i = j"
    by (simp add: word_unat_eq_iff)
  ultimately show ?case
    using snoc by (auto simp: register_all_def nth_list_update)
qed (simp add: register_all_def)


section \<open>From the RSDP to the nodes\<close>

text \<open>
  What a table contributes: nothing if it is not the MADT; if it is, the ids of its records,
  provided they fit the array and the bytes behind the table let the loop end.
\<close>

definition table_ids :: "literals \<Rightarrow> memory \<Rightarrow> u64 \<Rightarrow> u8 list \<Rightarrow> bool" where
  "table_ids L m t ids \<longleftrightarrow>
     (if same_bytes m t (apic_sig L) 4
      then let e = t + ucast (load_le m (t + 4) :: u32)
           in madt_table m e (t + 44) ids \<and> (\<forall>i\<in>set ids. unat i < MAX_CPUS) \<and>
              8 \<le> e \<and> unat e < 2 ^ 64 - 255 \<and> 8 \<le> t + 44 \<and> m e \<noteq> MADT_LAPIC \<and> 8 \<le> m (e + 1)
      else ids = [])"

definition entry_pointer :: "memory \<Rightarrow> u64 \<Rightarrow> nat \<Rightarrow> u64" where
  "entry_pointer m entries_ptr k = ucast (load_le m (entries_ptr + 4 * of_nat k) :: u32)"

lemma rsdt_loop_step:
  assumes "table_ids L m (ucast (load_le m p :: u32)) ids"
  shows "rsdt_loop L m p (Suc n) nodes = rsdt_loop L m (p + 4) n (register_all ids nodes)"
proof -
  let ?t = "ucast (load_le m p :: u32) :: u64"
  let ?e = "?t + ucast (load_le m (?t + 4) :: u32)"
  show ?thesis
  proof (cases "same_bytes m ?t (apic_sig L) 4")
    case True
    then have "madt_loop m ?e (?t + 44 - 8) nodes = Some (Inr (register_all ids nodes))"
      using assms by (intro madt_loop_ends) (simp_all add: table_ids_def Let_def)
    moreover have "?t + 44 - 8 = ?t + 36"
      by simp
    ultimately have "madt_loop m ?e (?t + 36) nodes = Some (Inr (register_all ids nodes))"
      by (simp only:)
    then show ?thesis
      using True by (simp add: memcmp_0_iff Let_def)
  next
    case False
    with assms have "ids = []"
      by (simp add: table_ids_def)
    with False show ?thesis
      by (simp add: memcmp_0_iff register_all_def Let_def)
  qed
qed

lemma register_all_append: "register_all (xs @ ys) nodes = register_all ys (register_all xs nodes)"
  by (simp add: register_all_def)

lemma rsdt_loop_tables:
  assumes "\<And>k. k < length idss \<Longrightarrow> table_ids L m (entry_pointer m p k) (idss ! k)"
  shows "rsdt_loop L m p (length idss) nodes = Some (Inr (register_all (concat idss) nodes))"
  using assms
proof (induction idss arbitrary: p nodes)
  case Nil
  then show ?case by (simp add: register_all_def)
next
  case (Cons ids idss)
  have "table_ids L m (entry_pointer m (p + 4) k) (idss ! k)" if "k < length idss" for k
    using Cons.prems [of "Suc k"] that by (simp add: entry_pointer_def algebra_simps)
  then have "rsdt_loop L m (p + 4) (length idss) (register_all ids nodes) =
      Some (Inr (register_all (concat idss) (register_all ids nodes)))"
    by (rule Cons.IH)
  moreover have "table_ids L m (ucast (load_le m p :: u32)) ids"
    using Cons.prems [of 0] by (simp add: entry_pointer_def)
  ultimately show ?case
    by (simp only: length_Cons rsdt_loop_step concat.simps register_all_append)
qed

text \<open>The table at the RSDP found in a range: its address and the number of its entries.\<close>

definition rsdt_of :: "memory \<Rightarrow> u64 \<Rightarrow> u64" where
  "rsdt_of m rsdp = ucast (load_le m (rsdp + 16) :: u32)"

lemma iterate_check_found:
  assumes "check_rsdt L m low high = Some rsdp"
    and "rsdt_entries m (rsdt_of m rsdp) = int (length idss)"
    and "\<And>k. k < length idss \<Longrightarrow> table_ids L m (entry_pointer m (rsdt_of m rsdp + 36) k) (idss ! k)"
  shows "iterate_check L m ((low, high) # t) nodes = Some (Inr (True, register_all (concat idss) nodes))"
  using rsdt_loop_tables [OF assms(3)] assms(1,2) by (simp add: rsdt_of_def Let_def)

text \<open>What a later range finds is registered, but not reported.\<close>

lemma iterate_check_later:
  assumes "check_rsdt L m low high = None" "t \<noteq> []"
  shows "iterate_check L m ((low, high) # t) nodes =
    map_option (map_sum id (\<lambda>(_, nodes). (False, nodes))) (iterate_check L m t nodes)"
  using assms by (cases "iterate_check L m t nodes") (auto split: sum.splits)

text \<open>The RSDP the two ranges contain: that of the first one, or else that of the second.\<close>

definition find_rsdp :: "literals \<Rightarrow> memory \<Rightarrow> u64 option" where
  "find_rsdp L m =
     (let (low, high) = hd (apic_ranges m)
      in case check_rsdt L m low high of
           Some rsdp \<Rightarrow> Some rsdp | None \<Rightarrow> check_rsdt L m 0xe0000 0x100000)"

lemma init_rsdt_loop:
  assumes "find_rsdp L (mem s) = Some rsdp"
  shows "init L s =
    (case rsdt_loop L (mem s) (rsdt_of (mem s) rsdp + 36)
       (nat (rsdt_entries (mem s) (rsdt_of (mem s) rsdp))) (cpu_nodes s) of
       None \<Rightarrow> Inl NoReturn | Some (Inl e) \<Rightarrow> Inl e | Some (Inr nodes) \<Rightarrow> Inr (s\<lparr>cpu_nodes := nodes\<rparr>))"
proof -
  obtain low high where r: "apic_ranges (mem s) = [(low, high), (0xe0000, 0x100000)]"
    by (simp add: apic_ranges_def Let_def)
  show ?thesis
  proof (cases "check_rsdt L (mem s) low high")
    case None
    with assms have "check_rsdt L (mem s) 0xe0000 0x100000 = Some rsdp"
      by (simp add: find_rsdp_def r)
    with None show ?thesis
      by (simp add: init_def r rsdt_of_def Let_def split: option.splits sum.splits)
  next
    case (Some a)
    with assms show ?thesis
      by (simp add: find_rsdp_def init_def r rsdt_of_def Let_def split: option.splits sum.splits)
  qed
qed

lemma init_registers:
  assumes "find_rsdp L (mem s) = Some rsdp"
    and "rsdt_entries (mem s) (rsdt_of (mem s) rsdp) = int (length idss)"
    and "\<And>k. k < length idss \<Longrightarrow>
      table_ids L (mem s) (entry_pointer (mem s) (rsdt_of (mem s) rsdp + 36) k) (idss ! k)"
  shows "init L s = Inr (s\<lparr>cpu_nodes := register_all (concat idss) (cpu_nodes s)\<rparr>)"
  using rsdt_loop_tables [OF assms(3)] assms(2) by (simp add: init_rsdt_loop [OF assms(1)])

text \<open>Zero bytes behind the MADT, if it is the first table, and the search never ends.\<close>

lemma init_hangs:
  assumes "find_rsdp L (mem s) = Some rsdp"
    and "0 < rsdt_entries (mem s) (rsdt_of (mem s) rsdp)"
    and t: "t = entry_pointer (mem s) (rsdt_of (mem s) rsdp + 36) 0"
    and e: "e = t + ucast (load_le (mem s) (t + 4) :: u32)"
    and "same_bytes (mem s) t (apic_sig L) 4" "madt_table (mem s) e (t + 44) ids"
    and "\<forall>i\<in>set ids. unat i < MAX_CPUS" "8 \<le> e" "8 \<le> t + 44"
    and "mem s e = 0" "mem s (e + 1) = 0" "mem s (e + 2) = 0"
  shows "init L s = Inl NoReturn"
proof -
  obtain n where n: "nat (rsdt_entries (mem s) (rsdt_of (mem s) rsdp)) = Suc n"
    using assms(2) by (metis gr0_implies_Suc zero_less_nat_eq)
  have "madt_loop (mem s) e (t + 44 - 8) nodes = None" for nodes
    using assms(6-12) by (intro madt_loop_hangs) (simp_all add: MAX_CPUS_def)
  moreover have "t + 44 - 8 = t + 36"
    by simp
  ultimately have "madt_loop (mem s) e (t + 36) nodes = None" for nodes
    by (simp only:)
  then show ?thesis
    using assms(5) by (simp add: init_rsdt_loop [OF assms(1)] n memcmp_0_iff t e entry_pointer_def Let_def)
qed

section \<open>The number of a core\<close>

text \<open>
  The search for a core: with the core's own entry registered it counts up to the core's
  number and returns 0, otherwise it does not end.
\<close>

lemma check_core_found:
  assumes "ucast (nodes ! unat core_id) = core_id" "c_id \<le> core_id"
  shows "check_core_loop nodes core_id 0 c_id = Some 0"
  using assms(2)
proof (induction "unat core_id - unat c_id" arbitrary: c_id)
  case 0
  then have "c_id = core_id"
    by (simp add: word_le_nat_alt word_unat_eq_iff)
  then show ?case
    using assms(1) by (subst check_core_loop.simps) simp
next
  case (Suc n)
  then have "c_id < core_id"
    by (simp add: word_less_nat_alt)
  then have "unat (c_id + 1) = Suc (unat c_id)"
    by (rule unat_Suc_less)
  then have "check_core_loop nodes core_id 0 (c_id + 1) = Some 0"
    using Suc \<open>c_id < core_id\<close> by (intro Suc.hyps) (simp_all add: word_less_nat_alt word_le_nat_alt)
  then show ?case
    using \<open>c_id < core_id\<close> assms(1) by (subst check_core_loop.simps) auto
qed

lemma check_core_stuck:
  assumes "ucast (nodes ! unat core_id) \<noteq> core_id"
  shows "check_core_loop nodes core_id 0 c_id = None"
proof -
  have "\<not> (ii = 0 \<and> ucast (nodes ! unat core_id) \<noteq> core_id)"
    if "check_core_loop nodes core_id ii c_id = Some r" for nodes core_id ii c_id r
  proof (rule check_core_loop.raw_induct [of "\<lambda>nodes core_id ii c_id r.
      \<not> (ii = 0 \<and> ucast (nodes ! unat core_id) \<noteq> core_id)", OF _ that])
    fix loop :: "u8 list \<Rightarrow> u64 \<Rightarrow> int \<Rightarrow> u64 \<Rightarrow> u64 option" and nodes core_id ii c_id r
    assume IH: "\<And>nodes core_id ii c_id r. loop nodes core_id ii c_id = Some r \<Longrightarrow>
        \<not> (ii = 0 \<and> ucast (nodes ! unat core_id) \<noteq> core_id)"
      and step: "(if ii \<le> int MAX_CPUS
        then if ucast (nodes ! unat core_id) \<noteq> core_id then loop nodes core_id ii c_id
             else if c_id = core_id then Some (of_int ii) else loop nodes core_id ii (c_id + 1)
        else Some 0) = Some r"
    show "\<not> (ii = 0 \<and> ucast (nodes ! unat core_id) \<noteq> core_id)"
    proof
      assume stuck: "ii = 0 \<and> ucast (nodes ! unat core_id) \<noteq> core_id"
      then have "loop nodes core_id ii c_id = Some r"
        using step by simp
      with IH stuck show False by blast
    qed
  qed
  then show ?thesis
    using assms by (cases "check_core_loop nodes core_id 0 c_id") blast+
qed

lemma check_apic_core_eq:
  assumes "unat core_id < length nodes"
  shows "check_apic_core nodes core_id =
    (if ucast (nodes ! unat core_id) = core_id then Inr 0 else Inl NoReturn)"
  using assms check_core_found [of nodes core_id 0] check_core_stuck [of nodes core_id 0]
  by (simp add: check_apic_core_def)

section \<open>The registers of the local APIC\<close>

lemma enable_lapic_trace:
  "trace (enable_lapic s) =
    [MmioWrite (apic_base + 0xb0) 0, MmioWrite (apic_base + 0x80) 0, MmioWrite (apic_base + 0xf0) 0x1ff,
     Wrmsr 0x1b 0xfee00800] @ trace s"
  by (simp add: enable_lapic_def wrmsr_eq apic_write_def)

lemma mask_lvt_trace:
  assumes "4 dvd unat reg_addr"
  shows "trace (mask_lvt reg_addr s) =
    [MmioWrite (apic_base + ucast reg_addr)
       (mmio_in (hw s) (trace s) (apic_base + ucast reg_addr) OR APIC_LVT_MASKED),
     MmioRead (apic_base + ucast reg_addr)] @ trace s"
  by (simp add: mask_lvt_def apic_read_def apic_write_def apic_cell [OF assms] Let_def)

text \<open>
  An interrupt command: its vector, delivery mode, trigger level and destination shorthand.
\<close>

record icr =
  icr_vector :: u32
  icr_mode :: u32
  icr_assert :: bool
  icr_shorthand :: u32

definition read_icr :: "u32 \<Rightarrow> icr" where
  "read_icr v = \<lparr>icr_vector = v AND 0xff, icr_mode = drop_bit 8 v AND 7, icr_assert = bit v 14,
     icr_shorthand = drop_bit 18 v AND 3\<rparr>"

definition INIT :: u32 where "INIT = 5"
definition START_UP :: u32 where "START_UP = 6"
definition ALL_BUT_SELF :: u32 where "ALL_BUT_SELF = 3"

fun commands :: "event list \<Rightarrow> icr list" where
  "commands [] = []"
| "commands (e # tr) =
     (case e of MmioWrite a v \<Rightarrow> if a = apic_base + 0x300 then commands tr @ [read_icr v] else commands tr
      | _ \<Rightarrow> commands tr)"

lemma launch_ap_commands:
  "commands (trace (snd (launch_ap core_id s))) = commands (trace s) @
    [\<lparr>icr_vector = 0, icr_mode = INIT, icr_assert = True, icr_shorthand = ALL_BUT_SELF\<rparr>,
     \<lparr>icr_vector = 8, icr_mode = START_UP, icr_assert = True, icr_shorthand = ALL_BUT_SELF\<rparr>,
     \<lparr>icr_vector = 8, icr_mode = START_UP, icr_assert = True, icr_shorthand = ALL_BUT_SELF\<rparr>]"
  by (simp add: launch_ap_def apic_write_def read_icr_def INIT_def START_UP_def ALL_BUT_SELF_def
      bit_numeral_rec)

end
