(* ===== verification/Acpi_Example.thy ===== *)
theory Acpi_Example
  imports Examples Apic
begin

text \<open>
  ACPI tables with one processor, and the descriptor tables of a boot sector, in a concrete memory,
  and what the functions of \<open>apic.cc\<close> read from it.
\<close>

text \<open>
  A memory with the tables: the BIOS data area points to an area at \<open>0x1000\<close>, whose second
  paragraph is the RSDP; the RSDT at \<open>0x2000\<close> has one entry, the MADT at \<open>0x3000\<close> with one
  record, of the local APIC 3, and the bytes \<open>end_marker\<close> behind it. The boot sector has its
  descriptor tables at \<open>0x7d00\<close> and \<open>0x7d20\<close>, each with its limit and base behind it.
\<close>

definition acpi_bytes :: "(u64 \<times> u8) list \<Rightarrow> (u64 \<times> u8) list" where
  "acpi_bytes end_marker =
    [(0x40f, 0x01),
     (0x1010, 0x52), (0x1011, 0x53), (0x1012, 0x44), (0x1013, 0x20),
     (0x1014, 0x50), (0x1015, 0x54), (0x1016, 0x52), (0x1017, 0x20), (0x1021, 0x20),
     (0x2004, 40), (0x2025, 0x30),
     (0x3000, 0x41), (0x3001, 0x50), (0x3002, 0x49), (0x3003, 0x43), (0x3004, 52),
     (0x302d, 8), (0x302e, 3),
     (0x7d08, 0xff), (0x7d09, 0xff), (0x7d0d, 0x9a), (0x7d0e, 0xcf),
     (0x7d10, 0xff), (0x7d11, 0xff), (0x7d15, 0x92), (0x7d16, 0xcf), (0x7d18, 23), (0x7d1b, 0x7d),
     (0x7d2d, 0x9a), (0x7d2e, 0x20), (0x7d35, 0x92), (0x7d38, 23), (0x7d3a, 0x20), (0x7d3b, 0x7d),
     (0x10000, 0x52), (0x10001, 0x53), (0x10002, 0x44), (0x10003, 0x20),
     (0x10004, 0x50), (0x10005, 0x54), (0x10006, 0x52), (0x10007, 0x20),
     (0x10010, 0x41), (0x10011, 0x50), (0x10012, 0x49), (0x10013, 0x43)] @ end_marker"

definition acpi_mem :: "(u64 \<times> u8) list \<Rightarrow> memory" where
  "acpi_mem end_marker a = (case map_of (acpi_bytes end_marker) a of Some b \<Rightarrow> b | None \<Rightarrow> 0)"

definition acpi_lits :: literals where
  "acpi_lits = \<lparr>rsd_ptr = 0x10000, apic_sig = 0x10010\<rparr>"

definition acpi_kernel :: "(u64 \<times> u8) list \<Rightarrow> kernel" where
  "acpi_kernel end_marker = \<lparr>mem = acpi_mem end_marker, trace = [], hw = quiet_hw,
     device = [0x3f8, 0, 0, 0], spin = lock_init, cpu_nodes = replicate 18 0, CORE_ID = 0\<rparr>"

lemma acpi_kernel_simps:
  "mem (acpi_kernel em) = acpi_mem em" "cpu_nodes (acpi_kernel em) = replicate 18 0"
  by (simp_all add: acpi_kernel_def)

lemma same_bytes_list:
  "same_bytes m a b n \<longleftrightarrow> list_all (\<lambda>i. m (a + of_nat i) = m (b + of_nat i)) [0..<n]"
  by (auto simp: same_bytes_def list_all_iff)

lemmas acpi_eval = acpi_mem_def acpi_bytes_def acpi_lits_def load_le_def load_bytes_def bytes_word_def
  upt_rec same_bytes_list

text \<open>The markers that end the walk and that do not.\<close>

abbreviation "good_end \<equiv> [(0x3034, 1), (0x3035, 8)] :: (u64 \<times> u8) list"

text \<open>What the search for processors reads is the same in a memory that differs elsewhere.\<close>

definition holds_acpi :: "(u64 \<times> u8) list \<Rightarrow> memory \<Rightarrow> bool" where
  "holds_acpi em m \<longleftrightarrow> (em = good_end \<or> em = []) \<and> 
    (\<forall>a. 0x40e \<le> a \<and> a < 0x14000 \<and> a \<noteq> 0x7e00 \<longrightarrow> m a = acpi_mem em a)"

lemma holds_acpi_self [simp]: "holds_acpi good_end (acpi_mem good_end)" "holds_acpi [] (acpi_mem [])"
  by (simp_all add: holds_acpi_def)

lemma holds_acpi_byte:
  "holds_acpi em m \<Longrightarrow> 0x40e \<le> a \<Longrightarrow> a < 0x14000 \<Longrightarrow> a \<noteq> 0x7e00 \<Longrightarrow> m a = acpi_mem em a"
  by (simp add: holds_acpi_def)

lemma acpi_loads:
  assumes "holds_acpi em m"
  shows "load_le m 0x40e = (0x100 :: u16)" "load_le m 0x1020 = (0x2000 :: u32)"
    "load_le m 0x2004 = (40 :: u32)" "load_le m 0x2024 = (0x3000 :: u32)"
    "load_le m 0x3004 = (52 :: u32)"
    "same_bytes m 0x1010 0x10000 8" "\<not> same_bytes m 0x1000 0x10000 8"
    "same_bytes m 0x3000 0x10010 4"
proof -
  have em: "em = good_end \<or> em = []"
    using assms by (simp add: holds_acpi_def)
  note byte = holds_acpi_byte [OF assms]
  show "load_le m 0x40e = (0x100 :: u16)" "load_le m 0x1020 = (0x2000 :: u32)"
    "load_le m 0x2004 = (40 :: u32)" "load_le m 0x2024 = (0x3000 :: u32)"
    "load_le m 0x3004 = (52 :: u32)"
    "same_bytes m 0x1010 0x10000 8" "\<not> same_bytes m 0x1000 0x10000 8"
    "same_bytes m 0x3000 0x10010 4"
    using em by (auto simp: acpi_eval byte)
qed

lemma acpi_found:
  assumes "holds_acpi em m"
  shows "find_rsdp acpi_lits m = Some 0x1010" "rsdt_of m 0x1010 = 0x2000"
    "rsdt_entries m 0x2000 = 1" "entry_pointer m 0x2024 0 = 0x3000"
proof -
  have "hd (apic_ranges m) = (0x1000, 0x1400)"
    by (simp add: apic_ranges_def acpi_loads [OF assms])
  moreover have "check_rsdt acpi_lits m 0x1000 0x1400 = Some 0x1010"
    unfolding check_rsdt_def
    by (subst check_rsdt_loop.simps, subst check_rsdt_loop.simps)
      (simp add: memcmp_0_iff acpi_loads [OF assms] acpi_lits_def)
  ultimately show "find_rsdp acpi_lits m = Some 0x1010"
    by (simp add: find_rsdp_def)
  show "rsdt_of m 0x1010 = 0x2000" "rsdt_entries m 0x2000 = 1"
    "entry_pointer m 0x2024 0 = 0x3000"
    by (simp_all add: rsdt_of_def rsdt_entries_def sizeof_acpisdt_def entry_pointer_def acpi_loads [OF assms])
qed

lemma acpi_records:
  assumes "holds_acpi em m"
  shows "madt_table m 0x3034 0x302c [3]"
proof -
  have rec: "m 0x302c = MADT_LAPIC" "m 0x302d = 8" "m 0x302e = 3"
    using assms by (auto simp: holds_acpi_def acpi_mem_def acpi_bytes_def MADT_LAPIC_def)
  then show ?thesis
    using madt_table.tbl_lapic [of m "0x302c" "0x3034" "[]"] madt_table.tbl_end [of m "0x3034"]
    by simp
qed

lemma acpi_table_ids:
  assumes "holds_acpi good_end m"
  shows "table_ids acpi_lits m 0x3000 [3]"
proof -
  have "m 0x3034 = 1" "m 0x3035 = 8"
    using assms by (simp_all add: holds_acpi_byte acpi_mem_def acpi_bytes_def)
  then show ?thesis
    using acpi_records [OF assms] acpi_loads(5,8) [OF assms]
    by (simp add: table_ids_def acpi_lits_def MADT_LAPIC_def MAX_CPUS_def)
qed

end
