(* ===== verification/Paging.thy ===== *)
theory Paging
  imports Memory
begin

text \<open>
  \<open>paging.cc\<close>: \<open>map_addr\<close> enters a 2 MB page into the page tables at fixed addresses.
  The tables are memory; what the processor makes of them is stated as the page walk of
  four-level paging, with its 1 GB and 2 MB pages.
\<close>

section \<open>The code\<close>

definition FIRST_PML4_BASE :: u64 where "FIRST_PML4_BASE = 0x32000"
definition APIC_PDPTE :: u64 where "APIC_PDPTE = 0x22000"
definition APIC_PDE :: u64 where "APIC_PDE = 0x23000"
definition PAGE_PRESENT :: u64 where "PAGE_PRESENT = push_bit 0 1"
definition PAGE_WRITE :: u64 where "PAGE_WRITE = push_bit 1 1"
definition PAGE_SIZE_2MB :: u64 where "PAGE_SIZE_2MB = push_bit 7 1"
definition PAGE_UC :: u64 where "PAGE_UC = push_bit 4 1"

lemmas paging_consts = FIRST_PML4_BASE_def APIC_PDPTE_def APIC_PDE_def PAGE_PRESENT_def
  PAGE_WRITE_def PAGE_SIZE_2MB_def PAGE_UC_def

definition indicies :: "u64 \<Rightarrow> u64 list" where
  "indicies vaddr =
     [drop_bit 39 vaddr AND 0x1ff, drop_bit 30 vaddr AND 0x1ff,
      drop_bit 21 vaddr AND 0x1ff, drop_bit 12 vaddr AND 0x1ff]"

definition map_addr :: "u64 \<Rightarrow> u64 \<Rightarrow> u64 \<Rightarrow> memory \<Rightarrow> memory" where
  "map_addr vaddr phys flags m =
     (let pml4_addr = FIRST_PML4_BASE + 8 * indicies vaddr ! 0;
          m = memset pml4_addr 0 8 m;
          m = store_le pml4_addr (PAGE_PRESENT OR PAGE_WRITE OR APIC_PDPTE) m;
          pdpte_addr = APIC_PDPTE + 8 * indicies vaddr ! 1;
          m = memset pdpte_addr 0 8 m;
          m = store_le pdpte_addr (PAGE_PRESENT OR PAGE_WRITE OR APIC_PDE) m;
          pd_entry = APIC_PDE + 8 * indicies vaddr ! 2;
          m = memset pd_entry 0 8 m
      in store_le pd_entry (flags OR PAGE_SIZE_2MB OR phys) m)"

section \<open>The page walk\<close>

text \<open>
  A table entry holds the physical address in its bits 12 to 51; bit 0 says it is present,
  bit 7 in the second and third level that it maps a page of 1 GB or 2 MB. The walk returns
  the physical address and the entry that maps it.
\<close>

definition table_of :: "u64 \<Rightarrow> u64" where
  "table_of e = e AND 0x000FFFFFFFFFF000"

definition entry_at :: "memory \<Rightarrow> u64 \<Rightarrow> u64 \<Rightarrow> u64 option" where
  "entry_at m t i = (let e = load_le m (table_of t + 8 * (i AND 0x1ff)) in if bit e 0 then Some e else None)"

definition walk :: "u64 \<Rightarrow> memory \<Rightarrow> u64 \<Rightarrow> (u64 \<times> u64) option" where
  "walk cr3 m v =
     Option.bind (entry_at m cr3 (drop_bit 39 v)) (\<lambda>e4.
     Option.bind (entry_at m e4 (drop_bit 30 v)) (\<lambda>e3.
     if bit e3 7 then Some (e3 AND 0x000FFFFFC0000000 OR v AND 0x3FFFFFFF, e3)
     else Option.bind (entry_at m e3 (drop_bit 21 v)) (\<lambda>e2.
       if bit e2 7 then Some (e2 AND 0x000FFFFFFFE00000 OR v AND 0x1FFFFF, e2)
       else Option.bind (entry_at m e2 (drop_bit 12 v)) (\<lambda>e1.
         Some (table_of e1 OR v AND 0xFFF, e1)))))"

section \<open>Aligned cells\<close>

text \<open>Two different cells at multiples of eight have no byte in common.\<close>

lemma dvd_uint_diff:
  assumes "8 dvd uint (a :: u64)" "8 dvd uint b"
  shows "8 dvd uint (a - b)"
  using assms by (simp add: uint_word_ariths dvd_mod)

lemma aligned_disjoint:
  assumes "8 dvd uint (a :: u64)" "8 dvd uint b" "a \<noteq> b" "i < 8"
  shows "\<not> unat (b + of_nat i - a) < 8"
proof -
  have "8 dvd int (unat (b - a))"
    using dvd_uint_diff [OF assms(2,1)] by simp
  then have "8 dvd unat (b - a)"
    by presburger
  then obtain k where k: "unat (b - a) = 8 * k" ..
  have "k \<noteq> 0"
    using k assms(3) by (metis mult_0_right right_minus_eq unat_eq_0)
  have "unat (b - a) < 2 ^ 64"
    using unsigned_less [of "b - a", where ?'a = nat] by simp
  moreover have "unat (of_nat i :: u64) = i"
    using assms(4) by (intro unat_of_nat_64) simp
  ultimately have "unat (b - a + of_nat i) = 8 * k + i"
    using k assms(4) by (subst unat_word_ariths) simp
  then show ?thesis
    using \<open>k \<noteq> 0\<close> by (simp add: algebra_simps)
qed

lemma load_store_aligned:
  assumes "8 dvd uint a" "8 dvd uint b"
  shows "load_le (store_le a (w :: u64) m) b = (if a = b then w else load_le m b)"
  using cell64.ld_st cell64.ld_st_other aligned_disjoint [OF assms] by auto

lemma load_memset_aligned:
  assumes "8 dvd uint a" "8 dvd uint b" "a \<noteq> b"
  shows "load_le (memset a 0 8 m) b = (load_le m b :: u64)"
  using aligned_disjoint [OF assms]
  by (intro cell64.ld_frame [where a = a and n = 8]) (auto simp: memset_eq word_less_nat_alt)

lemma store_memset: "store_le a (w :: u64) (memset a 0 8 m) = store_le a w m"
  by (rule ext) (auto simp: store_le_def store_bytes_def memset_eq word_less_nat_alt)

text \<open>The entries of a table: \<open>512\<close> cells from its address on.\<close>

lemma and_1ff: "i AND 0x1ff = take_bit 9 (i :: u64)"
  by (simp add: take_bit_eq_mask mask_eq_exp_minus_1)

lemma index_bound: "uint (i AND 0x1ff :: u64) < 512"
proof -
  have "uint (i AND 0x1ff) = take_bit 9 (uint i)"
    by (simp add: and_1ff unsigned_take_bit_eq)
  then show ?thesis
    using take_bit_int_less_exp [of 9 "uint i"] by simp
qed

lemma uint_cell:
  assumes "uint (t :: u64) < 2 ^ 63"
  shows "uint (t + 8 * (i AND 0x1ff)) = uint t + 8 * uint (i AND 0x1ff)"
  using assms index_bound [of i] by (simp add: uint_word_ariths)

lemma cell_aligned:
  assumes "uint (t :: u64) < 2 ^ 63" "8 dvd uint t"
  shows "8 dvd uint (t + 8 * (i AND 0x1ff))"
  using assms by (simp add: uint_cell)

lemma cells_apart:
  assumes "uint (t :: u64) < 2 ^ 63" "uint u < 2 ^ 63" "uint t + 4096 \<le> uint u"
  shows "t + 8 * (i AND 0x1ff) \<noteq> u + 8 * (j AND 0x1ff)"
proof
  assume "t + 8 * (i AND 0x1ff) = u + 8 * (j AND 0x1ff)"
  then have "uint t + 8 * uint (i AND 0x1ff) = uint u + 8 * uint (j AND 0x1ff)"
    using uint_cell [OF assms(1), of i] uint_cell [OF assms(2), of j] by simp
  with assms(3) index_bound [of i] uint_ge_0 [of "j AND 0x1ff"] show False
    by linarith
qed


section \<open>What \<open>map_addr\<close> writes\<close>

definition pml4_cell :: "u64 \<Rightarrow> u64" where
  "pml4_cell v = FIRST_PML4_BASE + 8 * (drop_bit 39 v AND 0x1ff)"

definition pdpte_cell :: "u64 \<Rightarrow> u64" where
  "pdpte_cell v = APIC_PDPTE + 8 * (drop_bit 30 v AND 0x1ff)"

definition pd_cell :: "u64 \<Rightarrow> u64" where
  "pd_cell v = APIC_PDE + 8 * (drop_bit 21 v AND 0x1ff)"

lemma map_addr_stores:
  "map_addr v p f m =
    store_le (pd_cell v) (f OR PAGE_SIZE_2MB OR p)
      (store_le (pdpte_cell v) (PAGE_PRESENT OR PAGE_WRITE OR APIC_PDE)
        (store_le (pml4_cell v) (PAGE_PRESENT OR PAGE_WRITE OR APIC_PDPTE) m))"
  by (simp add: map_addr_def indicies_def store_memset pml4_cell_def pdpte_cell_def pd_cell_def Let_def)

lemma cells_aligned [simp]:
  "8 dvd uint (pml4_cell v)" "8 dvd uint (pdpte_cell v)" "8 dvd uint (pd_cell v)"
  by (auto simp: pml4_cell_def pdpte_cell_def pd_cell_def paging_consts intro!: cell_aligned)

lemma cells_distinct [simp]:
  "pd_cell v \<noteq> pml4_cell w" "pdpte_cell v \<noteq> pml4_cell w" "pdpte_cell v \<noteq> pd_cell w"
  "pml4_cell w \<noteq> pd_cell v" "pml4_cell w \<noteq> pdpte_cell v" "pd_cell w \<noteq> pdpte_cell v"
proof -
  have 1: "pd_cell v \<noteq> pml4_cell w" "pdpte_cell v \<noteq> pml4_cell w" "pdpte_cell v \<noteq> pd_cell w" for v w
    unfolding pml4_cell_def pdpte_cell_def pd_cell_def paging_consts by (rule cells_apart; simp)+
  from 1 [of v w] show "pd_cell v \<noteq> pml4_cell w" "pdpte_cell v \<noteq> pml4_cell w" "pdpte_cell v \<noteq> pd_cell w"
    by simp_all
  from 1 [of v w] 1 [of v w, symmetric] show "pml4_cell w \<noteq> pd_cell v" "pml4_cell w \<noteq> pdpte_cell v"
    by (metis, metis)
  from 1(3) [of v w] show "pd_cell w \<noteq> pdpte_cell v"
    by metis
qed

lemma map_addr_load:
  assumes "8 dvd uint a"
  shows "load_le (map_addr v p f m) a =
    (if a = pd_cell v then f OR PAGE_SIZE_2MB OR p
     else if a = pdpte_cell v then PAGE_PRESENT OR PAGE_WRITE OR APIC_PDE
     else if a = pml4_cell v then PAGE_PRESENT OR PAGE_WRITE OR APIC_PDPTE
     else load_le m a)"
  using assms by (simp add: map_addr_stores load_store_aligned)

text \<open>No byte outside the three entries is written.\<close>

lemma map_addr_frame:
  assumes "\<not> unat (x - pml4_cell v) < 8" "\<not> unat (x - pdpte_cell v) < 8" "\<not> unat (x - pd_cell v) < 8"
  shows "map_addr v p f m x = m x"
  using assms by (simp add: map_addr_stores cell64.st_frame)

section \<open>What the processor sees\<close>

lemma table_pdpte: "table_of (PAGE_PRESENT OR PAGE_WRITE OR APIC_PDPTE) = APIC_PDPTE"
  by (simp add: table_of_def paging_consts)

lemma table_pde: "table_of (PAGE_PRESENT OR PAGE_WRITE OR APIC_PDE) = APIC_PDE"
  by (simp add: table_of_def paging_consts)

lemma table_pml4: "table_of FIRST_PML4_BASE = FIRST_PML4_BASE"
  by (simp add: table_of_def paging_consts)

lemma inner_entry_bits:
  "bit (PAGE_PRESENT OR PAGE_WRITE OR APIC_PDPTE) 0" "bit (PAGE_PRESENT OR PAGE_WRITE OR APIC_PDE) 0"
  "\<not> bit (PAGE_PRESENT OR PAGE_WRITE OR APIC_PDE) 7"
  by (simp_all add: paging_consts bit_numeral_rec)

text \<open>The page number of a 2 MB page, of the 27 bits the walk uses.\<close>

definition page_2mb :: "u64 \<Rightarrow> u64" where
  "page_2mb v = take_bit 27 (drop_bit 21 v)"

lemma index_of_page:
  assumes "page_2mb v = page_2mb w"
  shows "drop_bit 39 v AND 0x1ff = drop_bit 39 w AND 0x1ff"
    "drop_bit 30 v AND 0x1ff = drop_bit 30 w AND 0x1ff"
    "drop_bit 21 v AND 0x1ff = drop_bit 21 w AND 0x1ff"
proof -
  have ix: "drop_bit (21 + k) v AND 0x1ff = take_bit 9 (drop_bit k (page_2mb v))" if "k \<le> 18" for k v
    using that unfolding and_1ff page_2mb_def
    by (intro bit_word_eqI) (auto simp: bit_simps ac_simps)
  show "drop_bit 39 v AND 0x1ff = drop_bit 39 w AND 0x1ff"
    "drop_bit 30 v AND 0x1ff = drop_bit 30 w AND 0x1ff"
    "drop_bit 21 v AND 0x1ff = drop_bit 21 w AND 0x1ff"
    using assms ix [of 18 v] ix [of 18 w] ix [of 9 v] ix [of 9 w] ix [of 0 v] ix [of 0 w] by simp_all
qed


lemma entry_at_cells:
  "entry_at m FIRST_PML4_BASE (drop_bit 39 v) =
    (let e = load_le m (pml4_cell v) in if bit e 0 then Some e else None)"
  "entry_at m (PAGE_PRESENT OR PAGE_WRITE OR APIC_PDPTE) (drop_bit 30 v) =
    (let e = load_le m (pdpte_cell v) in if bit e 0 then Some e else None)"
  "entry_at m (PAGE_PRESENT OR PAGE_WRITE OR APIC_PDE) (drop_bit 21 v) =
    (let e = load_le m (pd_cell v) in if bit e 0 then Some e else None)"
  by (simp_all only: entry_at_def table_pml4 table_pdpte table_pde pml4_cell_def pdpte_cell_def pd_cell_def)

lemma cells_of_page:
  assumes "page_2mb v = page_2mb w"
  shows "pml4_cell v = pml4_cell w" "pdpte_cell v = pdpte_cell w" "pd_cell v = pd_cell w"
  using index_of_page [OF assms] by (simp_all add: pml4_cell_def pdpte_cell_def pd_cell_def)

text \<open>A 2 MB frame, and attribute bits below bit 12 with the present bit.\<close>

definition frame_2mb :: "u64 \<Rightarrow> bool" where
  "frame_2mb p \<longleftrightarrow> p AND 0x000FFFFFFFE00000 = p"

definition attributes :: "u64 \<Rightarrow> bool" where
  "attributes f \<longleftrightarrow> f AND 0xFFF = f \<and> bit f 0"

lemma leaf_entry:
  assumes "frame_2mb p" "attributes f"
  shows "(f OR PAGE_SIZE_2MB OR p) AND 0x000FFFFFFFE00000 = p"
    "bit (f OR PAGE_SIZE_2MB OR p) 0" "bit (f OR PAGE_SIZE_2MB OR p) 7"
proof -
  have "f AND 0x000FFFFFFFE00000 = (f AND 0xFFF) AND 0x000FFFFFFFE00000"
    using assms(2) by (simp only: attributes_def)
  also have "\<dots> = 0"
    by (simp add: and.assoc)
  finally have "f AND 0x000FFFFFFFE00000 = 0" .
  with assms(1) show "(f OR PAGE_SIZE_2MB OR p) AND 0x000FFFFFFFE00000 = p"
    by (simp add: bit.conj_disj_distrib2 PAGE_SIZE_2MB_def frame_2mb_def)
  show "bit (f OR PAGE_SIZE_2MB OR p) 0" "bit (f OR PAGE_SIZE_2MB OR p) 7"
    using assms(2) by (simp_all add: attributes_def PAGE_SIZE_2MB_def bit_simps)
qed

lemma walk_cells:
  assumes "load_le m (pml4_cell v) = PAGE_PRESENT OR PAGE_WRITE OR APIC_PDPTE"
    "load_le m (pdpte_cell v) = PAGE_PRESENT OR PAGE_WRITE OR APIC_PDE"
    "load_le m (pd_cell v) = f OR PAGE_SIZE_2MB OR p"
    and "frame_2mb p" "attributes f" "page_2mb w = page_2mb v"
  shows "walk FIRST_PML4_BASE m w = Some (p OR w AND 0x1FFFFF, f OR PAGE_SIZE_2MB OR p)"
  using leaf_entry [OF assms(4,5)] inner_entry_bits
  by (simp add: walk_def entry_at_cells cells_of_page [OF assms(6)] assms(1-3))

lemma map_addr_walk:
  assumes "frame_2mb p" "attributes f" "page_2mb w = page_2mb v"
  shows "walk FIRST_PML4_BASE (map_addr v p f m) w =
    Some (p OR w AND 0x1FFFFF, f OR PAGE_SIZE_2MB OR p)"
  using assms by (intro walk_cells) (simp_all add: map_addr_load)

text \<open>The entries are above the first 128 KB, where the boot code keeps its flags.\<close>

lemma load_low_update:
  assumes "8 dvd uint c" "uint c < 2 ^ 63" "uint x < uint c"
  shows "load_le (m(x := b)) c = (load_le m c :: u64)"
proof (rule cell64.ld_cong)
  fix i :: nat assume "i < 8"
  then have "unat (of_nat i :: u64) = i"
    by (intro unat_of_nat_64) simp
  then have "uint (of_nat i :: u64) = int i"
    by (metis uint_nat)
  then have "uint (c + of_nat i) = uint c + int i"
    using assms(2) \<open>i < 8\<close> by (simp add: uint_word_ariths)
  then have "c + of_nat i \<noteq> x"
    using assms(3) by auto
  then show "(m(x := b)) (c + of_nat i) = m (c + of_nat i)"
    by simp
qed

lemma cells_high:
  "0x20000 \<le> uint (pml4_cell v)" "0x20000 \<le> uint (pdpte_cell v)" "0x20000 \<le> uint (pd_cell v)"
  "uint (pml4_cell v) < 2 ^ 63" "uint (pdpte_cell v) < 2 ^ 63" "uint (pd_cell v) < 2 ^ 63"
  using index_bound [of "drop_bit 39 v"] index_bound [of "drop_bit 30 v"] index_bound [of "drop_bit 21 v"]
  by (simp_all add: pml4_cell_def pdpte_cell_def pd_cell_def paging_consts uint_cell)

lemma map_addr_walk_low:
  assumes "frame_2mb p" "attributes f" "page_2mb w = page_2mb v" "uint x < 0x20000"
  shows "walk FIRST_PML4_BASE ((map_addr v p f m)(x := b)) w =
    Some (p OR w AND 0x1FFFFF, f OR PAGE_SIZE_2MB OR p)"
proof (rule walk_cells [OF _ _ _ assms(1-3)])
  have "load_le ((map_addr v p f m)(x := b)) c = (load_le (map_addr v p f m) c :: u64)"
    if "c \<in> {pml4_cell v, pdpte_cell v, pd_cell v}" for c
  proof (rule load_low_update)
    show "8 dvd uint c" "uint c < 2 ^ 63" "uint x < uint c"
      using that assms(4) cells_high [of v] by auto
  qed
  then show "load_le ((map_addr v p f m)(x := b)) (pml4_cell v) = PAGE_PRESENT OR PAGE_WRITE OR APIC_PDPTE"
    "load_le ((map_addr v p f m)(x := b)) (pdpte_cell v) = PAGE_PRESENT OR PAGE_WRITE OR APIC_PDE"
    "load_le ((map_addr v p f m)(x := b)) (pd_cell v) = f OR PAGE_SIZE_2MB OR p"
    by (simp_all add: map_addr_load)
qed

text \<open>
  An address under another entry of the first level keeps its translation, as long as the
  tables its walk reads are not the ones \<open>map_addr\<close> uses.
\<close>

lemma entry_at_other:
  assumes "\<And>c. c \<in> {pml4_cell v, pdpte_cell v, pd_cell v} \<Longrightarrow> table_of t + 8 * (i AND 0x1ff) \<noteq> c"
    and "8 dvd uint (table_of t + 8 * (i AND 0x1ff))"
  shows "entry_at (map_addr v p f m) t i = entry_at m t i"
  using assms(1) by (simp add: entry_at_def map_addr_load [OF assms(2)])

lemma table_aligned: "8 dvd uint (table_of t)" "uint (table_of t) < 2 ^ 63"
proof -
  have "take_bit 3 (table_of t) = 0"
    by (simp add: table_of_def take_bit_and)
  then have "take_bit 3 (uint (table_of t)) = 0"
    by (metis unsigned_take_bit_eq unsigned_0)
  then show "8 dvd uint (table_of t)"
    by (simp add: take_bit_eq_mod dvd_eq_mod_eq_0)
  have "table_of t = take_bit 52 (table_of t)"
    by (simp add: table_of_def take_bit_and)
      (simp add: take_bit_eq_mask mask_eq_exp_minus_1 and.assoc)
  then have "uint (table_of t) = take_bit 52 (uint (table_of t))"
    by (metis unsigned_take_bit_eq)
  then have "uint (table_of t) < 2 ^ 52"
    by (metis take_bit_int_less_exp)
  then show "uint (table_of t) < 2 ^ 63"
    by simp
qed


lemma table_page: "4096 dvd uint (table_of t)"
proof -
  have "take_bit 12 (table_of t) = 0"
    by (simp add: table_of_def take_bit_and)
  then have "take_bit 12 (uint (table_of t)) = 0"
    by (metis unsigned_take_bit_eq unsigned_0)
  then show ?thesis
    by (simp add: take_bit_eq_mod dvd_eq_mod_eq_0)
qed

lemma pages_apart:
  assumes "4096 dvd uint (t :: u64)" "4096 dvd uint u" "uint t < 2 ^ 63" "uint u < 2 ^ 63" "t \<noteq> u"
  shows "t + 8 * (i AND 0x1ff) \<noteq> u + 8 * (j AND 0x1ff)"
proof -
  have "uint t \<noteq> uint u"
    using assms(5) by (simp add: word_uint_eq_iff)
  then consider "uint t + 4096 \<le> uint u" | "uint u + 4096 \<le> uint t"
    using assms(1,2) by (elim dvdE) (auto, linarith)
  then show ?thesis
  proof cases
    case 1
    then show ?thesis by (rule cells_apart [OF assms(3,4)])
  next
    case 2
    then show ?thesis using cells_apart [OF assms(4,3)] by metis
  qed
qed

text \<open>The tables a walk reads below the first level.\<close>

definition walk_tables :: "u64 \<Rightarrow> memory \<Rightarrow> u64 \<Rightarrow> u64 list" where
  "walk_tables cr3 m v =
     (case entry_at m cr3 (drop_bit 39 v) of None \<Rightarrow> []
      | Some e4 \<Rightarrow> table_of e4 # (case entry_at m e4 (drop_bit 30 v) of None \<Rightarrow> []
        | Some e3 \<Rightarrow> if bit e3 7 then [] else table_of e3 #
           (case entry_at m e3 (drop_bit 21 v) of None \<Rightarrow> []
            | Some e2 \<Rightarrow> if bit e2 7 then [] else [table_of e2])))"

lemma entry_at_elsewhere:
  assumes "table_of t \<notin> {FIRST_PML4_BASE, APIC_PDPTE, APIC_PDE}"
  shows "entry_at (map_addr v p f m) t i = entry_at m t i"
proof (rule entry_at_other)
  show "8 dvd uint (table_of t + 8 * (i AND 0x1ff))"
    by (rule cell_aligned; rule table_aligned)
  show "table_of t + 8 * (i AND 0x1ff) \<noteq> c" if "c \<in> {pml4_cell v, pdpte_cell v, pd_cell v}" for c
    using that assms table_aligned(2) [of t] table_page [of t]
    by (auto simp: pml4_cell_def pdpte_cell_def pd_cell_def)
      (erule notE [rotated], rule pages_apart; simp add: paging_consts)+
qed

lemma entry_at_root:
  assumes "drop_bit 39 w AND 0x1ff \<noteq> drop_bit 39 v AND 0x1ff"
  shows "entry_at (map_addr v p f m) FIRST_PML4_BASE (drop_bit 39 w) =
    entry_at m FIRST_PML4_BASE (drop_bit 39 w)"
proof -
  have "uint (pml4_cell w) \<noteq> uint (pml4_cell v)"
    using assms by (simp add: pml4_cell_def paging_consts uint_cell word_uint_eq_iff)
  then have "pml4_cell w \<noteq> pml4_cell v"
    by metis
  then show ?thesis
    by (simp add: entry_at_cells map_addr_load)
qed

lemma map_addr_keeps:
  assumes "drop_bit 39 w AND 0x1ff \<noteq> drop_bit 39 v AND 0x1ff"
    and "set (walk_tables FIRST_PML4_BASE m w) \<inter> {FIRST_PML4_BASE, APIC_PDPTE, APIC_PDE} = {}"
  shows "walk FIRST_PML4_BASE (map_addr v p f m) w = walk FIRST_PML4_BASE m w"
proof (cases "entry_at m FIRST_PML4_BASE (drop_bit 39 w)")
  case None
  then show ?thesis by (simp add: walk_def entry_at_root [OF assms(1)])
next
  case e4: (Some e4)
  note hints = walk_def entry_at_root [OF assms(1)] entry_at_elsewhere e4
  note tables = assms(2) [unfolded walk_tables_def e4]
  have 4: "table_of e4 \<notin> {FIRST_PML4_BASE, APIC_PDPTE, APIC_PDE}"
    using tables by auto
  show ?thesis
  proof (cases "entry_at m e4 (drop_bit 30 w)")
    case None
    then show ?thesis using 4 by (simp add: hints)
  next
    case e3: (Some e3)
    show ?thesis
    proof (cases "bit e3 7")
      case True
      then show ?thesis using 4 e3 by (simp add: hints)
    next
      case False
      then have 3: "table_of e3 \<notin> {FIRST_PML4_BASE, APIC_PDPTE, APIC_PDE}"
        using tables e3 by auto
      moreover have "table_of e2 \<notin> {FIRST_PML4_BASE, APIC_PDPTE, APIC_PDE}"
        if "entry_at m e3 (drop_bit 21 w) = Some e2" "\<not> bit e2 7" for e2
        using tables e3 False that by auto
      ultimately show ?thesis
        using 4 e3 False by (cases "entry_at m e3 (drop_bit 21 w)") (auto simp: hints)
    qed
  qed
qed

text \<open>
  There is one table of the second and one of the third level: a page mapped later whose
  third index is the same takes the place of the earlier one.
\<close>

lemma map_addr_shared:
  assumes "frame_2mb q" "attributes g" "page_2mb w = page_2mb v"
    and "drop_bit 21 u AND 0x1ff = drop_bit 21 v AND 0x1ff"
  shows "walk FIRST_PML4_BASE (map_addr u q g (map_addr v p f m)) w =
    Some (q OR w AND 0x1FFFFF, g OR PAGE_SIZE_2MB OR q)"
proof -
  have "pd_cell u = pd_cell v"
    using assms(4) by (simp add: pd_cell_def)
  then show ?thesis
    using leaf_entry [OF assms(1,2)] inner_entry_bits
    by (simp add: walk_def entry_at_cells map_addr_load cells_of_page [OF assms(3)])
qed

end
