(* ===== verification/Perf.thy ===== *)
theory Perf
  imports Serial
begin

text \<open>
  \<open>perfctr.cc\<close> and \<open>perfctr.h\<close>: programming the performance counters, and the functions
  whose execution is measured (two searches, an array exercise and a block fill).
\<close>

section \<open>Counter registers\<close>

text \<open>
  \<open>perf_select\<close> is a union of eleven bit-fields, 32 bits together, with a 64-bit value. Its
  canonical view is the one of the bit-fields; the value has them in its low half, and what
  the initialiser of the bit-fields leaves in the upper half is the parameter \<open>rest\<close>.
\<close>

record perf_fields =
  event :: u8
  umask :: u8
  usr :: u8
  os :: u8
  edge :: u8
  pinctrl :: u8
  interrupt :: u8
  reserved :: u8
  enable :: u8
  inverter :: u8
  counter_mask :: u8

definition perf_zero :: perf_fields where
  "perf_zero = \<lparr>event = 0, umask = 0, usr = 0, os = 0, edge = 0, pinctrl = 0, interrupt = 0,
     reserved = 0, enable = 0, inverter = 0, counter_mask = 0\<rparr>"

definition perf_bits :: "u32 \<Rightarrow> perf_fields \<Rightarrow> u64" where
  "perf_bits rest f =
     (let val = push_bit 32 (ucast rest);
          val = set_bits 0 8 (ucast (event f)) val;
          val = set_bits 8 8 (ucast (umask f)) val;
          val = set_bits 16 1 (ucast (usr f)) val;
          val = set_bits 17 1 (ucast (os f)) val;
          val = set_bits 18 1 (ucast (edge f)) val;
          val = set_bits 19 1 (ucast (pinctrl f)) val;
          val = set_bits 20 1 (ucast (interrupt f)) val;
          val = set_bits 21 1 (ucast (reserved f)) val;
          val = set_bits 22 1 (ucast (enable f)) val;
          val = set_bits 23 1 (ucast (inverter f)) val;
          val = set_bits 24 8 (ucast (counter_mask f)) val
      in val)"

definition generate_perf :: "u32 \<Rightarrow> u64" where
  "generate_perf rest =
     (let val = perf_zero;
          val = val\<lparr>event := 0x79\<rparr>;
          val = val\<lparr>umask := 0x08\<rparr>;
          val = val\<lparr>usr := 1\<rparr>;
          val = val\<lparr>os := 1\<rparr>;
          val = val\<lparr>edge := 0\<rparr>;
          val = val\<lparr>pinctrl := 0\<rparr>;
          val = val\<lparr>interrupt := 1\<rparr>;
          val = val\<lparr>enable := 1\<rparr>;
          val = val\<lparr>inverter := 0\<rparr>;
          val = val\<lparr>counter_mask := 1\<rparr>
      in perf_bits rest val)"

definition read :: "u32 \<Rightarrow> 'a machine_scheme \<Rightarrow> u64 \<times> 'a machine_scheme" where
  "read i s =
     (let v = pmc_in (hw s) (trace s) i;
          high = ucast (drop_bit 32 v) :: u32;
          low = ucast v :: u32;
          s = occur (Rdpmc i) s;
          s = mfence s;
          s = lfence s
      in (push_bit 32 (ucast high) OR ucast low, s))"

definition enable_pmi_nmi :: "'a machine_scheme \<Rightarrow> 'a machine_scheme" where
  "enable_pmi_nmi s = apic_write 0x340 (push_bit 8 0b100) s"

definition set_event_counts :: "u64 \<Rightarrow> 'a machine_scheme \<Rightarrow> 'a machine_scheme" where
  "set_event_counts val s = wrmsr 0x309 val s"

definition set_fixed_ctrl :: "'a machine_scheme \<Rightarrow> 'a machine_scheme" where
  "set_fixed_ctrl s = wrmsr 0x38d 0xb0 s"

definition set_perf_globalctrl :: "'a machine_scheme \<Rightarrow> 'a machine_scheme" where
  "set_perf_globalctrl s = wrmsr 0x38f 0x200000001 s"

definition disable_perf_globalctrl :: "'a machine_scheme \<Rightarrow> 'a machine_scheme" where
  "disable_perf_globalctrl s = wrmsr 0x38f 0 s"

definition set_perfselect :: "u64 \<Rightarrow> 'a machine_scheme \<Rightarrow> 'a machine_scheme" where
  "set_perfselect val s = wrmsr 0x186 val s"

definition freeze_on_overflow :: "'a machine_scheme \<Rightarrow> 'a machine_scheme" where
  "freeze_on_overflow s = (let (v, s) = rdmsr 0x1d9 s in wrmsr 0x1d9 (v OR push_bit 12 1) s)"

definition disable_noclear :: "'a machine_scheme \<Rightarrow> 'a machine_scheme" where
  "disable_noclear s = wrmsr 0x186 0 s"

definition clear :: "'a machine_scheme \<Rightarrow> 'a machine_scheme" where
  "clear s =
     (let s = wrmsr 0x186 0 s;
          s = wrmsr 0xc1 0 s
      in wrmsr 0x30a 0 s)"

definition reset :: "'a machine_scheme \<Rightarrow> 'a machine_scheme" where
  "reset s = (let (v, s) = rdmsr 0x38e s in wrmsr 0x390 v s)"

text \<open>\<open>get_perf\<close> executes \<open>cpuid\<close> three times and prints three bytes of \<open>eax\<close>.\<close>

definition get_perf :: "u64 \<Rightarrow> 'a serial_machine_scheme \<Rightarrow> 'a serial_machine_scheme res" where
  "get_perf buffer s =
     (let ((eax, _), s) = cpuid 0x0a 0 s;
          v_id = ucast eax :: u8;
          ((eax, _), s) = cpuid 0x0a 0 s;
          num_perf = ucast (drop_bit 8 eax) :: u8;
          ((eax, _), s) = cpuid 0x0a 0 s;
          perf_bit_width = ucast (drop_bit 16 eax) :: u8
      in rbind (printf_api buffer
           (''Version id %d | Number of Perf ctrs %d | Bit width of counter %d'' @ [CHR 0x0A])
           [VaInt (ucast v_id), VaInt (ucast num_perf), VaInt (ucast perf_bit_width)] s)
         (\<lambda>(_, s). Inr s))"

section \<open>The measured functions\<close>

text \<open>
  An \<open>int\<close> computation whose result must be in range, and an array access. The difference
  that is halved is not negative, so that the division rounds down.
\<close>

definition int32 :: "int \<Rightarrow> int res" where
  "int32 i = (if - (2 ^ 31) \<le> i \<and> i < 2 ^ 31 then Inr i else Inl SignedOverflow)"

definition array_get :: "int list \<Rightarrow> int \<Rightarrow> int res" where
  "array_get arr i = (if 0 \<le> i \<and> i < int (length arr) then Inr (arr ! nat i) else Inl OutOfBounds)"

lemma int32_simp [simp]: "- (2 ^ 31) \<le> i \<Longrightarrow> i < 2 ^ 31 \<Longrightarrow> int32 i = Inr i"
  by (simp add: int32_def)

lemma int32_Inr: "int32 i = Inr j \<Longrightarrow> j = i"
  by (simp add: int32_def split: if_splits)

function binarySearch :: "int list \<Rightarrow> int \<Rightarrow> int \<Rightarrow> int \<Rightarrow> int res" where
  "binarySearch arr l r x =
     (if r \<ge> l
      then rbind (int32 (r - l)) (\<lambda>d.
           rbind (int32 (l + d div 2)) (\<lambda>mid.
           rbind (array_get arr mid) (\<lambda>a.
           if a = x then Inr mid
           else if a > x then rbind (int32 (mid - 1)) (\<lambda>r. binarySearch arr l r x)
           else rbind (int32 (mid + 1)) (\<lambda>l. binarySearch arr l r x))))
      else Inr (- 1))"
  by pat_completeness auto
termination
  by (relation "measure (\<lambda>(arr, l, r, x). nat (r - l + 1))") (auto dest!: int32_Inr)

declare binarySearch.simps [simp del]

function search_loop :: "int list \<Rightarrow> int \<Rightarrow> int \<Rightarrow> int \<Rightarrow> int res" where
  "search_loop arr n x i =
     (if i < n
      then rbind (array_get arr i) (\<lambda>a.
           if a = x then Inr i else rbind (int32 (i + 1)) (\<lambda>i. search_loop arr n x i))
      else Inr (- 1))"
  by pat_completeness auto
termination
  by (relation "measure (\<lambda>(arr, n, x, i). nat (n - i))") (auto dest!: int32_Inr)

declare search_loop.simps [simp del]

definition search :: "int list \<Rightarrow> int \<Rightarrow> int \<Rightarrow> int res" where
  "search arr n x = search_loop arr n x 0"

text \<open>
  \<open>unoptimized_function\<close>: the final contents of its two local arrays and the number of
  \<open>nop\<close>s executed. A \<open>char\<close> is signed.
\<close>

definition unoptimized_function :: "u8 \<Rightarrow> u32 list \<times> u8 list \<times> nat" where
  "unoptimized_function x =
     (let bytes = [0x41414243, 0x44454757, 0x4323343] @ replicate 29 0;
          bytes = fold (\<lambda>ii bytes. if bytes ! ii > 0x100 then bytes[20 := 0x444] else bytes) [0..<2] bytes;
          bytess = map of_nat [0..<128];
          nops = fold (\<lambda>ii n. if sint (bytess ! ii) > 200 then Suc n else n) [0..<128] 0
      in (bytes, bytess, nops))"

text \<open>
  \<open>unoptimized_function2\<close> is a loop in assembly: it stores a zero word, advances the
  address and decrements the 32-bit counter until that is zero. The counter starts with the
  low half of \<open>size / 8\<close>.
\<close>

function zero_loop :: "u64 \<Rightarrow> u32 \<Rightarrow> memory \<Rightarrow> memory" where
  "zero_loop dst ecx m =
     (let m = store_le dst (0 :: u64) m
      in if ecx - 1 \<noteq> 0 then zero_loop (dst + 8) (ecx - 1) m else m)"
  by pat_completeness auto
termination
proof (relation "measure (\<lambda>(dst, ecx, m). unat (ecx - 1))")
  fix dst :: u64 and ecx :: u32 and m m' :: memory
  assume "ecx - 1 \<noteq> 0"
  then have "unat (ecx - 1 - 1) < unat (ecx - 1)"
    using unat_minus_one [of "ecx - 1"] unat_gt_0 [of "ecx - 1"] by linarith
  then show "((dst + 8, ecx - 1, m'), dst, ecx, m) \<in> measure (\<lambda>(dst, ecx, m). unat (ecx - 1))"
    by simp
qed simp

declare zero_loop.simps [simp del]

definition unoptimized_function2 :: "u64 \<Rightarrow> u64 \<Rightarrow> memory \<Rightarrow> memory" where
  "unoptimized_function2 addr sz m = zero_loop addr (ucast (sz div 8)) m"


text \<open>
  Two functions that are never called. The statement of \<open>get_current_ip\<close> calls the label behind the
  call, pops its address into \<open>rax\<close>, increments the word on top of the stack and returns through
  it: the results are \<open>rax\<close>, the address returned to, the stack pointer and memory. \<open>label\<close> is the
  address of \<open>1:\<close>, \<open>rsp\<close> what the compiler's prologue left.
\<close>

definition get_current_ip :: "u64 \<Rightarrow> u64 \<Rightarrow> memory \<Rightarrow> u64 \<times> u64 \<times> u64 \<times> memory" where
  "get_current_ip label rsp m =
     (let m = store_le (rsp - 8) label m;
          rax = load_le m (rsp - 8);
          m = store_le rsp (load_le m rsp + 1 :: u64) m
      in (rax, load_le m rsp, rsp + 8, m))"

definition nothing :: "'a machine_scheme \<Rightarrow> 'a machine_scheme" where
  "nothing s = s"

section \<open>The event selection\<close>

text \<open>
  The value in the lower half, by the fields of the event-select register: event \<open>0x79\<close>,
  unit mask 8, user and kernel mode, interrupt on overflow, enabled, counter mask 1.
\<close>

lemma generate_perf_0: "generate_perf 0 = 0x01530879"
  by code_simp

lemma generate_perf_low:
  assumes "n < 32"
  shows "bit (generate_perf rest) n = bit (generate_perf 0) n"
proof -
  have field: "bit (set_bits pos len v w) n = bit (set_bits pos len v w') n"
    if "bit w n = bit w' n" for pos len and v w w' :: u64
    using that assms by (simp add: bit_set_bits)
  have "bit (push_bit 32 (ucast rest) :: u64) n = bit (push_bit 32 (ucast (0 :: u32)) :: u64) n"
    using assms by (simp add: bit_simps)
  then show ?thesis
    unfolding generate_perf_def perf_bits_def Let_def by (intro field)
qed

lemma generate_perf_high:
  assumes "32 \<le> n" "n < 64"
  shows "bit (generate_perf rest) n = bit rest (n - 32)"
proof -
  have "bit (set_bits pos len v w) n = bit w n" if "pos + len \<le> 32" for pos len and v w :: u64
    using that assms by (simp add: bit_set_bits)
  then have "bit (generate_perf rest) n = bit (push_bit 32 (ucast rest) :: u64) n"
    by (simp add: generate_perf_def perf_bits_def Let_def)
  then show ?thesis
    using assms by (auto simp: bit_simps)
qed

lemma generate_perf_value: "generate_perf rest = push_bit 32 (ucast rest) OR 0x01530879"
proof (rule bit_word_eqI)
  fix n assume n: "n < LENGTH(64)"
  have "bit (0x01530879 :: u64) n \<Longrightarrow> n < 32"
    using generate_perf_high [of n 0] n by (fastforce simp: generate_perf_0)
  then show "bit (generate_perf rest) n = bit (push_bit 32 (ucast rest) OR 0x01530879 :: u64) n"
    using n generate_perf_low [of n rest] generate_perf_high [of n rest]
    by (cases "n < 32") (auto simp: generate_perf_0 bit_simps)
qed

section \<open>Searching\<close>

lemma binarySearch_correct:
  assumes "sorted arr" "int (length arr) < 2 ^ 31" "0 \<le> l" "r < int (length arr)"
  shows "\<exists>i. binarySearch arr l r x = Inr i \<and>
    (if i = - 1 then \<forall>k. l \<le> k \<and> k \<le> r \<longrightarrow> arr ! nat k \<noteq> x
     else l \<le> i \<and> i \<le> r \<and> arr ! nat i = x)"
  using assms
proof (induction arr l r x rule: binarySearch.induct)
  case (1 arr l r x)
  show ?case
  proof (cases "l \<le> r")
    case False
    then show ?thesis by (subst binarySearch.simps) auto
  next
    case True
    define d where "d = r - l"
    define mid where "mid = l + d div 2"
    have d: "int32 (r - l) = Inr d" "int32 (l + d div 2) = Inr mid"
      using True 1(3-6) by (auto simp: int32_def d_def mid_def)
    have mid: "l \<le> mid" "mid \<le> r"
      using True by (auto simp: mid_def d_def)
    then have get: "array_get arr mid = Inr (arr ! nat mid)" and
      m: "int32 (mid - 1) = Inr (mid - 1)" "int32 (mid + 1) = Inr (mid + 1)"
      using 1(4-6) by (auto simp: array_get_def int32_def)
    have le: "arr ! nat k \<le> arr ! nat k'" if "0 \<le> k" "k \<le> k'" "k' < int (length arr)" for k k'
      using that 1(3) by (intro sorted_nth_mono) auto
    have step: "binarySearch arr l r x =
        (if arr ! nat mid = x then Inr mid
         else if arr ! nat mid > x then binarySearch arr l (mid - 1) x
         else binarySearch arr (mid + 1) r x)"
      using True by (subst binarySearch.simps) (simp add: d get m)
    consider "arr ! nat mid = x" | "arr ! nat mid > x" | "arr ! nat mid < x"
      by linarith
    then show ?thesis
    proof cases
      case 1
      then show ?thesis using mid \<open>0 \<le> l\<close> by (auto simp: step)
    next
      case 2
      then obtain i where i: "binarySearch arr l (mid - 1) x = Inr i"
        "if i = - 1 then \<forall>k. l \<le> k \<and> k \<le> mid - 1 \<longrightarrow> arr ! nat k \<noteq> x
         else l \<le> i \<and> i \<le> mid - 1 \<and> arr ! nat i = x"
        using 1(1) [OF True d get _ _ m(1)] 1(3-6) mid by auto
      moreover have "arr ! nat k \<noteq> x" if "mid \<le> k" "k \<le> r" for k
        using le [of mid k] that mid 2 1(5,6) by auto
      ultimately show ?thesis
        using 2 mid by (auto simp: step split: if_splits) (metis linorder_not_le zle_diff1_eq)
    next
      case 3
      then obtain i where i: "binarySearch arr (mid + 1) r x = Inr i"
        "if i = - 1 then \<forall>k. mid + 1 \<le> k \<and> k \<le> r \<longrightarrow> arr ! nat k \<noteq> x
         else mid + 1 \<le> i \<and> i \<le> r \<and> arr ! nat i = x"
        using 1(2) [OF True d get _ _ m(2)] 1(3-6) mid by auto
      moreover have "arr ! nat k \<noteq> x" if "l \<le> k" "k \<le> mid" for k
        using le [of k mid] that mid 3 1(5,6) by auto
      ultimately show ?thesis
        using 3 mid by (auto simp: step split: if_splits) (metis linorder_not_le zless_add1_eq le_less)
    qed
  qed
qed


lemma search_loop_correct:
  assumes "int (length arr) < 2 ^ 31" "n \<le> int (length arr)" "0 \<le> i"
    and "\<And>k. 0 \<le> k \<Longrightarrow> k < i \<Longrightarrow> arr ! nat k \<noteq> x"
  shows "\<exists>j. search_loop arr n x i = Inr j \<and>
    (if j = - 1 then \<forall>k. 0 \<le> k \<and> k < n \<longrightarrow> arr ! nat k \<noteq> x
     else 0 \<le> j \<and> j < n \<and> arr ! nat j = x \<and> (\<forall>k. 0 \<le> k \<and> k < j \<longrightarrow> arr ! nat k \<noteq> x))"
  using assms
proof (induction arr n x i rule: search_loop.induct)
  case (1 arr n x i)
  show ?case
  proof (cases "i < n")
    case False
    with 1(5) show ?thesis by (subst search_loop.simps) auto
  next
    case True
    then have get: "array_get arr i = Inr (arr ! nat i)" and i: "int32 (i + 1) = Inr (i + 1)"
      using 1(2-4) by (auto simp: array_get_def int32_def)
    have step: "search_loop arr n x i = (if arr ! nat i = x then Inr i else search_loop arr n x (i + 1))"
      using True by (subst search_loop.simps) (simp add: get i)
    show ?thesis
    proof (cases "arr ! nat i = x")
      case x: True
      with True 1(4,5) show ?thesis by (auto simp: step)
    next
      case False
      have "arr ! nat k \<noteq> x" if "0 \<le> k" "k < i + 1" for k
        using that 1(5) False by (cases "k = i") auto
      then show ?thesis
        using 1(1) [OF True get False i] 1(2-4) False by (simp add: step)
    qed
  qed
qed

lemma search_correct:
  assumes "int (length arr) < 2 ^ 31" "n \<le> int (length arr)"
  shows "\<exists>j. search arr n x = Inr j \<and>
    (if j = - 1 then \<forall>k. 0 \<le> k \<and> k < n \<longrightarrow> arr ! nat k \<noteq> x
     else 0 \<le> j \<and> j < n \<and> arr ! nat j = x \<and> (\<forall>k. 0 \<le> k \<and> k < j \<longrightarrow> arr ! nat k \<noteq> x))"
  unfolding search_def using assms by (intro search_loop_correct) auto

text \<open>On a sorted array without duplicates the two searches agree.\<close>

lemma binarySearch_search:
  assumes "sorted arr" "distinct arr" "int (length arr) < 2 ^ 31"
  shows "binarySearch arr 0 (int (length arr) - 1) x = search arr (int (length arr)) x"
proof -
  obtain i where i: "binarySearch arr 0 (int (length arr) - 1) x = Inr i"
    "if i = - 1 then \<forall>k. 0 \<le> k \<and> k \<le> int (length arr) - 1 \<longrightarrow> arr ! nat k \<noteq> x
     else 0 \<le> i \<and> i \<le> int (length arr) - 1 \<and> arr ! nat i = x"
    using binarySearch_correct [OF assms(1,3), of 0 "int (length arr) - 1" x] by auto
  obtain j where j: "search arr (int (length arr)) x = Inr j"
    "if j = - 1 then \<forall>k. 0 \<le> k \<and> k < int (length arr) \<longrightarrow> arr ! nat k \<noteq> x
     else 0 \<le> j \<and> j < int (length arr) \<and> arr ! nat j = x \<and> (\<forall>k. 0 \<le> k \<and> k < j \<longrightarrow> arr ! nat k \<noteq> x)"
    using search_correct [OF assms(3), of "int (length arr)" x] by auto
  have "i = j"
  proof (cases "i = - 1")
    case True
    with i(2) j(2) show ?thesis by (auto split: if_splits)
  next
    case False
    then have iv: "0 \<le> i" "i < int (length arr)" "arr ! nat i = x"
      using i(2) by auto
    then have jv: "0 \<le> j" "j < int (length arr)" "arr ! nat j = x"
      using j(2) by (auto split: if_splits)
    have "nat i = nat j"
      using nth_eq_iff_index_eq [OF assms(2), of "nat i" "nat j"] iv jv by auto
    with iv jv show ?thesis by simp
  qed
  with i j show ?thesis by simp
qed

section \<open>The block fill\<close>

lemma store_zero: "store_le a (0 :: u64) m x = (if unat (x - a) < 8 then 0 else m x)"
  by (auto simp: store_le_def store_bytes_def word_bytes_def)

lemma unat_sub_8:
  "unat (x - (d + 8) :: u64) = (if 8 \<le> unat (x - d) then unat (x - d) - 8 else 2 ^ 64 - 8 + unat (x - d))"
proof -
  define y where "y = x - d"
  have "unat y < 2 ^ 64"
    using unsigned_less [of y, where ?'a = nat] by simp
  have "x - (d + 8) = y - 8"
    by (simp add: y_def)
  moreover have "unat (y - 8) = (if 8 \<le> unat y then unat y - 8 else 2 ^ 64 - 8 + unat y)"
    using \<open>unat y < 2 ^ 64\<close> by (auto simp: unat_sub_if' word_le_nat_alt)
  ultimately show ?thesis
    by (simp only: y_def)
qed

lemma zero_loop_eq:
  "zero_loop dst ecx m a = (if unat (a - dst) < 8 * Suc (unat (ecx - 1)) then 0 else m a)"
proof (induction dst ecx m rule: zero_loop.induct)
  case (1 dst ecx m)
  let ?m = "store_le dst (0 :: u64) m"
  show ?case
  proof (cases "ecx - 1 = 0")
    case True
    then show ?thesis by (subst zero_loop.simps) (simp add: store_zero)
  next
    case False
    have n: "unat (ecx - 1) = Suc (unat (ecx - 1 - 1))"
      using False unat_minus_one [of "ecx - 1"] unat_gt_0 [of "ecx - 1"] by linarith
    have "unat (ecx - 1) < 2 ^ 32"
      using unsigned_less [of "ecx - 1", where ?'a = nat] by simp
    have "zero_loop dst ecx m a = zero_loop (dst + 8) (ecx - 1) ?m a"
      using False by (subst zero_loop.simps) (simp add: Let_def)
    also have "\<dots> = (if unat (a - (dst + 8)) < 8 * Suc (unat (ecx - 1 - 1)) then 0 else ?m a)"
      by (rule 1 [OF refl False])
    also have "\<dots> = (if unat (a - dst) < 8 * Suc (unat (ecx - 1)) then 0 else m a)"
      using n \<open>unat (ecx - 1) < 2 ^ 32\<close> by (auto simp: unat_sub_8 store_zero)
    finally show ?thesis .
  qed
qed

lemma fill_eq:
  assumes "8 \<le> unat sz" "unat sz < 2 ^ 35"
  shows "unoptimized_function2 addr sz m a = (if unat (a - addr) < 8 * (unat sz div 8) then 0 else m a)"
proof -
  have "unat (sz div 8) = unat sz div 8"
    by (simp add: unat_div_distrib)
  then have u: "unat (ucast (sz div 8) :: u32) = unat sz div 8"
    using assms(2) by (simp add: unsigned_ucast_eq take_bit_nat_eq_self_iff)
  then have "(ucast (sz div 8) :: u32) \<noteq> 0"
    using assms(1) by (metis div_greater_zero_iff less_irrefl unsigned_0 zero_less_numeral)
  then have "Suc (unat (ucast (sz div 8) - 1 :: u32)) = unat sz div 8"
    using u unat_minus_one [of "ucast (sz div 8) :: u32"] unat_gt_0 [of "ucast (sz div 8) :: u32"] by simp
  then show ?thesis
    by (simp add: unoptimized_function2_def zero_loop_eq)
qed

text \<open>With less than eight bytes to fill, the counter starts at zero and wraps around.\<close>

lemma fill_small:
  assumes "unat sz < 8"
  shows "unoptimized_function2 addr sz m a = (if unat (a - addr) < 2 ^ 35 then 0 else m a)"
proof -
  have "sz div 8 = 0"
    using assms by (intro unsigned_word_eqI [where 'a = nat]) (simp add: unat_div_distrib)
  then show ?thesis
    by (simp add: unoptimized_function2_def zero_loop_eq unsigned_minus_1_eq_mask mask_eq_exp_minus_1)
qed

section \<open>The array exercise\<close>

text \<open>A signed \<open>char\<close> never exceeds 200: no \<open>nop\<close> is executed.\<close>

lemma char_not_200: "\<not> sint (c :: u8) > 200"
  using sint_lt [of c] by simp

lemma unoptimized_function_nops:
  "snd (snd (unoptimized_function x)) = 0"
proof -
  have "fold (\<lambda>ii n. if sint (f ii :: u8) > 200 then Suc n else n) xs k = k" for f xs k
    by (induction xs arbitrary: k) (simp_all add: char_not_200)
  then show ?thesis
    by (simp add: unoptimized_function_def Let_def)
qed

section \<open>The address of an instruction\<close>

text \<open>
  \<open>get_current_ip\<close> gets the address, but it returns one byte behind the address that is on top of
  the stack.
\<close>

lemma get_current_ip_skips:
  "fst (get_current_ip label rsp m) = label" "fst (snd (get_current_ip label rsp m)) = load_le m rsp + 1"
proof -
  have "load_le (store_le (rsp - 8) label m) rsp = (load_le m rsp :: u64)"
  proof (rule cell64.ld_st_other)
    fix i :: nat assume "i < 8"
    then show "\<not> unat (rsp + of_nat i - (rsp - 8)) < 8"
      using unat_of_nat_64 [of "8 + i"] by (simp add: add.commute)
  qed
  then show "fst (get_current_ip label rsp m) = label" "fst (snd (get_current_ip label rsp m)) = load_le m rsp + 1"
    by (simp_all add: get_current_ip_def cells Let_def)
qed

end
