(* ===== verification/Printing.thy ===== *)
theory Printing
  imports Serial
begin

text \<open>
  Several processors that call \<open>printf_\<close>: every interleaving of their ticket operations and
  of the characters the holder of the lock sends. A call fetches a ticket, spins until it is
  served, hands the characters of its text one by one to \<open>_out_char\<close>, and drops the guard
  when \<open>_vsnprintf\<close> has returned; which characters these are is \<open>format_text\<close>, whatever the
  output function (\<open>vsnprintf_same_text\<close>). The driver runs under the lock only, so a
  character is one step.

  The specification is a spooler: requests are queued, and the first one is printed as a whole.
\<close>

section \<open>The interleavings\<close>

datatype call = Idle | Waiting u32 string | Printing u64 string

record 'a printing =
  shared :: "'a serial_machine_scheme"
  calls :: "nat \<Rightarrow> call"

inductive print_step :: "nat \<Rightarrow> u64 \<Rightarrow> 'a printing \<Rightarrow> 'a printing \<Rightarrow> bool" for N :: nat and b :: u64 where
  call: "i < N \<Longrightarrow> calls s i = Idle \<Longrightarrow> format_text format va = Inr cs \<Longrightarrow> take_ticket (spin (shared s)) = (t, l) \<Longrightarrow>
    print_step N b s (s\<lparr>shared := (shared s)\<lparr>spin := l\<rparr>, calls := (calls s)(i := Waiting t cs)\<rparr>)"
| wait: "i < N \<Longrightarrow> calls s i = Waiting t cs \<Longrightarrow> \<not> my_turn (spin (shared s)) t \<Longrightarrow> print_step N b s s"
| enter: "i < N \<Longrightarrow> calls s i = Waiting t cs \<Longrightarrow> my_turn (spin (shared s)) t \<Longrightarrow>
    print_step N b s (s\<lparr>calls := (calls s)(i := Printing 0 cs)\<rparr>)"
| char: "i < N \<Longrightarrow> calls s i = Printing n (c # cs) \<Longrightarrow>
    out_char putchar_serial c b n (- 1) (Inr (shared s)) = Inr m \<Longrightarrow>
    print_step N b s (s\<lparr>shared := m, calls := (calls s)(i := Printing (n + 1) cs)\<rparr>)"
| return: "i < N \<Longrightarrow> calls s i = Printing n [] \<Longrightarrow>
    out_char putchar_serial CHR 0x00 b n (- 1) (Inr (shared s)) = Inr m \<Longrightarrow>
    print_step N b s (s\<lparr>shared := m\<lparr>spin := drop_guard (spin m)\<rparr>, calls := (calls s)(i := Idle)\<rparr>)"

inductive_cases print_stepE: "print_step N b s t"

definition print_init :: "'a serial_machine_scheme \<Rightarrow> 'a printing \<Rightarrow> bool" where
  "print_init m s \<longleftrightarrow> s = \<lparr>shared = m, calls = \<lambda>_. Idle\<rparr> \<and> spin m = lock_init"

section \<open>The specification\<close>

record spool =
  requests :: "(nat \<times> string) list"
  printed :: "(nat \<times> string) list"

inductive spool_step :: "nat \<Rightarrow> spool \<Rightarrow> spool \<Rightarrow> bool" for N :: nat where
  request: "i < N \<Longrightarrow> i \<notin> fst ` set (requests a) \<Longrightarrow>
    spool_step N a (a\<lparr>requests := requests a @ [(i, cs)]\<rparr>)"
| quiet: "spool_step N a a"
| deliver: "requests a = r # w \<Longrightarrow> spool_step N a \<lparr>requests = w, printed = printed a @ [r]\<rparr>"

definition spool_init :: "spool \<Rightarrow> bool" where
  "spool_init a \<longleftrightarrow> a = \<lparr>requests = [], printed = []\<rparr>"

section \<open>The relation\<close>

text \<open>The ticket lock the processors go through.\<close>

definition pc_of :: "call \<Rightarrow> pc" where
  "pc_of c = (case c of Idle \<Rightarrow> Outside | Waiting t cs \<Rightarrow> Spinning t | Printing n cs \<Rightarrow> Holding)"

definition lock_view :: "'a printing \<Rightarrow> sys" where
  "lock_view s = \<lparr>lck = spin (shared s), pcs = \<lambda>i. pc_of (calls s i)\<rparr>"

lemma pc_of_simps [simp]:
  "pc_of Idle = Outside" "pc_of (Waiting t cs) = Spinning t" "pc_of (Printing n cs) = Holding"
  by (simp_all add: pc_of_def)

lemma pc_of_eq:
  "pc_of c = Outside \<longleftrightarrow> c = Idle" "pc_of c = Spinning t \<longleftrightarrow> (\<exists>cs. c = Waiting t cs)"
  "pc_of c = Holding \<longleftrightarrow> (\<exists>n cs. c = Printing n cs)"
  by (cases c; simp)+

lemma lock_view_simps [simp]: "lck (lock_view s) = spin (shared s)" "pcs (lock_view s) i = pc_of (calls s i)"
  by (simp_all add: lock_view_def)

text \<open>
  What a request has on its processor: the whole text while it waits; the rest of it, and
  \<open>out\<close> already sent, while it is printed.
\<close>

definition request_of :: "string \<Rightarrow> string \<Rightarrow> call \<Rightarrow> bool" where
  "request_of out cs c \<longleftrightarrow> (\<exists>t. c = Waiting t cs) \<or> (\<exists>n rest. c = Printing n rest \<and> cs = out @ rest)"

definition queue_of :: "bool \<Rightarrow> spool \<Rightarrow> fifo" where
  "queue_of ins a = \<lparr>waiting = map fst (requests a), inside = ins\<rparr>"

definition wires :: "'a serial_machine_scheme \<Rightarrow> 'a serial_machine_scheme \<Rightarrow> string \<Rightarrow> bool" where
  "wires m0 m cs \<longleftrightarrow> device m = device m0 \<and> hw m = hw m0 \<and>
     (\<forall>p. p \<noteq> 0 \<longrightarrow> p \<in> set (device m0) \<longrightarrow> sent p (trace m) = sent p (trace m0) @ wire_text cs)"

definition print_rel :: "nat \<Rightarrow> 'a serial_machine_scheme \<Rightarrow> 'a printing \<Rightarrow> spool \<Rightarrow> bool" where
  "print_rel N m0 s a \<longleftrightarrow> (\<exists>ins out.
     lock_rel N (lock_view s) (queue_of ins a) \<and> (\<not> ins \<longrightarrow> out = []) \<and>
     (\<forall>(i, cs) \<in> set (requests a). request_of out cs (calls s i)) \<and>
     wires m0 (shared s) (concat (map snd (printed a)) @ out))"


section \<open>Simulation\<close>

text \<open>A machine on which every write of a character returns.\<close>

definition prints :: "'a serial_machine_scheme \<Rightarrow> bool" where
  "prints m \<longleftrightarrow> ready m \<and> distinct (filter (\<lambda>d. d \<noteq> 0) (device m))"

lemma prints_cong: "device t = device s \<Longrightarrow> hw t = hw s \<Longrightarrow> prints t \<longleftrightarrow> prints s"
  by (simp add: prints_def ready_def)

lemma wire_text_append: "wire_text (xs @ ys) = wire_text xs @ wire_text ys"
  by (simp add: wire_text_def)

lemma char_sent:
  assumes "prints s"
  shows "\<exists>m. out_char putchar_serial c b n k (Inr s) = Inr m \<and> device m = device s \<and> hw m = hw s \<and> spin m = spin s \<and>
    (\<forall>p. p \<noteq> 0 \<longrightarrow> p \<in> set (device s) \<longrightarrow> sent p (trace m) = sent p (trace s) @ wire_text [c])"
proof (cases "c = CHR 0x00")
  case True
  then show ?thesis
    by (simp add: out_char_def wire_text_def)
next
  case False
  obtain m where m: "write_devices c (device s) s = Inr m" "only_trace s m"
    "\<And>p. sent p (trace m) = sent p (trace s) @ concat (map (device_bytes c p) (device s))"
    using write_devices_ready [of "device s" s c] assms unfolding prints_def ready_def by blast
  have "out_char putchar_serial c b n k (Inr s) = Inr m"
    using m(1) False by (simp add: out_char_def putchar_serial_def write_byte_def)
  moreover have "hw m = hw s" "device m = device s" "spin m = spin s"
    using m(2) only_trace_serial [OF m(2)] by (simp_all add: only_trace_def)
  moreover have "sent p (trace m) = sent p (trace s) @ wire_text [c]" if "p \<noteq> 0" "p \<in> set (device s)" for p
    using assms m(3) that device_bytes_distinct [of p "device s" c] False
    by (simp add: prints_def wire_text_def)
  ultimately show ?thesis
    by blast
qed

lemma wires_spin [simp]: "wires m0 (m\<lparr>spin := l\<rparr>) cs \<longleftrightarrow> wires m0 m cs"
  by (simp add: wires_def)

lemma wires_char:
  assumes "prints m0" "wires m0 m cs" "out_char putchar_serial c b n k (Inr m) = Inr m'"
  shows "wires m0 m' (cs @ [c])" "spin m' = spin m"
proof -
  have "prints m"
    using assms(1,2) prints_cong [of m m0] by (simp add: wires_def)
  then obtain u where u: "out_char putchar_serial c b n k (Inr m) = Inr u" "device u = device m"
    "hw u = hw m" "spin u = spin m"
    "\<forall>p. p \<noteq> 0 \<longrightarrow> p \<in> set (device m) \<longrightarrow> sent p (trace u) = sent p (trace m) @ wire_text [c]"
    using char_sent [of m c b n k] by blast
  have "u = m'"
    using assms(3) u(1) by simp
  with u assms(2) show "wires m0 m' (cs @ [c])" "spin m' = spin m"
    by (auto simp: wires_def wire_text_append)
qed

text \<open>The requests of the other processors stay what they are.\<close>

lemma request_of_waiting: "request_of out cs (Waiting t cs)"
  by (simp add: request_of_def)

lemma queued_distinct:
  assumes "lock_rel N v (queue_of ins a)"
  shows "distinct (map fst (requests a))"
  using assms by (simp add: lock_rel_def queue_of_def)

lemma rel_call:
  assumes "lock_rel N (lock_view s) (queue_of ins a)" "i < N" "calls s i = Idle"
    "\<forall>(i, cs) \<in> set (requests a). request_of out cs (calls s i)"
    "take_ticket (spin (shared s)) = (t, l)"
    "s' = s\<lparr>shared := (shared s)\<lparr>spin := l\<rparr>, calls := (calls s)(i := Waiting t cs)\<rparr>"
  shows "i \<notin> fst ` set (requests a)"
    "lock_rel N (lock_view s') (queue_of ins (a\<lparr>requests := requests a @ [(i, cs)]\<rparr>))"
    "\<forall>(i, cs) \<in> set (requests a @ [(i, cs)]). request_of out cs (calls s' i)"
proof -
  have "lock_view s' = (lock_view s)\<lparr>lck := (lck (lock_view s))\<lparr>acquire := acquire (lck (lock_view s)) + 1\<rparr>,
      pcs := (pcs (lock_view s))(i := Spinning (acquire (lck (lock_view s))))\<rparr>"
    using assms(5,6) by (auto simp: lock_view_def take_ticket_def fun_eq_iff)
  from sim_fetch [OF assms(1,2) _ this] assms(3)
  show new: "i \<notin> fst ` set (requests a)"
    and "lock_rel N (lock_view s') (queue_of ins (a\<lparr>requests := requests a @ [(i, cs)]\<rparr>))"
    by (simp_all add: queue_of_def)
  show "\<forall>(i, cs) \<in> set (requests a @ [(i, cs)]). request_of out cs (calls s' i)"
    using assms(4,6) new by (force simp: request_of_waiting)
qed

lemma enter_free:
  assumes "lock_rel N (lock_view s) (queue_of ins a)" "N \<le> 2 ^ 32" "calls s i = Waiting t cs"
    "my_turn (spin (shared s)) t"
  shows "\<not> ins"
  using sim_enter(2) [OF assms(1,2), of i t] assms(3,4) by (simp add: queue_of_def)

lemma rel_enter:
  assumes "lock_rel N (lock_view s) (queue_of ins a)" "N \<le> 2 ^ 32" "calls s i = Waiting t cs"
    "my_turn (spin (shared s)) t"
    "\<forall>(i, cs) \<in> set (requests a). request_of [] cs (calls s i)"
    "s' = s\<lparr>calls := (calls s)(i := Printing 0 cs)\<rparr>"
  shows "lock_rel N (lock_view s') (queue_of True a)"
    "\<forall>(i, cs) \<in> set (requests a). request_of [] cs (calls s' i)"
proof -
  have "lock_view s' = (lock_view s)\<lparr>pcs := (pcs (lock_view s))(i := Holding)\<rparr>"
    using assms(6) by (auto simp: lock_view_def fun_eq_iff)
  from sim_enter [OF assms(1,2) _ _ this] assms(3,4)
  show "lock_rel N (lock_view s') (queue_of True a)"
    by (simp_all add: queue_of_def)
  show "\<forall>(i, cs) \<in> set (requests a). request_of [] cs (calls s' i)"
    using assms(3,5,6) by (auto simp: request_of_def split: if_splits)
qed

text \<open>The holder is the first of the queue, and the others wait.\<close>

lemma rel_holder:
  assumes "lock_rel N (lock_view s) (queue_of ins a)" "calls s i = Printing n rest"
    "\<forall>(i, cs) \<in> set (requests a). request_of out cs (calls s i)"
  shows "ins" "\<exists>w. requests a = (i, out @ rest) # w"
    "(j, cs) \<in> set (requests a) \<Longrightarrow> j \<noteq> i \<Longrightarrow> \<exists>t. calls s j = Waiting t cs"
proof -
  obtain w' where "waiting (queue_of ins a) = i # w'" and ins: "inside (queue_of ins a)"
    using lock_rel_holding [OF assms(1), of i] assms(2) by auto
  then obtain cs' w where w: "requests a = (i, cs') # w"
    by (cases "requests a") (auto simp: queue_of_def)
  with assms(2,3) show "\<exists>w. requests a = (i, out @ rest) # w"
    by (auto simp: request_of_def)
  show "ins"
    using ins by (simp add: queue_of_def)
  assume j: "(j, cs) \<in> set (requests a)" "j \<noteq> i"
  have "pcs (lock_view s) j \<noteq> Holding"
    using lock_rel_exclusive [OF assms(1), of i j] assms(2) j(2) by auto
  then show "\<exists>t. calls s j = Waiting t cs"
    using assms(3) j(1) by (auto simp: request_of_def)
qed

lemma rel_char:
  assumes "lock_rel N (lock_view s) (queue_of ins a)" "calls s i = Printing n (c # rest)"
    "\<forall>(i, cs) \<in> set (requests a). request_of out cs (calls s i)"
    "s' = s\<lparr>shared := m, calls := (calls s)(i := Printing n' rest)\<rparr>" "spin m = spin (shared s)"
  shows "lock_rel N (lock_view s') (queue_of ins a)"
    "\<forall>(i, cs) \<in> set (requests a). request_of (out @ [c]) cs (calls s' i)"
proof -
  have "lock_view s' = lock_view s"
    using assms(2,4,5) by (auto simp: lock_view_def fun_eq_iff)
  then show "lock_rel N (lock_view s') (queue_of ins a)"
    using assms(1) by simp
  show "\<forall>(i, cs) \<in> set (requests a). request_of (out @ [c]) cs (calls s' i)"
  proof (intro ballI, clarify)
    fix j cs assume j: "(j, cs) \<in> set (requests a)"
    show "request_of (out @ [c]) cs (calls s' j)"
    proof (cases "j = i")
      case True
      then show ?thesis
        using assms(2-4) j by (auto simp: request_of_def)
    next
      case False
      then show ?thesis
        using rel_holder(3) [OF assms(1-3) j] assms(4) by (auto simp: request_of_def)
    qed
  qed
qed

lemma rel_return:
  assumes "lock_rel N (lock_view s) (queue_of ins a)" "calls s i = Printing n []"
    "\<forall>(i, cs) \<in> set (requests a). request_of out cs (calls s i)"
    "s' = s\<lparr>shared := m\<lparr>spin := drop_guard (spin m)\<rparr>, calls := (calls s)(i := Idle)\<rparr>"
    "spin m = spin (shared s)"
  obtains w where "requests a = (i, out) # w"
    "lock_rel N (lock_view s') (queue_of False \<lparr>requests = w, printed = ps\<rparr>)"
    "\<forall>(i, cs) \<in> set w. request_of [] cs (calls s' i)"
proof -
  obtain w where w: "requests a = (i, out) # w"
    using rel_holder(2) [OF assms(1-3)] by auto
  have "lock_view s' = (lock_view s)\<lparr>lck := drop_guard (lck (lock_view s)), pcs := (pcs (lock_view s))(i := Outside)\<rparr>"
    using assms(4,5) by (auto simp: lock_view_def fun_eq_iff)
  from sim_leave(1) [OF assms(1) _ this] assms(2) w
  have "lock_rel N (lock_view s') (queue_of False \<lparr>requests = w, printed = ps\<rparr>)"
    by (auto simp: queue_of_def)
  moreover have "\<forall>(j, cs) \<in> set w. request_of [] cs (calls s' j)"
  proof (intro ballI, clarify)
    fix j cs assume j: "(j, cs) \<in> set w"
    then have "j \<noteq> i"
      using queued_distinct [OF assms(1)] w by force
    then show "request_of [] cs (calls s' j)"
      using rel_holder(3) [OF assms(1-3), of j cs] j w assms(4) by (auto simp: request_of_def)
  qed
  ultimately show thesis
    using that w by blast
qed


lemma print_simulates:
  assumes "print_step N b s t" "print_rel N m0 s a" "N \<le> 2 ^ 32" "prints m0"
  shows "\<exists>a'. spool_step N a a' \<and> print_rel N m0 t a'"
proof -
  obtain ins out where R: "lock_rel N (lock_view s) (queue_of ins a)" "\<not> ins \<longrightarrow> out = []"
    "\<forall>(i, cs) \<in> set (requests a). request_of out cs (calls s i)"
    "wires m0 (shared s) (concat (map snd (printed a)) @ out)"
    using assms(2) by (auto simp: print_rel_def)
  from assms(1) show ?thesis
  proof cases
    case (call i format va cs tk l)
    note new = rel_call [OF R(1) call(2,3) R(3) call(5,1)]
    have "print_rel N m0 t (a\<lparr>requests := requests a @ [(i, cs)]\<rparr>)"
      unfolding print_rel_def using new(2,3) R(2,4) call(1)
      by (intro exI [of _ ins] exI [of _ out]) simp
    then show ?thesis
      using spool_step.request [of i N a cs] call(2) new(1) by blast
  next
    case (wait i tk cs)
    then show ?thesis
      using assms(2) spool_step.quiet by blast
  next
    case (enter i cs tk)
    have "out = []"
      using enter_free [OF R(1) assms(3) enter(3,4)] R(2) by simp
    then have "print_rel N m0 t a"
      unfolding print_rel_def using rel_enter [OF R(1) assms(3) enter(3,4) _ enter(1)] R(3,4) enter(1)
      by (intro exI [of _ True] exI [of _ "[]"]) simp
    then show ?thesis
      using spool_step.quiet by blast
  next
    case (char i n c cs m)
    note w = wires_char [OF assms(4) R(4) char(4)]
    have "print_rel N m0 t a"
      unfolding print_rel_def using rel_char [OF R(1) char(3) R(3) char(1) w(2)] w(1) rel_holder(1) [OF R(1) char(3) R(3)] char(1)
      by (intro exI [of _ ins] exI [of _ "out @ [c]"]) simp
    then show ?thesis
      using spool_step.quiet by blast
  next
    case (return i n m)
    note w = wires_char [OF assms(4) R(4) return(4)]
    obtain v where v: "requests a = (i, out) # v"
      "lock_rel N (lock_view t) (queue_of False \<lparr>requests = v, printed = printed a @ [(i, out)]\<rparr>)"
      "\<forall>(i, cs) \<in> set v. request_of [] cs (calls t i)"
      using rel_return [OF R(1) return(3) R(3) return(1) w(2)] by blast
    have "m = shared s"
      using return(4) by (simp add: out_char_def)
    then have "print_rel N m0 t \<lparr>requests = v, printed = printed a @ [(i, out)]\<rparr>"
      unfolding print_rel_def using v(2,3) R(4) return(1)
      by (intro exI [of _ False] exI [of _ "[]"]) simp
    then show ?thesis
      using spool_step.deliver [OF v(1)] by blast
  qed
qed

lemma print_rel_init:
  assumes "print_init m0 s"
  shows "print_rel N m0 s \<lparr>requests = [], printed = []\<rparr>"
proof -
  have "sys_init (lock_view s)"
    using assms by (simp add: print_init_def sys_init_def)
  from lock_rel_init [OF this] show ?thesis
    using assms unfolding print_rel_def
    by (intro exI [of _ False] exI [of _ "[]"]) (simp add: queue_of_def print_init_def wires_def wire_text_def)
qed

interpretation spooler: simulation
  "\<lambda>s. N \<le> 2 ^ 32 \<and> prints m0 \<and> print_init m0 s" "print_step N b" spool_init "spool_step N"
  "\<lambda>s a. N \<le> 2 ^ 32 \<and> prints m0 \<and> print_rel N m0 s a" for N b m0
proof
  show "\<exists>a. spool_init a \<and> N \<le> 2 ^ 32 \<and> prints m0 \<and> print_rel N m0 s a"
    if "N \<le> 2 ^ 32 \<and> prints m0 \<and> print_init m0 s" for s
    using that print_rel_init by (auto simp: spool_init_def)
  show "\<exists>a'. spool_step N a a' \<and> N \<le> 2 ^ 32 \<and> prints m0 \<and> print_rel N m0 t a'"
    if "print_step N b s t" "N \<le> 2 ^ 32 \<and> prints m0 \<and> print_rel N m0 s a" for s t a
    using that print_simulates by blast
qed

text \<open>What is on the wire in a reachable state.\<close>

lemma print_rel_wire:
  assumes "print_rel N m0 s a"
  obtains out where "\<And>p. p \<noteq> 0 \<Longrightarrow> p \<in> set (device m0) \<Longrightarrow>
      sent p (trace (shared s)) = sent p (trace m0) @ wire_text (concat (map snd (printed a)) @ out)"
    "(\<forall>i n rest. calls s i \<noteq> Printing n rest) \<Longrightarrow> out = []"
    "\<And>i n rest. calls s i = Printing n rest \<Longrightarrow> hd (requests a) = (i, out @ rest)"
proof -
  obtain ins out where R: "lock_rel N (lock_view s) (queue_of ins a)" "\<not> ins \<longrightarrow> out = []"
    "\<forall>(i, cs) \<in> set (requests a). request_of out cs (calls s i)"
    "wires m0 (shared s) (concat (map snd (printed a)) @ out)"
    using assms by (auto simp: print_rel_def)
  have "\<exists>i n rest. calls s i = Printing n rest" if busy: ins
  proof -
    have "pcs (lock_view s) (hd (waiting (queue_of ins a))) = Holding"
      using lock_rel_inside [OF R(1)] busy by (simp add: queue_of_def)
    then show ?thesis
      by (auto simp: pc_of_eq)
  qed
  then have "(\<forall>i n rest. calls s i \<noteq> Printing n rest) \<Longrightarrow> out = []"
    using R(2) by blast
  moreover have "hd (requests a) = (i, out @ rest)" if "calls s i = Printing n rest" for i n rest
    using rel_holder(2) [OF R(1) that R(3)] by auto
  ultimately show thesis
    using R(4) by (intro that [of out]) (auto simp: wires_def)
qed


text \<open>Some processor can always go on.\<close>

lemma print_progress:
  assumes "print_rel N m0 s a" "prints m0" "calls s i \<noteq> Idle"
  shows "\<exists>t. t \<noteq> s \<and> print_step N b s t"
proof -
  obtain ins out where R: "lock_rel N (lock_view s) (queue_of ins a)"
    "wires m0 (shared s) (concat (map snd (printed a)) @ out)"
    using assms(1) by (auto simp: print_rel_def)
  have "prints (shared s)"
    using assms(2) R(2) prints_cong [of "shared s" m0] by (simp add: wires_def)
  obtain j where j: "j < N" "pcs (lock_view s) j = Holding \<or>
      (\<exists>tk. pcs (lock_view s) j = Spinning tk \<and> my_turn (lck (lock_view s)) tk)"
    using lock_rel_progress [OF R(1), of i] assms(3) by (auto simp: pc_of_eq)
  then consider n c rest where "calls s j = Printing n (c # rest)" | n where "calls s j = Printing n []"
    | tk cs where "calls s j = Waiting tk cs" "my_turn (spin (shared s)) tk"
    by (auto simp: pc_of_eq) (metis list.exhaust)
  then have "\<exists>t. calls t j \<noteq> calls s j \<and> print_step N b s t"
  proof cases
    case (1 n c rest)
    obtain m where "out_char putchar_serial c b n (- 1) (Inr (shared s)) = Inr m"
      using char_sent [OF \<open>prints (shared s)\<close>] by blast
    from print_step.char [OF j(1) 1 this] 1 show ?thesis
      by (intro exI conjI) auto
  next
    case (2 n)
    have "out_char putchar_serial CHR 0x00 b n (- 1) (Inr (shared s)) = Inr (shared s)"
      by (simp add: out_char_def)
    from print_step.return [OF j(1) 2 this] 2 show ?thesis
      by (intro exI conjI) auto
  next
    case (3 tk cs)
    from print_step.enter [OF j(1) 3] 3 show ?thesis
      by (intro exI conjI) auto
  qed
  then show ?thesis
    by metis
qed

end
