(* ===== verification/Interrupt_Entry.thy ===== *)
theory Interrupt_Entry
  imports Interrupt
begin

text \<open>
  \<open>interrupt.s\<close>: the stubs of the 32 exceptions and \<open>entry_vector\<close>, which save the registers on
  the stack of the interrupted code, call \<open>interrupt_handler\<close> and restore them. The frame the
  processor pushed, and for some exceptions an error code below it, is on the stack already.
  What the compiled handler keeps below its stack pointer is not part of the memory modelled.
\<close>

section \<open>The code\<close>

record cpu_registers = registers +
  seg_ds :: u16
  seg_es :: u16
  seg_fs :: u16
  seg_gs :: u16

text \<open>The exceptions whose stub is \<open>EXCEPTION_ENTRY_ERROR_CODE\<close>.\<close>

definition error_code_vectors :: "nat list" where
  "error_code_vectors = [8, 10, 11, 12, 13, 14, 17]"

fun push_all :: "u64 list \<Rightarrow> u64 \<times> memory \<Rightarrow> u64 \<times> memory" where
  "push_all [] sm = sm"
| "push_all (w # ws) (sp, m) = push_all ws (sp - 8, store_le (sp - 8) w m)"

fun pop_all :: "nat \<Rightarrow> u64 \<times> memory \<Rightarrow> u64 list \<times> u64" where
  "pop_all 0 (sp, m) = ([], sp)"
| "pop_all (Suc n) (sp, m) = (let (ws, sp') = pop_all n (sp + 8, m) in (load_le m sp # ws, sp'))"

definition stub_words :: "nat \<Rightarrow> u64 list" where
  "stub_words vec = (if vec \<in> set error_code_vectors then [of_nat vec] else [0, of_nat vec])"

definition saved_words :: "cpu_registers \<Rightarrow> u64 list" where
  "saved_words c =
     [reg_rax c, reg_rbx c, reg_rcx c, reg_rdx c, reg_rsi c, reg_rdi c, reg_rbp c,
      reg_r15 c, reg_r14 c, reg_r13 c, reg_r12 c, reg_r11 c, reg_r10 c, reg_r9 c, reg_r8 c,
      ucast (seg_gs c), ucast (seg_fs c), ucast (seg_es c), ucast (seg_ds c)]"

definition restored :: "u64 list \<Rightarrow> cpu_registers" where
  "restored ws =
     \<lparr>reg_r8 = ws ! 4, reg_r9 = ws ! 5, reg_r10 = ws ! 6, reg_r11 = ws ! 7, reg_r12 = ws ! 8, reg_r13 = ws ! 9,
      reg_r14 = ws ! 10, reg_r15 = ws ! 11, reg_rbp = ws ! 12, reg_rsi = ws ! 14, reg_rdi = ws ! 13,
      reg_rdx = ws ! 15, reg_rcx = ws ! 16, reg_rbx = ws ! 17, reg_rax = ws ! 18,
      seg_ds = ucast (ws ! 0), seg_es = ucast (ws ! 1), seg_fs = ucast (ws ! 2), seg_gs = ucast (ws ! 3)\<rparr>"

text \<open>The stub and \<open>entry_vector\<close>, up to the call and from the return to \<open>iretq\<close>.\<close>

definition entry_vector ::
    "u64 \<Rightarrow> nat \<Rightarrow> cpu_registers \<Rightarrow> u64 \<Rightarrow> 'a serial_machine_scheme \<Rightarrow>
     (cpu_registers \<times> interrupt_frame \<times> 'a serial_machine_scheme) res" where
  "entry_vector buffer vec c sp s =
     (let s = occur Cli s;
          (sp, m) = push_all (saved_words c) (push_all (stub_words vec) (sp, mem s));
          s = s\<lparr>mem := m\<rparr>;
          vector = ucast (load_le m (sp + 152) :: u32);
          error_code = ucast (load_le m (sp + 160) :: u32)
      in rbind (interrupt_handler buffer vector (sp + 168) error_code sp s) (\<lambda>(rax, s).
         let (ws, sp) = pop_all 19 (rax, mem s)
         in Inr (restored ws, load_interrupt_frame (mem s) (sp + 16), s)))"

text \<open>
  \<open>default_trap_handler\<close>, the handler of the vectors from 32 on, writes a doubleword to the screen and loops: the memory it
  leaves, and no return.
\<close>

definition trap_handler_body :: "memory \<Rightarrow> memory \<times> unit res" where
  "trap_handler_body m = (store_le 0xb8000 (0x0f42 :: u32) m, Inl NoReturn)"

text \<open>The first cell of the screen is a white B on black, the second is blanked with it.\<close>

lemma trap_handler_screen:
  "load_le (fst (trap_handler_body m)) 0xb8000 = (0x0f42 :: u16)" "fst (trap_handler_body m) 0xb8002 = 0"
  "\<not> unat (x - 0xb8000) < 4 \<Longrightarrow> fst (trap_handler_body m) x = m x"
  by (simp_all add: trap_handler_body_def store_le_def store_bytes_def load_le_def load_bytes_def word_bytes_def
      bytes_word_def upt_rec)

section \<open>The stack\<close>

lemma push_all_append: "push_all (ws @ vs) sm = push_all vs (push_all ws sm)"
  by (induction ws sm rule: push_all.induct) simp_all

lemma push_all_sp: "fst (push_all ws sm) = fst sm - 8 * of_nat (length ws)"
  by (induction ws sm rule: push_all.induct) (simp_all add: algebra_simps)

lemma push_all_snoc:
  "push_all (ws @ [w]) (sp, m) =
    (let a = sp - 8 * of_nat (Suc (length ws)) in (a, store_le a w (snd (push_all ws (sp, m)))))"
proof -
  obtain a m' where p: "push_all ws (sp, m) = (a, m')"
    by (cases "push_all ws (sp, m)")
  have "a = sp - 8 * of_nat (length ws)"
    using push_all_sp [of ws "(sp, m)"] p by simp
  then have a8: "a - 8 = sp - 8 * of_nat (Suc (length ws))"
    by (simp add: algebra_simps)
  show ?thesis
    by (simp only: push_all_append p push_all.simps a8 Let_def snd_conv)
qed

lemma push_all_frame:
  assumes "8 * length ws < 2 ^ 63" "\<not> unat (x - (sp - 8 * of_nat (length ws))) < 8 * length ws"
  shows "snd (push_all ws (sp, m)) x = m x"
  using assms
proof (induction ws rule: rev_induct)
  case (snoc w ws)
  let ?a = "sp - 8 * of_nat (Suc (length ws)) :: u64"
  have a: "sp - 8 * of_nat (length ws) = ?a + of_nat 8"
    by (simp add: algebra_simps)
  have "\<not> unat (x - (sp - 8 * of_nat (length ws))) < 8 * length ws"
    using snoc.prems region_offset [of x ?a 8 "8 * length ws"] unfolding a by fastforce
  then have "snd (push_all ws (sp, m)) x = m x"
    using snoc by simp
  then show ?case
    using snoc.prems(2) by (simp add: push_all_snoc Let_def cell64.st_frame)
qed simp

lemma push_all_load:
  assumes "8 * length ws < 2 ^ 63" "k < length ws"
  shows "load_le (snd (push_all ws (sp, m))) (sp - 8 * of_nat (length ws) + 8 * of_nat k) = rev ws ! k"
  using assms
proof (induction ws arbitrary: k rule: rev_induct)
  case (snoc w ws)
  let ?a = "sp - 8 * of_nat (Suc (length ws)) :: u64"
  show ?case
  proof (cases k)
    case 0
    then show ?thesis
      by (simp add: push_all_snoc Let_def cell64.ld_st)
  next
    case (Suc j)
    have "\<not> unat (?a + 8 * of_nat k + of_nat i - ?a) < 8" if "i < 8" for i
    proof -
      have "?a + 8 * of_nat k + of_nat i - ?a = of_nat (8 * k + i)"
        by simp
      also have "unat \<dots> = 8 * k + i"
        using snoc.prems that by (intro unat_of_nat_64) simp
      finally show ?thesis
        using Suc by simp
    qed
    then have "load_le (snd (push_all (ws @ [w]) (sp, m))) (?a + 8 * of_nat k) =
        (load_le (snd (push_all ws (sp, m))) (?a + 8 * of_nat k) :: u64)"
      by (simp add: push_all_snoc Let_def cell64.ld_st_other)
    moreover have "?a + 8 * of_nat k = sp - 8 * of_nat (length ws) + 8 * of_nat j"
      by (simp add: Suc algebra_simps)
    moreover have "load_le (snd (push_all ws (sp, m))) (sp - 8 * of_nat (length ws) + 8 * of_nat j) = rev ws ! j"
      using snoc Suc by simp
    moreover have "rev (ws @ [w]) ! k = rev ws ! j"
      by (simp add: Suc)
    ultimately show ?thesis
      by (simp only: length_append_singleton)
  qed
qed simp

lemma pop_all_eq: "pop_all n (sp, m) = (map (\<lambda>k. load_le m (sp + 8 * of_nat k)) [0..<n], sp + 8 * of_nat n)"
proof (induction n arbitrary: sp)
  case (Suc n)
  have "[0..<Suc n] = 0 # map Suc [0..<n]"
    by (simp add: map_Suc_upt upt_conv_Cons)
  then show ?case
    by (simp add: Suc Let_def o_def algebra_simps del: upt_Suc)
qed simp

text \<open>What was pushed is popped, also from among more.\<close>

lemma pop_push:
  assumes "8 * length (vs @ ws) < 2 ^ 63" "push_all ws (push_all vs (sp, m)) = (a, m')"
  shows "pop_all (length ws) (a, m') = (rev ws, a + 8 * of_nat (length ws))"
proof -
  have a: "a = sp - 8 * of_nat (length (vs @ ws))" "m' = snd (push_all (vs @ ws) (sp, m))"
    using push_all_sp [of "vs @ ws" "(sp, m)"] assms(2) by (simp_all add: push_all_append)
  have "load_le m' (a + 8 * of_nat k) = rev ws ! k" if "k < length ws" for k
    using push_all_load [OF assms(1), of k sp m] that by (simp add: a nth_append)
  then show ?thesis
    by (auto simp: pop_all_eq intro: nth_equalityI)
qed

section \<open>Saving and restoring\<close>

lemma selector_back [simp]: "ucast (ucast (w :: u16) :: u64) = w"
  by (rule bit_word_eqI) (auto simp: bit_simps)

lemma restored_saved: "restored (rev (saved_words c)) = c"
  by (cases c) (simp add: restored_def saved_words_def eval_nat_numeral)

lemma saved_length [simp]: "length (saved_words c) = 19"
  by (simp add: saved_words_def)

lemma load_dword: "(load_le m a :: u32) = ucast (load_le m a :: u64)"
  by (rule bit_word_eqI) (auto simp: load_le_def bit_bytes_word bit_simps load_bytes_def)

text \<open>The pointer to the frame of the processor, for the stub's words below it.\<close>

definition frame_at :: "nat \<Rightarrow> u64 \<Rightarrow> u64" where
  "frame_at vec sp = sp + 16 - 8 * of_nat (length (stub_words vec))"

lemma frame_at_eq: "frame_at vec sp = (if vec \<in> set error_code_vectors then sp + 8 else sp)"
  by (simp add: frame_at_def stub_words_def)

text \<open>The state in which the handler is called.\<close>

lemma at_handler:
  assumes "push_all (saved_words c) (push_all (stub_words vec) (sp, m)) = (a, m')" "vec < 32"
  shows "pop_all 19 (a, m') = (rev (saved_words c), a + 152)" "a + 168 = frame_at vec sp"
    "ucast (load_le m' (a + 152) :: u32) = (of_nat vec :: u64)"
    "vec \<notin> set error_code_vectors \<Longrightarrow> ucast (load_le m' (a + 160) :: u32) = (0 :: u64)"
    "\<not> unat (x - a) < 168 - (if vec \<in> set error_code_vectors then 8 else 0) \<Longrightarrow> m' x = m x"
proof -
  let ?ws = "stub_words vec @ saved_words c"
  have len: "length ?ws = 21 - (if vec \<in> set error_code_vectors then 1 else 0)"
    by (simp add: stub_words_def)
  then have bound: "8 * length ?ws < 2 ^ 63"
    by simp
  have p: "a = sp - 8 * of_nat (length ?ws)" "m' = snd (push_all ?ws (sp, m))"
    using push_all_sp [of ?ws "(sp, m)"] assms(1) by (simp_all add: push_all_append)
  show "pop_all 19 (a, m') = (rev (saved_words c), a + 152)"
    using pop_push [OF bound assms(1)] by simp
  show "a + 168 = frame_at vec sp"
    by (simp add: p(1) frame_at_def algebra_simps)
  have load: "load_le m' (a + 8 * of_nat k) = rev ?ws ! k" if "k < length ?ws" for k
    using push_all_load [OF bound that] by (simp only: p)
  have small: "ucast (ucast (of_nat vec :: u64) :: u32) = (of_nat vec :: u64)"
    using assms(2) by (simp add: unsigned_of_nat take_bit_nat_eq_self)
  show "ucast (load_le m' (a + 152) :: u32) = (of_nat vec :: u64)"
    using load [of 19] len small by (simp add: load_dword stub_words_def nth_append split: if_splits)
  show "vec \<notin> set error_code_vectors \<Longrightarrow> ucast (load_le m' (a + 160) :: u32) = (0 :: u64)"
    using load [of 20] len by (simp add: load_dword stub_words_def nth_append)
  assume "\<not> unat (x - a) < 168 - (if vec \<in> set error_code_vectors then 8 else 0)"
  then have "\<not> unat (x - a) < 8 * length ?ws"
    using len by (simp split: if_splits)
  then show "m' x = m x"
    using push_all_frame [OF bound, of x sp m] by (simp add: p)
qed

lemma can_print_occur [simp]: "can_print (occur e s\<lparr>mem := m\<rparr>) \<longleftrightarrow> can_print s"
  by (simp add: can_print_def ready_def occur_def)

lemma frame_above:
  assumes "a + 168 = (f :: u64)" "j < 40"
  shows "unat (f + of_nat j - a) = 168 + j"
proof -
  have "f + of_nat j - a = of_nat (168 + j)"
    by (simp flip: assms(1))
  also have "unat \<dots> = 168 + j"
    using assms(2) by (intro unat_of_nat_64) simp
  finally show ?thesis .
qed

lemma entry_vector_returns:
  assumes "can_print s" "b \<noteq> 0" "vec < 32" "vec \<noteq> 13" "vec \<noteq> 14"
  shows "\<exists>t. entry_vector b vec c sp s = Inr (c, load_interrupt_frame (mem s) (frame_at vec sp), t) \<and> can_print t \<and>
    (\<forall>x. \<not> unat (x - (frame_at vec sp - 168)) < 168 \<longrightarrow> mem t x = mem s x) \<and>
    (\<exists>tr. trace t = MmioWrite (apic_base + 0xb0) 0 # tr)"
proof -
  obtain a m where push: "push_all (saved_words c) (push_all (stub_words vec) (sp, mem s)) = (a, m)"
    by fastforce
  note at = at_handler [OF push assms(3)]
  let ?s = "occur Cli s\<lparr>mem := m\<rparr>"
  let ?err = "ucast (load_le m (a + 160) :: u32) :: u64"
  have v: "unat (of_nat vec :: u64) = vec"
    using assms(3) by (intro unat_of_nat_64) simp
  then have "(of_nat vec :: u64) < 256"
    using assms(3) by (simp add: word_less_nat_alt)
  moreover have "(of_nat vec :: u64) \<noteq> PAGE_FAULT" "(of_nat vec :: u64) \<noteq> GP_FAULT"
    using assms(4,5) v by (auto simp: PAGE_FAULT_def GP_FAULT_def)
  moreover have "can_print ?s"
    using assms(1) by simp
  ultimately obtain t where t: "interrupt_handler b (of_nat vec) (a + 168) ?err a ?s = Inr (a, t)" "mem t = m"
    "can_print t" "\<exists>tr. trace t = MmioWrite (apic_base + 0xb0) 0 # tr"
    using handler_returns [of ?s b "of_nat vec" "a + 168" ?err a] assms(2) by auto
  have frame: "m x = mem s x" if "\<not> unat (x - a) < 168" for x
    using that by (intro at(5)) auto
  have "load_interrupt_frame m (frame_at vec sp) = load_interrupt_frame (mem s) (frame_at vec sp)"
  proof (rule interrupt_frame_layout.load_cong, rule frame)
    fix j assume "j < sizeof_interrupt_frame"
    then show "\<not> unat (frame_at vec sp + of_nat j - a) < 168"
      using frame_above [OF at(2), of j] by (simp add: sizeof_interrupt_frame_def)
  qed
  moreover have "entry_vector b vec c sp s = Inr (restored (rev (saved_words c)), load_interrupt_frame m (frame_at vec sp), t)"
    using at(1,2,3) t(1,2) by (simp add: entry_vector_def push Let_def add.assoc)
  moreover have "frame_at vec sp - 168 = a"
    by (simp flip: at(2))
  ultimately show ?thesis
    using t frame by (auto simp: restored_saved)
qed

text \<open>
  What \<open>struct registers\<close> shows the handler: the stub pushes the four segment registers after
  the general ones, and \<open>rsi\<close>, \<open>rdi\<close> in the other order.
\<close>

lemma state_fields:
  assumes "push_all (saved_words c) (push_all (stub_words vec) (sp, m)) = (a, m')" "vec < 32"
  shows "load_registers m' (a + 32) = (registers.truncate c)\<lparr>reg_rsi := reg_rdi c, reg_rdi := reg_rsi c\<rparr>"
    "reg_r8 (load_registers m' a) = ucast (seg_ds c)"
proof -
  have "map (\<lambda>k. load_le m' (a + 8 * of_nat k)) [0..<19] = rev (saved_words c)"
    using at_handler(1) [OF assms] by (simp add: pop_all_eq)
  then have w: "load_le m' (a + 8 * of_nat k) = rev (saved_words c) ! k" if "k < 19" for k
    using that by (metis (no_types, lifting) nth_map_upt diff_zero add_0)
  show "load_registers m' (a + 32) = (registers.truncate c)\<lparr>reg_rsi := reg_rdi c, reg_rdi := reg_rsi c\<rparr>"
    using w [of 4] w [of 5] w [of 6] w [of 7] w [of 8] w [of 9] w [of 10] w [of 11] w [of 12] w [of 13] w [of 14]
      w [of 15] w [of 16] w [of 17] w [of 18]
    by (simp add: load_registers_def registers.truncate_def saved_words_def add.assoc)
  show "reg_r8 (load_registers m' a) = ucast (seg_ds c)"
    using w [of 0] by (simp add: load_registers_def saved_words_def)
qed

end
