(* ===== verification/Kernel_Properties.thy ===== *)
theory Kernel_Properties
  imports Acpi_Example Paging Perf Printing Interrupt_Entry
begin

text \<open>
  The properties of the kernel's components below the boot code: block functions, serial
  driver, paging, interrupts, ACPI tables and the measured functions.
\<close>

section \<open>Block functions\<close>

text \<open>
  C30. \<open>memmove\<close> copies overlapping blocks: every byte of the destination becomes the byte the
  source had before the call, and no other byte changes, for blocks below two gigabytes that
  do not wrap around the address space.
\<close>

theorem memmove_copies:
  assumes "unat sz < 2 ^ 31" "unat src + unat sz \<le> 2 ^ 64" "unat dst + unat sz \<le> 2 ^ 64"
  shows "\<exists>m'. memmove dst src sz m = Inr m' \<and> (\<forall>i. i < sz \<longrightarrow> m' (dst + i) = m (src + i)) \<and>
    (\<forall>a. \<not> a - dst < sz \<longrightarrow> m' a = m a)"
  using memmove_eq [OF assms, of m] by (auto simp: copied_def word_less_nat_alt)

theorem memmove_copies_witness:
  "\<exists>m'. memmove 0x12 0x10 4 (\<lambda>a. ucast a) = Inr m' \<and> m' 0x14 = 0x12 \<and> m' 0x16 = 0x16"
proof -
  obtain m' where m': "memmove 0x12 0x10 4 (\<lambda>a. ucast a) = Inr m'"
    "\<forall>i. i < 4 \<longrightarrow> m' (0x12 + i) = ucast (0x10 + i)" "\<forall>a. \<not> a - 0x12 < 4 \<longrightarrow> m' a = ucast a"
    using memmove_copies [of 4 "0x10" "0x12" "\<lambda>a. ucast a"] by auto
  have "m' (0x12 + 2) = ucast (0x10 + 2 :: u64)" "m' 0x16 = ucast (0x16 :: u64)"
    by (rule m'(2) [rule_format], simp) (rule m'(3) [rule_format], simp)
  then show ?thesis
    using m'(1) by simp
qed

section \<open>Serial driver\<close>

text \<open>
  C29. After \<open>Serial::init\<close> every UART whose port the BIOS data area lists is set up:
  115200 baud, eight data bits without parity, FIFOs on, interrupts off, modem lines set.
\<close>

theorem serial_init_uart:
  assumes "p \<in> set (map (com_port (mem s)) [0..<4])" "p \<noteq> 0"
    and "\<And>q. q \<in> set (map (com_port (mem s)) [0..<4]) \<Longrightarrow> q = 0 \<or> q = p \<or> apart p q"
    and "\<not> bit (line_control (uart_after p u (trace s))) 7"
  shows "uart_after p u (trace (serial_init s)) = uart_ready"
  unfolding serial_init_def using assms by (rule init_uart)

definition bios_ports :: memory where
  "bios_ports = store_le 0x400 (0x3f8 :: u16) (store_le 0x402 (0x2f8 :: u16) (\<lambda>_. 0))"

lemma bios_ports_list: "map (com_port bios_ports) [0..<4] = [0x3f8, 0x2f8, 0, 0]"
  by (simp add: com_port_def upt_rec bios_ports_def cells)

theorem serial_init_uart_witness:
  "uart_after 0x2f8 uart_ready (trace (serial_init (one_port\<lparr>mem := bios_ports\<rparr>))) = uart_ready"
proof -
  have ports: "map (com_port (mem (one_port\<lparr>mem := bios_ports\<rparr>))) [0..<4] = [0x3f8, 0x2f8, 0, 0]"
    using bios_ports_list by simp
  have far: "apart 0x2f8 0x3f8"
    by (simp add: apart_def atLeastAtMost_upt upt_rec)
  show ?thesis
    by (rule serial_init_uart, unfold ports) (auto simp: far one_port_simps uart_ready_def)
qed

text \<open>
  C19. What \<open>printf\<close> prints arrives: with the lock free and transmitters that get ready, the
  call returns the length of the text, and every port of the driver has been sent exactly the
  text, with a carriage return before each line feed; memory, devices and the lock are as
  before.
\<close>

theorem printf_on_the_wire:
  assumes "format_text format va = Inr cs" "b \<noteq> 0" "ready s"
    and "distinct (filter (\<lambda>d. d \<noteq> 0) (device s))" "release (spin s) = acquire (spin s)"
  shows "\<exists>t. printf_api b format va s = Inr (of_nat (length cs), t) \<and>
    mem t = mem s \<and> device t = device s \<and> release (spin t) = acquire (spin t) \<and>
    (\<forall>p. p \<noteq> 0 \<longrightarrow> sent p (trace t) =
      sent p (trace s) @ (if p \<in> set (device s) then wire_text cs else []))"
  using printf_sent [OF assms] by blast

theorem printf_on_the_wire_witness:
  "\<exists>t. printf_api 0x1000 (''ok'' @ [CHR 0x0A]) [] one_port = Inr (3, t) \<and>
    sent 0x3f8 (trace t) = [0x6f, 0x6b, 0x0d, 0x0a]"
proof -
  have "format_text (''ok'' @ [CHR 0x0A]) [] = Inr (''ok'' @ [CHR 0x0A])"
    by (simp add: format_text_simps)
  moreover have "wire_text (''ok'' @ [CHR 0x0A]) = [0x6f, 0x6b, 0x0d, 0x0a]"
    by (simp add: wire_text_def wire_def)
  moreover have "ready one_port" "distinct (filter (\<lambda>d. d \<noteq> 0) (device one_port))"
    "release (spin one_port) = acquire (spin one_port)"
    using one_port_can_print by (simp_all add: can_print_def)
  ultimately show ?thesis
    using printf_on_the_wire [of "''ok'' @ [CHR 0x0A]" "[]" "''ok'' @ [CHR 0x0A]" "0x1000" one_port]
    by (auto simp: one_port_simps)
qed






text \<open>
  A device the BIOS does not list is entered as port 0 and not polled, but \<open>write\<close> sends
  the carriage return before it looks: each line feed puts one byte on port 0 per absent
  device.
\<close>

theorem absent_device_written:
  assumes "format_text format va = Inr cs" "b \<noteq> 0" "ready s"
  shows "\<exists>t. vprintf_api b format va s = Inr (of_nat (length cs), t) \<and>
    sent 0 (trace t) = sent 0 (trace s) @ replicate (count_list cs CHR 0x0A * count_list (device s) 0) 0x0d"
  using assms by (rule vprintf_absent)

theorem absent_device_written_witness:
  "\<exists>t. vprintf_api 0x1000 [CHR 0x0A] [] one_port = Inr (1, t) \<and> length (sent 0 (trace t)) = 3"
proof -
  have "format_text [CHR 0x0A] [] = Inr [CHR 0x0A]"
    by (simp add: format_text_simps)
  from absent_device_written [OF this, of "0x1000" one_port] show ?thesis
    using one_port_can_print by (auto simp: one_port_simps can_print_def)
qed

section \<open>Paging\<close>

text \<open>
  C21. After \<open>map_addr\<close> every address of the 2 MB page is translated by the processor's page
  walk to the same offset of the frame, with the requested attributes in the entry.
\<close>

theorem map_addr_translates:
  assumes "frame_2mb p" "attributes f" "page_2mb w = page_2mb v"
  shows "walk FIRST_PML4_BASE (map_addr v p f m) w =
    Some (p OR w AND 0x1FFFFF, f OR PAGE_SIZE_2MB OR p)"
  using assms by (rule map_addr_walk)

lemma apic_mapping: "frame_2mb 0xfee00000" "attributes (PAGE_PRESENT OR PAGE_WRITE OR PAGE_UC)"
  by (simp_all add: frame_2mb_def attributes_def paging_consts bit_simps)

theorem map_addr_translates_witness:
  "walk FIRST_PML4_BASE
    (map_addr 0x13370000000 0xfee00000 (PAGE_PRESENT OR PAGE_WRITE OR PAGE_UC) (\<lambda>_. 0)) 0x13370000020 =
    Some (0xfee00020, 0xfee00093)"
  using map_addr_translates [OF apic_mapping, of "0x13370000020" "0x13370000000" "\<lambda>_. 0"]
  by (simp add: page_2mb_def paging_consts)

text \<open>
  An address below another entry of the first level keeps its translation, as long as none
  of the tables its walk reads is one of the three that \<open>map_addr\<close> writes.
\<close>

theorem map_addr_keeps_others:
  assumes "drop_bit 39 w AND 0x1ff \<noteq> drop_bit 39 v AND 0x1ff"
    and "set (walk_tables FIRST_PML4_BASE m w) \<inter> {FIRST_PML4_BASE, APIC_PDPTE, APIC_PDE} = {}"
  shows "walk FIRST_PML4_BASE (map_addr v p f m) w = walk FIRST_PML4_BASE m w"
  using assms by (rule map_addr_keeps)

definition identity_1gb :: memory where
  "identity_1gb = store_le 0x32000 (0x36003 :: u64) (store_le 0x36000 (0x83 :: u64) (\<lambda>_. 0))"

lemma identity_entries:
  "entry_at identity_1gb FIRST_PML4_BASE (drop_bit 39 0x7e00) = Some 0x36003"
  "entry_at identity_1gb 0x36003 (drop_bit 30 0x7e00) = Some 0x83"
  by (simp_all add: entry_at_def identity_1gb_def table_of_def FIRST_PML4_BASE_def load_store_aligned)

theorem map_addr_keeps_others_witness:
  "walk FIRST_PML4_BASE (map_addr 0x13370000000 0xfee00000 0x13 identity_1gb) 0x7e00 = Some (0x7e00, 0x83)"
proof -
  have "walk FIRST_PML4_BASE identity_1gb 0x7e00 = Some (0x7e00, 0x83)"
    using identity_entries by (simp add: walk_def)
  moreover have "walk_tables FIRST_PML4_BASE identity_1gb 0x7e00 = [0x36000]"
    using identity_entries by (simp add: walk_tables_def table_of_def)
  ultimately show ?thesis
    using map_addr_keeps_others [of "0x7e00" "0x13370000000" identity_1gb "0xfee00000" "0x13"]
    by (simp add: paging_consts)
qed

text \<open>
  There is one table of the second and one of the third level for all mappings: mapping a
  second page with the same third-level index redirects the addresses of the first one to the
  second frame.
\<close>

theorem map_addr_overwrites:
  assumes "frame_2mb q" "attributes g" "page_2mb w = page_2mb v"
    and "drop_bit 21 u AND 0x1ff = drop_bit 21 v AND 0x1ff"
  shows "walk FIRST_PML4_BASE (map_addr u q g (map_addr v p f m)) w =
    Some (q OR w AND 0x1FFFFF, g OR PAGE_SIZE_2MB OR q)"
  using assms by (rule map_addr_shared)

theorem map_addr_overwrites_witness:
  "walk FIRST_PML4_BASE (map_addr 0x13370000000 0xfee00000 (PAGE_PRESENT OR PAGE_WRITE OR PAGE_UC)
    (map_addr 0x8030000000 0x400000 0x3 (\<lambda>_. 0))) 0x8030000008 = Some (0xfee00008, 0xfee00093)"
  using map_addr_overwrites [OF apic_mapping, of "0x8030000008" "0x8030000000" "0x13370000000" "0x400000" 3 "\<lambda>_. 0"]
  by (simp add: page_2mb_def paging_consts)

section \<open>Interrupts\<close>

text \<open>
  C20. \<open>load_idt\<close> leaves a gate for each of the 256 vectors: an interrupt gate to the stub of
  \<open>ex_handlers\<close> for the exceptions, a trap gate to the default handler for the others, all
  present, in the kernel's code segment and at privilege level 0; it writes nothing but the
  gates and the \<open>lidt\<close> operand, and loads the table.
\<close>

theorem load_idt_table:
  assumes "apart_from_gates A"
  shows "(\<forall>ii<256. read_gate (mem (load_idt A s)) (gate_at A ii) =
      (if ii < 32 then gate_for INTERRUPT_GATE (stub A (mem s) ii)
       else gate_for TRAP_GATE (default_trap_handler A))) \<and>
    (\<forall>x. \<not> in_gates A x \<and> \<not> unat (x - idt A) < 10 \<longrightarrow> mem (load_idt A s) x = mem s x) \<and>
    trace (load_idt A s) = Lidt 0xFEF (interrupt_desc_table A) # trace s"
  using load_idt_gates [OF assms] load_idt_lidt [of A s] load_idt_frame [OF assms] by blast

theorem load_idt_table_witness:
  "read_gate (mem (load_idt idt_layout one_port)) (gate_at idt_layout 200) = gate_for TRAP_GATE 0x5000"
  using load_idt_table [OF idt_layout_apart, of one_port] by (simp add: idt_layout_def)

text \<open>
  The table has 255 entries, the loop fills 256: the gate of vector 255 is written to the
  sixteen bytes behind the array, unless they already held it some byte there changes, and the
  limit given to the processor ends before it.
\<close>

theorem load_idt_overrun:
  assumes "apart_from_gates A"
    and "read_gate (mem s) (gate_at A 255) \<noteq> gate_for TRAP_GATE (default_trap_handler A)"
  shows "(\<exists>x. table_size \<le> unat (x - interrupt_desc_table A) \<and> mem (load_idt A s) x \<noteq> mem s x) \<and>
    (\<exists>limit. Lidt limit (interrupt_desc_table A) \<in> set (trace (load_idt A s)) \<and>
      unat limit < unat (gate_at A 255 - interrupt_desc_table A))"
proof -
  have gate: "read_gate (mem (load_idt A s)) (gate_at A 255) \<noteq> read_gate (mem s) (gate_at A 255)"
    using load_idt_gates [OF assms(1), of 255 s] assms(2) by simp
  then obtain i where i: "i < 16" "mem (load_idt A s) (gate_at A 255 + of_nat i) \<noteq> mem s (gate_at A 255 + of_nat i)"
    using read_gate_cong by blast
  have offset: "gate_at A 255 + of_nat i - interrupt_desc_table A = of_nat (4080 + i)"
    by (simp add: gate_at_def)
  have "unat (of_nat (4080 + i) :: u64) = 4080 + i"
    using i(1) by (intro unat_of_nat_64) simp
  then have "table_size \<le> unat (gate_at A 255 + of_nat i - interrupt_desc_table A)"
    unfolding offset by (simp add: table_size_def)
  moreover have "gate_at A 255 - interrupt_desc_table A = 0xFF0"
    by (simp add: gate_at_def)
  ultimately show ?thesis
    using i(2) by (auto simp: load_idt_lidt)
qed

theorem load_idt_overrun_witness:
  "\<exists>x. table_size \<le> unat (x - 0x100000) \<and> mem (load_idt idt_layout one_port) x \<noteq> 0"
proof -
  have "\<not> gate_present (read_gate (\<lambda>_. 0) a)" for a
    by (simp add: read_gate_def Let_def)
  moreover have "gate_present (gate_for TRAP_GATE h)" for h
    by (simp add: gate_for_def)
  ultimately have "read_gate (\<lambda>_. 0) a \<noteq> gate_for TRAP_GATE h" for a h
    by metis
  then have "read_gate (mem one_port) (gate_at idt_layout 255) \<noteq> gate_for TRAP_GATE (default_trap_handler idt_layout)"
    by (simp only: one_port_simps not_False_eq_True)
  from load_idt_overrun [OF idt_layout_apart this] show ?thesis
    by (simp add: one_port_simps idt_layout_def)
qed

text \<open>
  The handler, with the lock free and ports that get ready: for every vector but the two
  faults it stops at, it returns the saved register frame it was given, leaves memory as it
  was and signals the end of the interrupt to the local APIC as its last action; after a page
  fault or a general protection fault it never returns.
\<close>

theorem interrupt_handler_returns:
  assumes "can_print s" "b \<noteq> 0" "vector < 256" "vector \<noteq> PAGE_FAULT" "vector \<noteq> GP_FAULT"
  shows "(\<exists>t. interrupt_handler b vector frame error_code state s = Inr (state, t) \<and> mem t = mem s \<and>
      can_print t \<and> (\<exists>tr. trace t = MmioWrite (apic_base + 0xb0) 0 # tr)) \<and>
    (\<forall>r. interrupt_handler b PAGE_FAULT frame error_code state s \<noteq> Inr r \<and>
      interrupt_handler b GP_FAULT frame error_code state s \<noteq> Inr r)"
  using handler_returns [OF assms, of frame error_code state] handler_stops by blast

theorem interrupt_handler_returns_witness:
  "\<exists>t. interrupt_handler 0x1000 2 0x2000 0 0x3000 one_port = Inr (0x3000, t)"
  using interrupt_handler_returns [OF one_port_can_print, of "0x1000" 2 "0x2000" 0 "0x3000"]
  by (auto simp: PAGE_FAULT_def GP_FAULT_def)


text \<open>Registers that hold different numbers.\<close>

definition numbered :: cpu_registers where
  "numbered = restored (map of_nat [0..<19])"


text \<open>
  \<open>struct registers\<close> is not what the stub saves: the four segment registers are pushed
  last, so the pointer the handler gets shows \<open>ds\<close> as \<open>r8\<close>, and 32 bytes further on the general
  registers are found, with \<open>rsi\<close> and \<open>rdi\<close> exchanged.
\<close>

theorem state_mislaid:
  assumes "push_all (saved_words c) (push_all (stub_words vec) (sp, m)) = (state, m')" "vec < 32"
  shows "reg_r8 (load_registers m' state) = ucast (seg_ds c) \<and>
    load_registers m' (state + 32) = (registers.truncate c)\<lparr>reg_rsi := reg_rdi c, reg_rdi := reg_rsi c\<rparr>"
  using state_fields [OF assms] by blast

theorem state_mislaid_witness:
  "reg_r8 (load_registers (snd (push_all (saved_words numbered) (push_all (stub_words 3) (0x8000, \<lambda>_. 0)))) 0x7f58) =
    ucast (seg_ds numbered)"
proof -
  obtain a m where p: "push_all (saved_words numbered) (push_all (stub_words 3) (0x8000, \<lambda>_. 0)) = (a, m)"
    by fastforce
  moreover have "a = 0x7f58"
    using push_all_sp [of "stub_words 3 @ saved_words numbered" "(0x8000, \<lambda>_. 0)"] p
    by (simp add: push_all_append stub_words_def error_code_vectors_def)
  ultimately show ?thesis
    using state_mislaid [OF p] by simp
qed



section \<open>ACPI tables\<close>

text \<open>
  C22. \<open>Apic::init\<close> registers the processors: with the RSDP in one of the two searched ranges,
  every local APIC id of the MADTs the RSDT lists is entered in \<open>cpu_nodes\<close> at its own index,
  all other entries and the rest of the state stay, provided the ids fit the array and the
  eight bytes behind each MADT let the walk end.
\<close>

theorem apic_init_registers:
  assumes "find_rsdp L (mem s) = Some rsdp"
    and "rsdt_entries (mem s) (rsdt_of (mem s) rsdp) = int (length idss)"
    and "\<And>k. k < length idss \<Longrightarrow>
      table_ids L (mem s) (entry_pointer (mem s) (rsdt_of (mem s) rsdp + 36) k) (idss ! k)"
  shows "\<exists>nodes. Apic.init L s = Inr (s\<lparr>cpu_nodes := nodes\<rparr>) \<and> length nodes = length (cpu_nodes s) \<and>
    (\<forall>i. unat i < length nodes \<longrightarrow>
      nodes ! unat i = (if i \<in> set (concat idss) then i else cpu_nodes s ! unat i))"
proof (intro exI conjI allI impI)
  show "Apic.init L s = Inr (s\<lparr>cpu_nodes := register_all (concat idss) (cpu_nodes s)\<rparr>)"
    by (rule init_registers [OF assms])
  show "register_all (concat idss) (cpu_nodes s) ! unat i =
      (if i \<in> set (concat idss) then i else cpu_nodes s ! unat i)"
    if "unat i < length (register_all (concat idss) (cpu_nodes s))" for i
    using that unfolding register_all_length by (rule register_all_nth)
qed (rule register_all_length)

theorem apic_init_registers_witness:
  "\<exists>nodes. Apic.init acpi_lits (acpi_kernel good_end) = Inr ((acpi_kernel good_end)\<lparr>cpu_nodes := nodes\<rparr>) \<and>
    nodes ! 3 = 3 \<and> nodes ! 4 = 0"
proof -
  have "\<exists>nodes. Apic.init acpi_lits (acpi_kernel good_end) = Inr ((acpi_kernel good_end)\<lparr>cpu_nodes := nodes\<rparr>) \<and>
      length nodes = 18 \<and>
      (\<forall>i. unat i < length nodes \<longrightarrow> nodes ! unat i = (if i \<in> {3} then i else replicate 18 0 ! unat i))"
    using apic_init_registers [of acpi_lits "acpi_kernel good_end" "0x1010" "[[3]]"] acpi_found [OF holds_acpi_self(1)]
      acpi_table_ids [OF holds_acpi_self(1)]
    by (simp add: acpi_kernel_simps cong: if_cong)
  then obtain nodes where nodes: "Apic.init acpi_lits (acpi_kernel good_end) = Inr ((acpi_kernel good_end)\<lparr>cpu_nodes := nodes\<rparr>)"
    "length nodes = 18"
    "\<forall>i. unat i < length nodes \<longrightarrow> nodes ! unat i = (if i \<in> {3} then i else replicate 18 0 ! unat i)"
    by blast
  have "nodes ! 3 = 3" "nodes ! 4 = 0"
    using nodes(3) [rule_format, of 3] nodes(3) [rule_format, of 4] nodes(2) by simp_all
  with nodes(1) show ?thesis
    by blast
qed

text \<open>
  C40. The walk over the MADT starts eight bytes early and so reads eight bytes too far: when
  the bytes behind the first table are zero, the record read there has length zero and
  \<open>Apic::init\<close> never returns.
\<close>

theorem apic_init_hangs:
  assumes "find_rsdp L (mem s) = Some rsdp"
    and "0 < rsdt_entries (mem s) (rsdt_of (mem s) rsdp)"
    and "t = entry_pointer (mem s) (rsdt_of (mem s) rsdp + 36) 0"
    and "e = t + ucast (load_le (mem s) (t + 4) :: u32)"
    and "same_bytes (mem s) t (apic_sig L) 4" "madt_table (mem s) e (t + 44) ids"
    and "\<forall>i\<in>set ids. unat i < MAX_CPUS" "8 \<le> e" "8 \<le> t + 44"
    and "mem s e = 0" "mem s (e + 1) = 0" "mem s (e + 2) = 0"
  shows "Apic.init L s = Inl NoReturn"
  using assms by (rule init_hangs)

theorem apic_init_hangs_witness: "Apic.init acpi_lits (acpi_kernel []) = Inl NoReturn"
proof -
  have "acpi_mem [] 0x3034 = 0" "acpi_mem [] 0x3035 = 0" "acpi_mem [] 0x3036 = 0"
    by (simp_all add: acpi_mem_def acpi_bytes_def)
  then show ?thesis
    using acpi_loads(5,8) [OF holds_acpi_self(2)] acpi_records [OF holds_acpi_self(2)] acpi_found [OF holds_acpi_self(2)]
    by (intro apic_init_hangs [where rsdp = "0x1010" and t = "0x3000" and e = "0x3034" and ids = "[3]"])
      (simp_all add: acpi_kernel_simps acpi_lits_def MAX_CPUS_def)
qed

section \<open>The measured functions\<close>

text \<open>
  C31. On a sorted array without duplicates the binary search returns what the linear search
  does, the index of the element or \<open>-1\<close>; neither overflows nor leaves the array.
\<close>

theorem searches_agree:
  assumes "sorted arr" "distinct arr" "int (length arr) < 2 ^ 31"
  shows "binarySearch arr 0 (int (length arr) - 1) x = search arr (int (length arr)) x \<and>
    (\<exists>i. search arr (int (length arr)) x = Inr i \<and>
      (if i = - 1 then x \<notin> set arr else 0 \<le> i \<and> i < int (length arr) \<and> arr ! nat i = x))"
proof -
  obtain i where i: "search arr (int (length arr)) x = Inr i"
    "if i = - 1 then \<forall>k. 0 \<le> k \<and> k < int (length arr) \<longrightarrow> arr ! nat k \<noteq> x
     else 0 \<le> i \<and> i < int (length arr) \<and> arr ! nat i = x \<and> (\<forall>k. 0 \<le> k \<and> k < i \<longrightarrow> arr ! nat k \<noteq> x)"
    using search_correct [OF assms(3) order_refl] by blast
  have "x \<notin> set arr" if "\<forall>k. 0 \<le> k \<and> k < int (length arr) \<longrightarrow> arr ! nat k \<noteq> x"
  proof
    assume "x \<in> set arr"
    then obtain n where "n < length arr" "arr ! n = x"
      by (auto simp: in_set_conv_nth)
    then show False
      using that [rule_format, of "int n"] by simp
  qed
  then show ?thesis
    using i binarySearch_search [OF assms] by auto
qed

theorem searches_agree_witness: "binarySearch [1, 4, 9, 16, 25] 0 4 16 = search [1, 4, 9, 16, 25] 5 16"
  using searches_agree [of "[1, 4, 9, 16, 25]" 16] by simp

text \<open>
  The fill loop zeroes the whole words of its block and nothing else, as long as there is
  one and their number fits 32 bits; with less than eight bytes its counter starts at zero,
  wraps around, and 32 gigabytes are zeroed.
\<close>

theorem fill_zeroes:
  shows "(8 \<le> unat sz \<and> unat sz < 2 ^ 35 \<longrightarrow>
      unoptimized_function2 addr sz m a = (if unat (a - addr) < 8 * (unat sz div 8) then 0 else m a)) \<and>
    (unat sz < 8 \<longrightarrow> unoptimized_function2 addr sz m a = (if unat (a - addr) < 2 ^ 35 then 0 else m a))"
  using fill_eq [of sz addr m a] fill_small [of sz addr m a] by blast

theorem fill_zeroes_witness:
  "unoptimized_function2 0x1000 64 (\<lambda>_. 7) 0x103f = 0 \<and> unoptimized_function2 0x1000 64 (\<lambda>_. 7) 0x1040 = 7 \<and>
    unoptimized_function2 0x1000 7 (\<lambda>_. 7) 0x700000000 = 0"
  using fill_zeroes [of 64 "0x1000" "\<lambda>_. 7" "0x103f"] fill_zeroes [of 64 "0x1000" "\<lambda>_. 7" "0x1040"]
    fill_zeroes [of 7 "0x1000" "\<lambda>_. 7" "0x700000000"]
  by simp

end
