(* ===== verification/Elf.thy ===== *)
theory Elf
  imports Memory
begin

text \<open>
  The host tool \<open>elf_parse\<close> (\<open>parser.cc\<close>, \<open>parser.h\<close>, \<open>Utils/file.cc\<close>): it reads
  the section headers of the linked kernel and writes the bytes from the first to the last
  section to a flat file. The mapped file is a list of bytes; reading outside it is a fault.
  The file system gives the contents of each file that exists, by its name; which names can be
  opened for writing is a parameter.
\<close>

section \<open>Reading the file\<close>

definition byte_at :: "u8 list \<Rightarrow> nat \<Rightarrow> u8 res" where
  "byte_at f off = (if off < length f then Inr (f ! off) else Inl OutOfBounds)"

definition word_at :: "u8 list \<Rightarrow> nat \<Rightarrow> 'a::len word res" where
  "word_at f off =
     (if off + LENGTH('a) div 8 \<le> length f then Inr (bytes_word (take (LENGTH('a) div 8) (drop off f)))
      else Inl OutOfBounds)"

text \<open>The offsets of the fields of \<open>Elf64_Ehdr\<close> and \<open>Elf64_Shdr\<close> that are used.\<close>

definition e_shoff :: nat where "e_shoff = 40"
definition e_shnum :: nat where "e_shnum = 60"
definition sizeof_shdr :: nat where "sizeof_shdr = 64"
definition sh_offset :: nat where "sh_offset = 24"
definition sh_size :: nat where "sh_size = 32"

section \<open>Section list\<close>

text \<open>\<open>FileHeader\<close> keeps the low halves of the 64-bit offset and size.\<close>

datatype file_header = FileHeader (offset: u32) (header_size: u32)

definition initheader :: "u64 \<Rightarrow> u64 \<Rightarrow> file_header" where
  "initheader f_offset f_size = FileHeader (ucast f_offset) (ucast f_size)"

definition comparator :: "file_header \<Rightarrow> file_header \<Rightarrow> bool" where
  "comparator s1 s2 \<longleftrightarrow> offset s1 < offset s2"

text \<open>The comparator is the strict part of a preorder, which the standard algorithms need.\<close>

instantiation file_header :: preorder
begin

definition less_file_header :: "file_header \<Rightarrow> file_header \<Rightarrow> bool" where
  "less_file_header = comparator"

definition less_eq_file_header :: "file_header \<Rightarrow> file_header \<Rightarrow> bool" where
  "less_eq_file_header s1 s2 \<longleftrightarrow> offset s1 \<le> offset s2"

instance
  by standard (auto simp: less_file_header_def less_eq_file_header_def comparator_def)

end

text \<open>
  \<open>std::min_element\<close> and \<open>std::max_element\<close>: the first of the elements that no other one
  is below, or above.
\<close>

definition min_element :: "file_header list \<Rightarrow> file_header" where
  "min_element hs = fold (\<lambda>h m. if comparator h m then h else m) (tl hs) (hd hs)"

definition max_element :: "file_header list \<Rightarrow> file_header" where
  "max_element hs = fold (\<lambda>h m. if comparator m h then h else m) (tl hs) (hd hs)"

section \<open>The program\<close>

text \<open>What the program prints, and how it ends: at the end of \<open>main\<close>, by an exit or an assertion.\<close>

datatype message = BadSignature | NoEntries | SectionOffset u64

datatype outcome =
    Finished
  | ExitStatus nat
  | AssertionFailed

fun sections :: "u8 list \<Rightarrow> u64 \<Rightarrow> nat \<Rightarrow> nat \<Rightarrow> (u64 list \<times> file_header list) res" where
  "sections f sh_off ii 0 = Inr ([], [])"
| "sections f sh_off ii (Suc n) =
     (let shdr = unat sh_off + sizeof_shdr * ii
      in rbind (word_at f (shdr + sh_offset)) (\<lambda>off.
         rbind (if 0 < off \<and> off < sh_off
                then rbind (word_at f (shdr + sh_size)) (\<lambda>sz. Inr ([off], [initheader off sz]))
                else Inr ([], [])) (\<lambda>(offs, hs).
         rbind (sections f sh_off (Suc ii) n) (\<lambda>(offs', hs'). Inr (offs @ offs', hs @ hs')))))"

definition image_base :: "file_header list \<Rightarrow> u64" where
  "image_base hs = ucast (offset (min_element hs))"

definition image_end :: "file_header list \<Rightarrow> u64" where
  "image_end hs = ucast (offset (max_element hs) + header_size (max_element hs))"

text \<open>
  \<open>File\<close> holds an output stream. Opening it empties the file, or creates it; if that fails the
  stream takes no bytes. What was written is in the file when the stream is closed, which the
  destructor does: after an exit or a failed assertion, before which nothing is written, it does
  not run.
\<close>

type_synonym file_system = "string \<Rightarrow> u8 list option"

record out_file =
  file_name :: string
  is_open :: bool
  buffered :: "u8 list"

definition File :: "(string \<Rightarrow> bool) \<Rightarrow> string \<Rightarrow> file_system \<Rightarrow> out_file \<times> file_system" where
  "File writable filename fs =
     (\<lparr>file_name = filename, is_open = writable filename, buffered = []\<rparr>,
      if writable filename then fs(filename \<mapsto> []) else fs)"

definition File_destructor :: "out_file \<Rightarrow> file_system \<Rightarrow> file_system" where
  "File_destructor file fs = (if is_open file then fs(file_name file \<mapsto> buffered file) else fs)"

definition writefile :: "u8 \<Rightarrow> out_file \<Rightarrow> out_file" where
  "writefile byte file = (if is_open file then file\<lparr>buffered := buffered file @ [byte]\<rparr> else file)"

function write_blocks :: "u8 list \<Rightarrow> u64 \<Rightarrow> u64 \<Rightarrow> out_file \<Rightarrow> out_file res" where
  "write_blocks f ii e out =
     (if ii < e
      then rbind (byte_at f (unat ii)) (\<lambda>b. write_blocks f (ii + 1) e (writefile b out))
      else Inr out)"
  by pat_completeness auto
termination
  by (relation "measure (\<lambda>(f, ii, e, out). unat e - unat ii)") (simp_all add: unat_diff_Suc_less)

declare write_blocks.simps [simp del]

text \<open>\<open>main\<close> from the header of the mapped file on.\<close>

definition parse :: "u8 list \<Rightarrow> out_file \<Rightarrow> (message list \<times> outcome \<times> out_file) res" where
  "parse f file =
     rbind (byte_at f 1) (\<lambda>b1. rbind (byte_at f 2) (\<lambda>b2. rbind (byte_at f 3) (\<lambda>b3.
     if b1 \<noteq> 0x45 \<or> b2 \<noteq> 0x4C \<or> b3 \<noteq> 0x46 then Inr ([BadSignature], ExitStatus 1, file)
     else rbind (word_at f e_shoff) (\<lambda>sh_off.
          rbind (word_at f e_shnum) (\<lambda>shnum.
          let entry_sh = ucast (shnum :: u16) :: u8
          in if \<not> entry_sh > 0 then Inr ([NoEntries], ExitStatus 1, file)
             else rbind (sections f sh_off 0 (unat entry_sh)) (\<lambda>(offs, fheader).
                  if fheader = [] then Inr (map SectionOffset offs, AssertionFailed, file)
                  else rbind (write_blocks f (image_base fheader) (image_end fheader) file) (\<lambda>file.
                       Inr (map SectionOffset offs, Finished, file))))))))"

text \<open>
  \<open>openfile\<close> asserts that the file can be opened; it maps all of it. (The mapping of an empty file
  fails, which is not tested: the first read is outside the file in either case.)
\<close>

definition openfile :: "file_system \<Rightarrow> string \<Rightarrow> u8 list option" where
  "openfile fs file = fs file"

definition flat :: string where
  "flat = ''./flat.bin''"

definition kernel_file :: string where
  "kernel_file = ''../bootloader/delice_pxe/build/pxe_boot.bin''"

definition main :: "(string \<Rightarrow> bool) \<Rightarrow> file_system \<Rightarrow> (message list \<times> outcome \<times> file_system) res" where
  "main writable fs =
     (let (file, fs) = File writable flat fs
      in case openfile fs kernel_file of
           None \<Rightarrow> Inr ([], AssertionFailed, fs)
         | Some faddr \<Rightarrow> rbind (parse faddr file) (\<lambda>(msgs, out, file).
             Inr (msgs, out, if out = Finished then File_destructor file fs else fs)))"

section \<open>Lemmas\<close>

text \<open>The two extremes are elements, and bound the others.\<close>

lemma min_fold:
  "fold (\<lambda>h m. if comparator h m then h else m) hs h0 \<in> set (h0 # hs) \<and>
    (\<forall>h\<in>set (h0 # hs). fold (\<lambda>h m. if comparator h m then h else m) hs h0 \<le> h)"
proof (induction hs arbitrary: h0)
  case (Cons h hs)
  have "(if comparator h h0 then h else h0) \<le> h" "(if comparator h h0 then h else h0) \<le> h0"
    by (auto simp: comparator_def less_eq_file_header_def)
  with Cons.IH [of "if comparator h h0 then h else h0"] show ?case
    by (auto intro: order_trans split: if_splits)
qed (simp add: less_eq_file_header_def)

lemma max_fold:
  "fold (\<lambda>h m. if comparator m h then h else m) hs h0 \<in> set (h0 # hs) \<and>
    (\<forall>h\<in>set (h0 # hs). h \<le> fold (\<lambda>h m. if comparator m h then h else m) hs h0)"
proof (induction hs arbitrary: h0)
  case (Cons h hs)
  have "h \<le> (if comparator h0 h then h else h0)" "h0 \<le> (if comparator h0 h then h else h0)"
    by (auto simp: comparator_def less_eq_file_header_def)
  with Cons.IH [of "if comparator h0 h then h else h0"] show ?case
    by (auto intro: order_trans split: if_splits)
qed (simp add: less_eq_file_header_def)

lemma min_element_spec:
  assumes "hs \<noteq> []"
  shows "min_element hs \<in> set hs" "h \<in> set hs \<Longrightarrow> offset (min_element hs) \<le> offset h"
  using min_fold [of "tl hs" "hd hs"] assms
  by (simp_all add: min_element_def less_eq_file_header_def)

lemma max_element_spec:
  assumes "hs \<noteq> []"
  shows "max_element hs \<in> set hs" "h \<in> set hs \<Longrightarrow> offset h \<le> offset (max_element hs)"
  using max_fold [of "tl hs" "hd hs"] assms
  by (simp_all add: max_element_def less_eq_file_header_def)

text \<open>The copy loop writes a slice of the file.\<close>

definition writefiles :: "u8 list \<Rightarrow> out_file \<Rightarrow> out_file" where
  "writefiles bs file = (if is_open file then file\<lparr>buffered := buffered file @ bs\<rparr> else file)"

lemma writefiles_Nil [simp]: "writefiles [] file = file"
  by (simp add: writefiles_def)

lemma writefiles_Cons: "writefiles (b # bs) file = writefiles bs (writefile b file)"
  by (simp add: writefiles_def writefile_def)

lemma write_blocks_slice:
  assumes "unat ii \<le> unat e" "unat e \<le> length f"
  shows "write_blocks f ii e out = Inr (writefiles (take (unat e - unat ii) (drop (unat ii) f)) out)"
  using assms
proof (induction "unat e - unat ii" arbitrary: ii out)
  case 0
  then show ?case by (subst write_blocks.simps) (simp add: word_less_nat_alt)
next
  case (Suc n)
  then have lt: "ii < e"
    by (simp add: word_less_nat_alt)
  then have s: "unat (ii + 1) = Suc (unat ii)"
    by (rule unat_Suc_less)
  have "write_blocks f (ii + 1) e (writefile (f ! unat ii) out) =
      Inr (writefiles (take (unat e - unat (ii + 1)) (drop (unat (ii + 1)) f)) (writefile (f ! unat ii) out))"
    using Suc s by (intro Suc.hyps) simp_all
  moreover have "drop (unat ii) f = f ! unat ii # drop (Suc (unat ii)) f"
    using Suc.prems Suc.hyps(2) by (intro Cons_nth_drop_Suc [symmetric]) simp
  moreover have "unat e - unat ii = Suc (unat e - unat (ii + 1))"
    using Suc.hyps(2) s by simp
  ultimately show ?case
    using lt Suc.prems Suc.hyps(2)
    by (subst write_blocks.simps) (simp add: byte_at_def writefiles_Cons s)
qed

lemma write_blocks_fault:
  assumes "unat ii < unat e" "length f < unat e" "unat ii \<le> length f"
  shows "write_blocks f ii e out = Inl OutOfBounds"
  using assms
proof (induction "length f - unat ii" arbitrary: ii out)
  case 0
  then show ?case by (subst write_blocks.simps) (simp add: word_less_nat_alt byte_at_def)
next
  case (Suc n)
  then have lt: "ii < e"
    by (simp add: word_less_nat_alt)
  then have s: "unat (ii + 1) = Suc (unat ii)"
    by (rule unat_Suc_less)
  have "write_blocks f (ii + 1) e (writefile (f ! unat ii) out) = Inl OutOfBounds"
    using Suc s by (intro Suc.hyps) simp_all
  then show ?case
    using lt Suc.prems Suc.hyps(2) by (subst write_blocks.simps) (simp add: byte_at_def)
qed


text \<open>The fields of the header with number \<open>ii\<close>, and the headers the program keeps.\<close>

definition field :: "u8 list \<Rightarrow> nat \<Rightarrow> u64" where
  "field f off = bytes_word (take 8 (drop off f))"

definition shdr_offset :: "u8 list \<Rightarrow> u64 \<Rightarrow> nat \<Rightarrow> u64" where
  "shdr_offset f sh_off ii = field f (unat sh_off + 64 * ii + 24)"

definition shdr_size :: "u8 list \<Rightarrow> u64 \<Rightarrow> nat \<Rightarrow> u64" where
  "shdr_size f sh_off ii = field f (unat sh_off + 64 * ii + 32)"

definition kept :: "u8 list \<Rightarrow> u64 \<Rightarrow> nat \<Rightarrow> bool" where
  "kept f sh_off ii \<longleftrightarrow> 0 < shdr_offset f sh_off ii \<and> shdr_offset f sh_off ii < sh_off"

definition kept_headers :: "u8 list \<Rightarrow> u64 \<Rightarrow> nat list \<Rightarrow> file_header list" where
  "kept_headers f sh_off is =
     map (\<lambda>ii. initheader (shdr_offset f sh_off ii) (shdr_size f sh_off ii)) (filter (kept f sh_off) is)"

lemma sections_eq:
  assumes "unat sh_off + 64 * (ii + n) \<le> length f"
  shows "sections f sh_off ii n =
    Inr (map (shdr_offset f sh_off) (filter (kept f sh_off) [ii..<ii + n]),
      kept_headers f sh_off [ii..<ii + n])"
  using assms
proof (induction n arbitrary: ii)
  case 0
  then show ?case by (simp add: kept_headers_def)
next
  case (Suc n)
  have "[ii..<ii + Suc n] = ii # [Suc ii..<Suc ii + n]"
    by (simp add: upt_rec)
  moreover have "sections f sh_off (Suc ii) n =
      Inr (map (shdr_offset f sh_off) (filter (kept f sh_off) [Suc ii..<Suc ii + n]),
        kept_headers f sh_off [Suc ii..<Suc ii + n])"
    using Suc.prems by (intro Suc.IH) simp
  moreover have "word_at f (unat sh_off + sizeof_shdr * ii + sh_offset) = Inr (shdr_offset f sh_off ii)"
    "word_at f (unat sh_off + sizeof_shdr * ii + sh_size) = Inr (shdr_size f sh_off ii)"
    using Suc.prems
    by (simp_all add: word_at_def shdr_offset_def shdr_size_def field_def sizeof_shdr_def sh_offset_def sh_size_def)
  ultimately show ?case
    by (cases "kept f sh_off ii")
      (simp_all add: kept_headers_def kept_def [of f sh_off ii] Let_def del: upt_Suc)
qed

text \<open>A file with the signature, a section header table inside the file, and a kept section.\<close>

definition elf_file :: "u8 list \<Rightarrow> u64 \<Rightarrow> nat \<Rightarrow> bool" where
  "elf_file f sh_off n \<longleftrightarrow>
     64 \<le> length f \<and> f ! 1 = 0x45 \<and> f ! 2 = 0x4C \<and> f ! 3 = 0x46 \<and> field f 40 = sh_off \<and>
     unat (ucast (bytes_word (take 2 (drop 60 f)) :: u16) :: u8) = n \<and> 0 < n \<and>
     unat sh_off + 64 * n \<le> length f"

lemma parse_elf:
  assumes "elf_file f sh_off n"
  shows "parse f file =
    (if kept_headers f sh_off [0..<n] = []
     then Inr (map (\<lambda>ii. SectionOffset (shdr_offset f sh_off ii)) (filter (kept f sh_off) [0..<n]), AssertionFailed, file)
     else rbind (write_blocks f (image_base (kept_headers f sh_off [0..<n])) (image_end (kept_headers f sh_off [0..<n])) file)
      (\<lambda>file. Inr (map (\<lambda>ii. SectionOffset (shdr_offset f sh_off ii)) (filter (kept f sh_off) [0..<n]), Finished, file)))"
proof -
  have *: "byte_at f 1 = Inr 0x45" "byte_at f 2 = Inr 0x4C" "byte_at f 3 = Inr 0x46"
    "word_at f e_shoff = Inr sh_off"
    using assms(1) by (simp_all add: elf_file_def byte_at_def word_at_def e_shoff_def field_def)
  define shnum :: u16 where "shnum = bytes_word (take 2 (drop 60 f))"
  have n: "unat (ucast shnum :: u8) = n" "0 < n"
    using assms(1) by (simp_all add: elf_file_def shnum_def)
  then have pos: "\<not> \<not> (ucast shnum :: u8) > 0"
    by (auto simp: word_less_nat_alt)
  have shnum: "word_at f e_shnum = Inr shnum"
    using assms(1) by (simp add: elf_file_def word_at_def e_shnum_def shnum_def)
  have sec: "sections f sh_off 0 n =
      Inr (map (shdr_offset f sh_off) (filter (kept f sh_off) [0..<n]), kept_headers f sh_off [0..<n])"
    using sections_eq [of sh_off 0 n f] assms(1) by (simp add: elf_file_def)
  show ?thesis
    unfolding parse_def * shnum rbind_simps Let_def n if_not_P [OF pos] sec
    by (simp add: comp_def)
qed

lemma unat_header_offset: "unat (ucast (ucast off :: u32) :: u64) = unat (ucast (off :: u64) :: u32)"
  by simp

lemma unat_low_32:
  assumes "unat (w :: u64) < 2 ^ 32"
  shows "unat (ucast w :: u32) = unat w"
  using assms by (simp add: unsigned_ucast_eq take_bit_nat_eq_self_iff)

text \<open>
  The flat image: with 32-bit section ends inside the file, the output is the part of the
  file from the first kept section to the end of the one that starts last.
\<close>

definition kept_numbers :: "u8 list \<Rightarrow> u64 \<Rightarrow> nat \<Rightarrow> nat list" where
  "kept_numbers f sh_off n = filter (kept f sh_off) [0..<n]"

lemma kept_headers_numbers:
  "kept_headers f sh_off [0..<n] =
    map (\<lambda>ii. initheader (shdr_offset f sh_off ii) (shdr_size f sh_off ii)) (kept_numbers f sh_off n)"
  by (simp add: kept_headers_def kept_numbers_def)

lemma parse_image:
  assumes "elf_file f sh_off n" "kept_numbers f sh_off n \<noteq> []"
    and ends: "\<And>i. i \<in> set (kept_numbers f sh_off n) \<Longrightarrow>
      unat (shdr_offset f sh_off i) + unat (shdr_size f sh_off i) < 2 ^ 32 \<and>
      unat (shdr_offset f sh_off i) + unat (shdr_size f sh_off i) \<le> length f"
  shows "\<exists>msgs a z. a \<in> set (kept_numbers f sh_off n) \<and> z \<in> set (kept_numbers f sh_off n) \<and>
    (\<forall>i\<in>set (kept_numbers f sh_off n). shdr_offset f sh_off a \<le> shdr_offset f sh_off i \<and>
      shdr_offset f sh_off i \<le> shdr_offset f sh_off z) \<and>
    parse f file = Inr (msgs, Finished,
      writefiles (take (unat (shdr_offset f sh_off z) + unat (shdr_size f sh_off z) - unat (shdr_offset f sh_off a))
        (drop (unat (shdr_offset f sh_off a)) f)) file)"
proof -
  let ?hs = "kept_headers f sh_off [0..<n]"
  let ?o = "\<lambda>i. unat (shdr_offset f sh_off i)" and ?s = "\<lambda>i. unat (shdr_size f sh_off i)"
  have ne: "?hs \<noteq> []"
    using assms(2) by (simp add: kept_headers_numbers)
  obtain a where a: "a \<in> set (kept_numbers f sh_off n)"
    "min_element ?hs = initheader (shdr_offset f sh_off a) (shdr_size f sh_off a)"
    using min_element_spec(1) [OF ne] by (auto simp: kept_headers_numbers)
  obtain z where z: "z \<in> set (kept_numbers f sh_off n)"
    "max_element ?hs = initheader (shdr_offset f sh_off z) (shdr_size f sh_off z)"
    using max_element_spec(1) [OF ne] by (auto simp: kept_headers_numbers)
  have low: "unat (ucast (shdr_offset f sh_off i) :: u32) = ?o i" "unat (ucast (shdr_size f sh_off i) :: u32) = ?s i"
    if "i \<in> set (kept_numbers f sh_off n)" for i
    using ends [OF that] by (auto intro: unat_low_32)
  have le: "?o a \<le> ?o i" "?o i \<le> ?o z" if i: "i \<in> set (kept_numbers f sh_off n)" for i
  proof -
    have "initheader (shdr_offset f sh_off i) (shdr_size f sh_off i) \<in> set ?hs"
      using i by (auto simp: kept_headers_numbers)
    from min_element_spec(2) [OF ne this] max_element_spec(2) [OF ne this] show "?o a \<le> ?o i" "?o i \<le> ?o z"
      by (simp_all add: a(2) z(2) initheader_def word_le_nat_alt low i a(1) z(1))
  qed
  have base: "unat (image_base ?hs) = ?o a"
    by (simp add: image_base_def a initheader_def low)
  have "unat (ucast (shdr_offset f sh_off z) + ucast (shdr_size f sh_off z) :: u32) = ?o z + ?s z"
    using ends [OF z(1)] low [OF z(1)] by (subst unat_word_ariths) simp
  then have e: "unat (image_end ?hs) = ?o z + ?s z"
    by (simp add: image_end_def z initheader_def)
  have "write_blocks f (image_base ?hs) (image_end ?hs) file =
      Inr (writefiles (take (unat (image_end ?hs) - unat (image_base ?hs)) (drop (unat (image_base ?hs)) f)) file)"
    using le(1) [OF z(1)] ends [OF z(1)] by (intro write_blocks_slice) (simp_all add: base e)
  then have "parse f file = Inr (map (\<lambda>ii. SectionOffset (shdr_offset f sh_off ii)) (filter (kept f sh_off) [0..<n]),
      Finished, writefiles (take (?o z + ?s z - ?o a) (drop (?o a) f)) file)"
    using parse_elf [OF assms(1)] ne by (simp add: base e)
  with a(1) z(1) le show ?thesis
    by (intro exI conjI) (auto simp: word_le_nat_alt)
qed

section \<open>The file system\<close>

text \<open>What opening the output leaves behind, and what \<open>main\<close> makes of a run of \<open>parse\<close>.\<close>

definition truncated :: "(string \<Rightarrow> bool) \<Rightarrow> file_system \<Rightarrow> file_system" where
  "truncated writable fs = (if writable flat then fs(flat \<mapsto> []) else fs)"

definition output_stream :: "(string \<Rightarrow> bool) \<Rightarrow> out_file" where
  "output_stream writable = \<lparr>file_name = flat, is_open = writable flat, buffered = []\<rparr>"

lemma main_parse:
  "main writable fs =
    (case fs kernel_file of
       None \<Rightarrow> Inr ([], AssertionFailed, truncated writable fs)
     | Some f \<Rightarrow> rbind (parse f (output_stream writable)) (\<lambda>(msgs, out, file).
         Inr (msgs, out, if out = Finished then File_destructor file (truncated writable fs) else truncated writable fs)))"
proof -
  have "truncated writable fs kernel_file = fs kernel_file"
    by (simp add: truncated_def flat_def kernel_file_def)
  then show ?thesis
    unfolding output_stream_def by (simp add: main_def File_def openfile_def flip: truncated_def)
qed

lemma close_image:
  "File_destructor (writefiles bs (output_stream writable)) (truncated writable fs) =
    (if writable flat then fs(flat \<mapsto> bs) else fs)"
  by (simp add: File_destructor_def writefiles_def output_stream_def truncated_def)

lemma write_blocks_open: "write_blocks f ii e out = Inr out' \<Longrightarrow> is_open out' = is_open out"
proof (induction f ii e out rule: write_blocks.induct)
  case (1 f ii e out)
  from "1.prems" show ?case
    by (subst (asm) write_blocks.simps)
      (auto simp: rbind_Inr_iff writefile_def split: if_splits dest!: "1.IH")
qed

lemma parse_open: "parse f out = Inr (msgs, res, out') \<Longrightarrow> is_open out' = is_open out"
  by (auto simp: parse_def rbind_Inr_iff Let_def split: if_splits dest!: write_blocks_open)

lemma main_unwritable:
  assumes "main writable fs = Inr (msgs, out, fs')" "\<not> writable flat"
  shows "fs' = fs"
  using assms
  by (auto simp: main_parse rbind_Inr_iff truncated_def File_destructor_def output_stream_def
      split: option.splits if_splits dest!: parse_open)

text \<open>The ends of \<open>parse\<close> before a byte is written.\<close>

lemma low_byte: "2 \<le> length bs \<Longrightarrow> ucast (bytes_word (take 2 bs) :: u16) = hd bs"
  by (cases bs) (auto simp: bytes_word_def bit_simps intro!: bit_word_eqI)

lemma parse_bad_signature:
  assumes "64 \<le> length f" "(f ! 1, f ! 2, f ! 3) \<noteq> (0x45, 0x4C, 0x46)"
  shows "parse f out = Inr ([BadSignature], ExitStatus 1, out)"
  using assms by (simp add: parse_def byte_at_def)

lemma parse_no_entries:
  assumes "64 \<le> length f" "(f ! 1, f ! 2, f ! 3) = (0x45, 0x4C, 0x46)" "f ! 60 = 0"
  shows "parse f out = Inr ([NoEntries], ExitStatus 1, out)"
proof -
  have "ucast (bytes_word (take 2 (drop 60 f)) :: u16) = (0 :: u8)"
    using low_byte [of "drop 60 f"] assms(1,3) by (simp add: hd_drop_conv_nth)
  then show ?thesis
    using assms(1,2) by (simp add: parse_def byte_at_def word_at_def e_shoff_def e_shnum_def)
qed

lemma parse_none_kept:
  assumes "elf_file f sh_off n" "kept_numbers f sh_off n = []"
  shows "parse f out = Inr ([], AssertionFailed, out)"
  using parse_elf [OF assms(1)] assms(2) by (simp add: kept_headers_numbers flip: kept_numbers_def)

end
