(* ===== verification/Elf_Properties.thy ===== *)
theory Elf_Properties
  imports Elf
begin

text \<open>
  The properties of the tool that flattens the linked kernel, and the file they are applied to:
  one section of four bytes behind the header, and the section header table behind it.
\<close>

definition small_elf :: "u64 \<Rightarrow> u8 list" where
  "small_elf sz =
    [0x7f, 0x45, 0x4C, 0x46] @ replicate 36 0 @ word_bytes (68 :: u64) @ replicate 12 0 @
    word_bytes (1 :: u16) @ replicate 2 0 @ [0xde, 0xad, 0xbe, 0xef] @
    replicate 24 0 @ word_bytes (64 :: u64) @ word_bytes sz @ replicate 24 0"

lemma small_elf_fields:
  "length (small_elf sz) = 132" "field (small_elf sz) 40 = 68"
  "bytes_word (take 2 (drop 60 (small_elf sz))) = (1 :: u16)"
  "shdr_offset (small_elf sz) 68 0 = 64" "shdr_size (small_elf sz) 68 0 = sz"
  "take 4 (drop 64 (small_elf sz)) = [0xde, 0xad, 0xbe, 0xef]"
  by (simp_all add: small_elf_def field_def shdr_offset_def shdr_size_def bytes_word_word_bytes)

lemma small_elf_file: "elf_file (small_elf sz) 68 1"
  using small_elf_fields [of sz] by (simp add: elf_file_def) (simp add: small_elf_def)

lemma small_elf_kept: "kept_numbers (small_elf sz) 68 1 = [0]"
  by (simp add: kept_numbers_def kept_def small_elf_fields)



text \<open>
  Offset and size are cut to 32 bits and added in 32 bits: a single section whose end is
  past four gigabytes, so that the sum wraps around to its start or below, gives an empty
  image and no error.
\<close>

theorem flat_image_wraps:
  assumes "elf_file f sh_off n" "kept_numbers f sh_off n = [i]"
    and "unat (shdr_offset f sh_off i) < 2 ^ 32"
    and "(unat (shdr_offset f sh_off i) + unat (shdr_size f sh_off i)) mod 2 ^ 32 \<le> unat (shdr_offset f sh_off i)"
  shows "parse f out = Inr ([SectionOffset (shdr_offset f sh_off i)], Finished, out)"
proof -
  let ?h = "initheader (shdr_offset f sh_off i) (shdr_size f sh_off i)"
  have hs: "kept_headers f sh_off [0..<n] = [?h]"
    using assms(2) by (simp add: kept_headers_numbers)
  have base: "unat (image_base [?h]) = unat (shdr_offset f sh_off i)"
    using unat_low_32 [OF assms(3)] by (simp add: image_base_def min_element_def initheader_def)
  have "unat (image_end [?h]) = (unat (ucast (shdr_offset f sh_off i) :: u32) +
      unat (ucast (shdr_size f sh_off i) :: u32)) mod 2 ^ 32"
    by (simp add: image_end_def max_element_def initheader_def unat_word_ariths)
  also have "\<dots> = (unat (shdr_offset f sh_off i) + unat (shdr_size f sh_off i)) mod 2 ^ 32"
    by (simp add: unsigned_ucast_eq take_bit_eq_mod mod_add_eq)
  finally have "\<not> image_base [?h] < image_end [?h]"
    using assms(4) base by (simp add: word_less_nat_alt)
  moreover have "filter (kept f sh_off) [0..<n] = [i]"
    using assms(2) by (simp add: kept_numbers_def)
  ultimately show ?thesis
    using parse_elf [OF assms(1)] hs by (simp add: write_blocks.simps)
qed

theorem flat_image_wraps_witness: "parse (small_elf 0xFFFFFFF0) out = Inr ([SectionOffset 64], Finished, out)"
  using flat_image_wraps [OF small_elf_file small_elf_kept, of "0xFFFFFFF0"] by (simp add: small_elf_fields)

text \<open>
  C38. The errors of the tool. It opens its output first: when the kernel cannot be opened, when
  the signature is not that of an ELF file, when the byte that is kept of the number of sections
  is zero, and when no section is kept, it says so and stops, and \<open>flat.bin\<close> is left empty, whatever
  it held before. When the output cannot be opened nothing is written, and a run that finds its
  sections ends without a message.
\<close>

theorem elf_errors:
  fixes fs :: file_system
  shows "(fs kernel_file = None \<longrightarrow> main writable fs = Inr ([], AssertionFailed, truncated writable fs)) \<and>
    (fs kernel_file = Some f \<longrightarrow> 64 \<le> length f \<longrightarrow> (f ! 1, f ! 2, f ! 3) \<noteq> (0x45, 0x4C, 0x46) \<longrightarrow>
      main writable fs = Inr ([BadSignature], ExitStatus 1, truncated writable fs)) \<and>
    (fs kernel_file = Some f \<longrightarrow> 64 \<le> length f \<longrightarrow> (f ! 1, f ! 2, f ! 3) = (0x45, 0x4C, 0x46) \<longrightarrow> f ! 60 = 0 \<longrightarrow>
      main writable fs = Inr ([NoEntries], ExitStatus 1, truncated writable fs)) \<and>
    (fs kernel_file = Some f \<longrightarrow> elf_file f sh_off n \<longrightarrow> kept_numbers f sh_off n = [] \<longrightarrow>
      main writable fs = Inr ([], AssertionFailed, truncated writable fs)) \<and>
    (main writable fs = Inr (msgs, out, fs') \<longrightarrow> \<not> writable flat \<longrightarrow> fs' = fs)"
  using main_unwritable [of writable fs msgs out fs']
  by (auto simp: main_parse parse_bad_signature parse_no_entries parse_none_kept)

theorem elf_errors_witness:
  "main (\<lambda>_. True) [kernel_file \<mapsto> replicate 64 0, flat \<mapsto> [1, 2, 3]] =
    Inr ([BadSignature], ExitStatus 1, [kernel_file \<mapsto> replicate 64 0, flat \<mapsto> []])"
  using elf_errors [of "[kernel_file \<mapsto> replicate 64 0, flat \<mapsto> [1, 2, 3]]" "\<lambda>_. True" "replicate 64 0"]
  by (simp add: truncated_def flat_def kernel_file_def)

end
