(* ===== verification/Init.thy ===== *)
theory Init
  imports Apic Interrupt Paging Perf
begin

text \<open>
  \<open>init.cc\<close>: \<open>start_kernel\<close>, the composition of all components, and \<open>static_init\<close> of
  \<open>misc/init.h\<close>. The addresses the linker assigns and the list of constructors it collects
  are parameters, gathered in a record.
\<close>

record 'a image =
  init_array :: "('a kernel_scheme \<Rightarrow> 'a kernel_scheme) list"
  printf_buffer :: u64
  lits :: literals
  idt_addrs :: idt_addresses
  buf :: u64
  union_rest :: u32

definition e20_addr :: u64 where "e20_addr = 0x14000"
definition BUF_SIZE :: u64 where "BUF_SIZE = 64 * 1024"

definition static_init :: "('s \<Rightarrow> 's) list \<Rightarrow> 's \<Rightarrow> 's" where
  "static_init fs s = fold (\<lambda>p s. p s) fs s"

section \<open>The steps of \<open>start_kernel\<close>\<close>

text \<open>\<open>printf\<close> for its effect, and the lines the boot code prints.\<close>

definition print :: "'a image \<Rightarrow> string \<Rightarrow> va_list \<Rightarrow> 'a kernel_scheme \<Rightarrow> 'a kernel_scheme res" where
  "print I format va s = rbind (printf_api (printf_buffer I) (format @ [CHR 0x0A]) va s) (\<lambda>(_, s). Inr s)"

text \<open>The memory map of the BIOS: entries of 24 bytes and, behind them, their number plus one.\<close>

definition e20_entry :: "u8 \<Rightarrow> u64" where
  "e20_entry ii = e20_addr + 24 * ucast ii"

function print_e20 :: "'a image \<Rightarrow> u8 \<Rightarrow> u8 \<Rightarrow> 'a kernel_scheme \<Rightarrow> 'a kernel_scheme res" where
  "print_e20 I entry_count ii s =
     (if ii < entry_count
      then let entry_addr = load_e20_entry (mem s) (e20_entry ii)
           in rbind (print I ''e820 entry addr entry %lx %x %d''
                [VaInt (e20_base entry_addr), VaInt (e20_len entry_addr),
                 VaInt (ucast (e20_type entry_addr))] s) (\<lambda>s.
              print_e20 I entry_count (ii + 1) s)
      else Inr s)"
  by pat_completeness auto
termination
  by (relation "measure (\<lambda>(I, entry_count, ii, s). unat entry_count - unat ii)")
    (simp_all add: unat_diff_Suc_less)

declare print_e20.simps [simp del]

definition map_apic :: "'a machine_scheme \<Rightarrow> 'a machine_scheme" where
  "map_apic s = s\<lparr>mem := map_addr 0x13370000000 0xfee00000 (PAGE_PRESENT OR PAGE_WRITE OR PAGE_UC) (mem s)\<rparr>"

definition fill_buf :: "'a image \<Rightarrow> 'b machine_scheme \<Rightarrow> 'b machine_scheme" where
  "fill_buf I s = s\<lparr>mem := unoptimized_function2 (buf I) BUF_SIZE (mem s)\<rparr>"

text \<open>One round of the measurement loop.\<close>

definition perf_round :: "'a image \<Rightarrow> 'a kernel_scheme \<Rightarrow> 'a kernel_scheme res" where
  "perf_round I s =
     (let s = disable_perf_globalctrl s;
          s = reset s;
          s = clear s;
          s = occur Wbinvd s;
          s = set_perfselect (generate_perf (union_rest I)) s;
          s = set_perf_globalctrl s;
          (val, s) = rdmsr 0x1d9 s;
          s = fill_buf I s;
          s = disable_perf_globalctrl s
      in rbind (print I ''VAL %d'' [VaInt val] s) (\<lambda>s.
         let (pmc, s) = read 0 s
         in print I ''PMC counter val %d'' [VaInt pmc] s))"

definition boot_bsp :: "'a image \<Rightarrow> 'a kernel_scheme \<Rightarrow> 'a kernel_scheme res" where
  "boot_bsp I s =
     (let entry_count = mem s (e20_addr + 0x200) - 1
      in rbind (print_e20 I entry_count 0 s) (\<lambda>s.
         rbind (print I ''BSP processor ready'' [] s) (\<lambda>s.
         let (apic, s) = check_apic s
         in rbind (if apic then print I ''APIC is supported'' [] s else Inr s) (\<lambda>s.
         let s = load_idt (idt_addrs I) s;
             s = enable_interrupt s
         in rbind (init (lits I) s) (\<lambda>s.
         let s = enable_lapic s
         in rbind (get_perf (printf_buffer I) s) (\<lambda>s.
         let s = enable_pmi_nmi s
         in perf_round I s))))))"

definition boot_ap :: "'a image \<Rightarrow> 'a kernel_scheme \<Rightarrow> 'a kernel_scheme res" where
  "boot_ap I s =
     (let (core, s) = get_apic_id s
      in print I ''Dragon rocket CPU Core id: %d'' [VaInt core] s)"

definition start_kernel :: "'a image \<Rightarrow> 'a kernel_scheme \<Rightarrow> 'a kernel_scheme res" where
  "start_kernel I s =
     (let s = static_init (init_array I) s;
          s = disable_interrupt s;
          s = serial_init s;
          s = s\<lparr>CORE_ID := CORE_ID s + 1\<rparr>;
          s = map_apic s;
          (bsp, s) = is_bsp s
      in rbind (if bsp then boot_bsp I s else boot_ap I s) (\<lambda>s.
         let s = s\<lparr>mem := (mem s)(0x7e00 := 0x1)\<rparr>;
             s = disable_interrupt s
         in Inr (halt s)))"


section \<open>What the steps keep\<close>

definition extends :: "'a machine_scheme \<Rightarrow> 'b machine_scheme \<Rightarrow> bool" where
  "extends s t \<longleftrightarrow> (\<exists>xs. trace t = xs @ trace s)"

lemma extends_refl: "extends s s"
  by (simp add: extends_def)

lemma extends_trans: "extends s t \<Longrightarrow> extends t u \<Longrightarrow> extends s u"
  by (force simp: extends_def)

lemma extends_trace_eq: "extends s t \<Longrightarrow> trace t' = trace t \<Longrightarrow> extends s t'"
  by (simp add: extends_def)

text \<open>Printing adds port accesses and changes nothing but the trace and the lock.\<close>

lemma printf_port_events:
  assumes "printf_api b format va s = Inr (n, t)"
  shows "mem t = mem s \<and> hw t = hw s \<and> device t = device s \<and> serial_machine.more t = serial_machine.more s \<and>
    (\<exists>xs. trace t = xs @ trace s \<and> list_all is_port xs)"
proof -
  obtain u where u: "vprintf_api b format va (s\<lparr>spin := snd (take_ticket (spin s))\<rparr>) = Inr (n, u)"
    "t = u\<lparr>spin := drop_guard (spin u)\<rparr>"
    using assms by (auto simp: printf_api_def case_prod_beta rbind_Inr_iff Let_def split: if_splits)
  from vprintf_frame [OF u(1)] only_trace_serial [OF vprintf_frame [OF u(1)]] u(2) show ?thesis
    by (auto simp: only_trace_def)
qed

lemma print_events:
  assumes "print I format va s = Inr t"
  shows "mem t = mem s" "hw t = hw s" "\<exists>xs. trace t = xs @ trace s \<and> list_all is_port xs"
  using assms printf_port_events unfolding print_def rbind_Inr_iff by (fastforce)+

lemma print_extends: "print I format va s = Inr t \<Longrightarrow> extends s t"
  using print_events(3) unfolding extends_def by blast

lemma print_e20_events:
  "print_e20 I n ii s = Inr t \<Longrightarrow> mem t = mem s \<and> (\<exists>xs. trace t = xs @ trace s \<and> list_all is_port xs)"
proof (induction I n ii s rule: print_e20.induct)
  case (1 I n ii s)
  show ?case
  proof (cases "ii < n")
    case False
    with 1(2) show ?thesis by (simp add: print_e20.simps [of I n ii])
  next
    case True
    then obtain u where u: "print I ''e820 entry addr entry %lx %x %d''
        [VaInt (load_le (mem s) (e20_entry ii)), VaInt (load_le (mem s) (e20_entry ii + 8)),
         VaInt (ucast (load_le (mem s) (e20_entry ii + 16) :: u32))] s = Inr u"
      "print_e20 I n (ii + 1) u = Inr t"
      using 1(2) by (auto simp: print_e20.simps [of I n ii] rbind_Inr_iff Let_def)
    from 1(1) [OF True refl, unfolded e20_fields, OF u] print_events [OF u(1)] show ?thesis
      by force
  qed
qed

section \<open>Order of events\<close>

text \<open>Interrupts are enabled only with a descriptor table loaded before.\<close>

definition guarded :: "event list \<Rightarrow> bool" where
  "guarded tr \<longleftrightarrow> (\<forall>xs ys. tr = xs @ Sti # ys \<longrightarrow> (\<exists>l b. Lidt l b \<in> set ys))"

lemma guarded_no_sti: "Sti \<notin> set tr \<Longrightarrow> guarded tr"
  by (auto simp: guarded_def)

lemma guarded_append:
  assumes "guarded tr" "Lidt l b \<in> set tr"
  shows "guarded (xs @ tr)"
  unfolding guarded_def
proof (intro allI impI)
  fix us vs assume "xs @ tr = us @ Sti # vs"
  then consider zs where "us = xs @ zs" "tr = zs @ Sti # vs" | "set tr \<subseteq> set vs"
    by (force simp: append_eq_append_conv2 append_eq_Cons_conv)
  then show "\<exists>l b. Lidt l b \<in> set vs"
    using assms by cases (simp add: guarded_def, blast)
qed

lemma guarded_extends:
  "extends s t \<Longrightarrow> guarded (trace s) \<Longrightarrow> Lidt l b \<in> set (trace s) \<Longrightarrow> guarded (trace t)"
  by (auto simp: extends_def guarded_append)

lemma list_all_port_no_sti: "list_all is_port xs \<Longrightarrow> Sti \<notin> set xs"
  by (auto simp: list_all_iff)

section \<open>The measurement\<close>

fun msr_writes :: "event list \<Rightarrow> (u32 \<times> u64) list" where
  "msr_writes [] = []"
| "msr_writes (e # tr) = (case e of Wrmsr r v \<Rightarrow> msr_writes tr @ [(r, v)] | _ \<Rightarrow> msr_writes tr)"

lemma msr_writes_port: "list_all is_port xs \<Longrightarrow> msr_writes (xs @ tr) = msr_writes tr"
proof (induction xs)
  case (Cons e xs)
  then show ?case by (cases e) simp_all
qed simp

lemma read_simps:
  "mem (snd (read i s)) = mem s" "hw (snd (read i s)) = hw s"
  "trace (snd (read i s)) = [Lfence, Mfence, Rdpmc i] @ trace s"
  by (simp_all add: read_def mfence_def lfence_def Let_def)

text \<open>The state in which the fill runs, and what it leaves.\<close>

definition before_fill :: "'a image \<Rightarrow> 'a kernel_scheme \<Rightarrow> 'a kernel_scheme" where
  "before_fill I s =
     snd (rdmsr 0x1d9 (set_perf_globalctrl (set_perfselect (generate_perf (union_rest I))
       (occur Wbinvd (clear (reset (disable_perf_globalctrl s)))))))"

lemma before_fill_trace:
  "trace (before_fill I s) =
    [Rdmsr 0x1d9, Wrmsr 0x38f 0x200000001, Wrmsr 0x186 (generate_perf (union_rest I)), Wbinvd,
     Wrmsr 0x30a 0, Wrmsr 0xc1 0, Wrmsr 0x186 0,
     Wrmsr 0x390 (msr_in (hw s) (Wrmsr 0x38f 0 # trace s) 0x38e), Rdmsr 0x38e, Wrmsr 0x38f 0] @ trace s"
  "mem (before_fill I s) = mem s"
  by (simp_all add: before_fill_def rdmsr_eq wrmsr_eq set_perf_globalctrl_def set_perfselect_def clear_def
      reset_def disable_perf_globalctrl_def)

lemma perf_round_cases:
  assumes "perf_round I s = Inr t"
  shows "mem t = unoptimized_function2 (buf I) BUF_SIZE (mem s) \<and>
    (\<exists>xs ys. trace t = ys @ [Lfence, Mfence, Rdpmc 0] @ xs @ Wrmsr 0x38f 0 # trace (before_fill I s) \<and>
      list_all is_port xs \<and> list_all is_port ys)"
proof -
  define u where "u = disable_perf_globalctrl (fill_buf I (before_fill I s))"
  have u: "mem u = unoptimized_function2 (buf I) BUF_SIZE (mem s)"
    "trace u = Wrmsr 0x38f 0 # trace (before_fill I s)"
    by (simp_all add: u_def disable_perf_globalctrl_def wrmsr_eq fill_buf_def before_fill_trace)
  obtain val v where v: "print I ''VAL %d'' [VaInt val] u = Inr v"
    "print I ''PMC counter val %d'' [VaInt (fst (read 0 v))] (snd (read 0 v)) = Inr t"
    using assms by (auto simp: perf_round_def before_fill_def u_def rbind_Inr_iff Let_def case_prod_beta)
  obtain xs where xs: "trace v = xs @ trace u" "list_all is_port xs"
    using print_events(3) [OF v(1)] by blast
  obtain ys where "trace t = ys @ trace (snd (read 0 v))" "list_all is_port ys"
    using print_events(3) [OF v(2)] by blast
  then have "trace t = ys @ [Lfence, Mfence, Rdpmc 0] @ xs @ Wrmsr 0x38f 0 # trace (before_fill I s)"
    using xs(1) u(2) by (simp add: read_simps)
  moreover have "mem t = unoptimized_function2 (buf I) BUF_SIZE (mem s)"
    using print_events(1) [OF v(1)] print_events(1) [OF v(2)] u(1) by (simp add: read_simps)
  ultimately show ?thesis
    using xs(2) \<open>list_all is_port ys\<close> by blast
qed


section \<open>The whole boot\<close>

lemma serial_init_events:
  "\<exists>xs. trace (serial_init s) = xs @ trace s \<and> list_all is_port xs"
proof -
  have "list_all is_port (concat (map (\<lambda>p. if p = 0 then [] else port_block p) ps))" for ps
    by (induction ps) (simp_all add: port_block_def)
  then show ?thesis
    unfolding serial_init_def Serial.init_def [symmetric] init_trace by blast
qed

lemma enable_lapic_extends: "extends s (enable_lapic s)"
  unfolding extends_def enable_lapic_trace by blast

lemma init_trace_same: "Apic.init L s = Inr t \<Longrightarrow> trace t = trace s"
  by (auto simp: Apic.init_def split: option.splits sum.splits)

lemma get_perf_extends:
  assumes "get_perf b s = Inr t"
  shows "extends s t"
proof -
  obtain u va n where u: "printf_api b (''Version id %d | Number of Perf ctrs %d | Bit width of counter %d'' @ [CHR 0x0A]) va u = Inr (n, t)"
    "trace u = [Cpuid 0x0a 0, Cpuid 0x0a 0, Cpuid 0x0a 0] @ trace s"
    using assms by (auto simp: get_perf_def rbind_Inr_iff Let_def cpuid_def case_prod_beta)
  from printf_port_events [OF u(1)] u(2) show ?thesis
    by (auto simp: extends_def)
qed

lemma perf_round_extends:
  assumes "perf_round I s = Inr t"
  shows "extends s t"
  using perf_round_cases [OF assms] by (auto simp: extends_def before_fill_trace)

text \<open>The processor that boots: up to the descriptor table, and after it.\<close>

lemma boot_bsp_split:
  fixes s t :: "'a kernel_scheme"
  assumes "boot_bsp I s = Inr t"
  shows "\<exists>(u :: 'a kernel_scheme) xs. trace u = xs @ trace s \<and> Sti \<notin> set xs \<and> extends (enable_interrupt (load_idt (idt_addrs I) u)) t"
proof -
  obtain s1 where 1: "print_e20 I (mem s (e20_addr + 0x200) - 1) 0 s = Inr s1"
    using assms by (auto simp: boot_bsp_def rbind_Inr_iff Let_def)
  then obtain s2 where 2: "print I ''BSP processor ready'' [] s1 = Inr s2"
    using assms by (auto simp: boot_bsp_def rbind_Inr_iff Let_def)
  then obtain s3 where 3:
    "(if fst (check_apic s2) then print I ''APIC is supported'' [] (snd (check_apic s2)) else Inr (snd (check_apic s2))) = Inr s3"
    using assms 1 by (auto simp: boot_bsp_def rbind_Inr_iff Let_def case_prod_beta)
  let ?e = "enable_interrupt (load_idt (idt_addrs I) s3)"
  obtain s4 s5 where 4: "Apic.init (lits I) ?e = Inr s4" "get_perf (printf_buffer I) (enable_lapic s4) = Inr s5"
    "perf_round I (enable_pmi_nmi s5) = Inr t"
    using assms 1 2 3 by (auto simp: boot_bsp_def rbind_Inr_iff Let_def case_prod_beta)
  have "extends s4 (enable_lapic s4)" "extends (enable_lapic s4) s5" "extends (enable_pmi_nmi s5) t"
    using enable_lapic_extends get_perf_extends [OF 4(2)] perf_round_extends [OF 4(3)] by blast+
  moreover have "extends s5 (enable_pmi_nmi s5)"
    by (simp add: enable_pmi_nmi_def apic_write_def extends_def)
  moreover have "extends ?e s4"
    using init_trace_same [OF 4(1)] by (simp add: extends_def)
  ultimately have "extends ?e t"
    by (blast intro: extends_trans)
  moreover obtain xs1 xs2 xs3 where xs: "trace s1 = xs1 @ trace s" "list_all is_port xs1"
    "trace s2 = xs2 @ trace s1" "list_all is_port xs2"
    "trace s3 = xs3 @ Cpuid 1 0 # trace s2" "list_all is_port xs3"
  proof -
    have c: "trace (snd (check_apic s2)) = Cpuid 1 0 # trace s2"
      by (simp add: check_apic_def cpuid_def case_prod_beta Let_def)
    have "\<exists>xs3. trace s3 = xs3 @ Cpuid 1 0 # trace s2 \<and> list_all is_port xs3"
      using 3 print_events(3) [of I "''APIC is supported''" "[]" "snd (check_apic s2)" s3] c
      by (auto split: if_splits)
    with that print_e20_events [OF 1] print_events(3) [OF 2] show thesis by blast
  qed
  then have "trace s3 = (xs3 @ Cpuid 1 0 # xs2 @ xs1) @ trace s" "Sti \<notin> set (xs3 @ Cpuid 1 0 # xs2 @ xs1)"
    by (auto dest: list_all_port_no_sti)
  ultimately show ?thesis
    by (intro exI conjI)
qed

lemma boot_bsp_guarded:
  fixes s t :: "'a kernel_scheme"
  assumes "boot_bsp I s = Inr t" "Sti \<notin> set (trace s)"
  shows "guarded (trace t)"
proof -
  obtain u :: "'a kernel_scheme" and xs where u: "trace u = xs @ trace s" "Sti \<notin> set xs"
    "extends (enable_interrupt (load_idt (idt_addrs I) u)) t"
    using boot_bsp_split [OF assms(1)] by blast
  let ?e = "enable_interrupt (load_idt (idt_addrs I) u)"
  have e: "trace ?e = Sti # Lidt 0xFEF (interrupt_desc_table (idt_addrs I)) # xs @ trace s"
    by (simp add: enable_interrupt_def load_idt_lidt u(1))
  have "guarded (trace ?e)"
    unfolding guarded_def e
  proof (intro allI impI)
    fix us vs assume *: "Sti # Lidt 0xFEF (interrupt_desc_table (idt_addrs I)) # xs @ trace s = us @ Sti # vs"
    then show "\<exists>l b. Lidt l b \<in> set vs"
    proof (cases us)
      case Nil
      with * have "Lidt 0xFEF (interrupt_desc_table (idt_addrs I)) \<in> set vs"
        by auto
      then show ?thesis by blast
    next
      case (Cons x us')
      with * have "Lidt 0xFEF (interrupt_desc_table (idt_addrs I)) # xs @ trace s = us' @ Sti # vs"
        by simp
      then have "Sti \<in> set (Lidt 0xFEF (interrupt_desc_table (idt_addrs I)) # xs @ trace s)"
        by simp
      with u(2) assms(2) show ?thesis by simp
    qed
  qed
  moreover have "Lidt 0xFEF (interrupt_desc_table (idt_addrs I)) \<in> set (trace ?e)"
    by (simp add: e)
  ultimately show ?thesis
    by (rule guarded_extends [OF u(3)])
qed

text \<open>The common start, up to the question whether this is the boot processor.\<close>

definition early :: "'a image \<Rightarrow> 'a kernel_scheme \<Rightarrow> 'a kernel_scheme" where
  "early I s =
     (let s = serial_init (disable_interrupt (static_init (init_array I) s))
      in map_apic (s\<lparr>CORE_ID := CORE_ID s + 1\<rparr>))"

lemma start_kernel_early:
  "start_kernel I s =
    rbind (if fst (is_bsp (early I s)) then boot_bsp I (snd (is_bsp (early I s)))
           else boot_ap I (snd (is_bsp (early I s))))
      (\<lambda>s. Inr (halt (disable_interrupt (s\<lparr>mem := (mem s)(0x7e00 := 0x1)\<rparr>))))"
  by (simp add: start_kernel_def early_def Let_def case_prod_beta)

lemma is_bsp_simps:
  "fst (is_bsp s) \<longleftrightarrow> bit (msr_in (hw s) (trace s) 0x1b) 8"
  "snd (is_bsp s) = occur (Rdmsr 0x1b) s"
proof -
  have "w AND push_bit 8 1 \<noteq> 0 \<longleftrightarrow> bit w 8" for w :: u64
    by (simp only: push_bit_of_1 and_exp_eq_0_iff_not_bit not_not)
  then show "fst (is_bsp s) \<longleftrightarrow> bit (msr_in (hw s) (trace s) 0x1b) 8"
    by (simp add: is_bsp_def rdmsr_eq)
  show "snd (is_bsp s) = occur (Rdmsr 0x1b) s"
    by (simp add: is_bsp_def rdmsr_eq)
qed

lemma start_kernel_end:
  assumes "start_kernel I s = Inr t"
  shows "mem t 0x7e00 = 1 \<and> (\<exists>tr. trace t = Hlt # Cli # tr)"
  using assms by (auto simp: start_kernel_early rbind_Inr_iff halt_def disable_interrupt_def)

lemma early_events:
  "\<exists>xs. trace (early I s) = xs @ Cli # trace (static_init (init_array I) s) \<and> list_all is_port xs"
  using serial_init_events [of "disable_interrupt (static_init (init_array I) s)"]
  by (auto simp: early_def map_apic_def disable_interrupt_def Let_def)

lemma start_kernel_guarded:
  assumes "start_kernel I s = Inr t" "Sti \<notin> set (trace (static_init (init_array I) s))"
  shows "guarded (trace t)"
proof -
  let ?s = "snd (is_bsp (early I s))"
  obtain xs where "trace (early I s) = xs @ Cli # trace (static_init (init_array I) s)" "list_all is_port xs"
    using early_events by blast
  then have s: "Sti \<notin> set (trace ?s)"
    using assms(2) by (auto simp: is_bsp_simps dest: list_all_port_no_sti)
  obtain u where u: "(if fst (is_bsp (early I s)) then boot_bsp I ?s else boot_ap I ?s) = Inr u"
    "trace t = Hlt # Cli # trace u"
    using assms(1) by (auto simp: start_kernel_early rbind_Inr_iff halt_def disable_interrupt_def)
  have "guarded (trace u)"
  proof (cases "fst (is_bsp (early I s))")
    case True
    with u(1) s show ?thesis using boot_bsp_guarded by auto
  next
    case False
    then have "boot_ap I ?s = Inr u"
      using u(1) by simp
    then obtain xs where "trace u = xs @ MmioRead (apic_base + 0x20) # trace ?s" "list_all is_port xs"
      using print_events(3) by (force simp: boot_ap_def get_apic_id_def apic_read_def Let_def)
    with s show ?thesis
      by (intro guarded_no_sti) (auto dest: list_all_port_no_sti)
  qed
  moreover have "guarded (e # e' # tr)" if "guarded tr" "e \<noteq> Sti" "e' \<noteq> Sti" for e e' tr
    using that unfolding guarded_def by (auto simp: Cons_eq_append_conv)
  ultimately show ?thesis
    by (simp add: u(2))
qed


text \<open>
  A processor that is not the boot processor, with serial ports that get ready and the lock
  free: it announces its id on every port, releases its stack and halts.
\<close>

lemma early_simps:
  "mem (early I s) = map_addr 0x13370000000 0xfee00000 (PAGE_PRESENT OR PAGE_WRITE OR PAGE_UC)
     (mem (static_init (init_array I) s))"
  "hw (early I s) = hw (static_init (init_array I) s)"
  "spin (early I s) = spin (static_init (init_array I) s)"
  "length (device (static_init (init_array I) s)) = 4 \<Longrightarrow>
     device (early I s) = map (com_port (mem (static_init (init_array I) s))) [0..<4]"
proof -
  let ?s = "static_init (init_array I) s"
  have d: "mem (disable_interrupt ?s) = mem ?s" "hw (disable_interrupt ?s) = hw ?s"
    "spin (disable_interrupt ?s) = spin ?s" "device (disable_interrupt ?s) = device ?s"
    by (simp_all add: disable_interrupt_def occur_def)
  show "mem (early I s) = map_addr 0x13370000000 0xfee00000 (PAGE_PRESENT OR PAGE_WRITE OR PAGE_UC) (mem ?s)"
    "hw (early I s) = hw ?s" "spin (early I s) = spin ?s"
    by (simp_all add: early_def map_apic_def serial_init_def d Let_def)
  assume "length (device ?s) = 4"
  then show "device (early I s) = map (com_port (mem ?s)) [0..<4]"
    using init_device_list [of "disable_interrupt ?s"]
    by (simp add: early_def map_apic_def serial_init_def d Let_def del: upt_Suc)
qed

lemma core_id_message:
  assumes "unat w < 256"
  shows "format_text (''Dragon rocket CPU Core id: %d'' @ [CHR 0x0A]) [VaInt w] =
    Inr (''Dragon rocket CPU Core id: '' @ nat_text 10 (unat w) @ [CHR 0x0A])"
proof -
  have s: "sint (ucast w :: u32) = int (unat w)"
    using assms by (intro sint_ucast_small) simp
  then have "0 \<le> sint (ucast w :: u32)"
    by (metis of_nat_0_le_iff)
  then have "int_text (sint (ucast w :: u32)) = nat_text 10 (nat (sint (ucast w :: u32)))"
    by (simp add: int_text_def)
  also have "\<dots> = nat_text 10 (unat w)"
    by (simp only: s nat_int)
  finally have t: "int_text (sint (ucast w :: u32)) = nat_text 10 (unat w)" .
  have "sint (ucast w :: u32) \<noteq> - (2 ^ 31)"
    using \<open>0 \<le> sint (ucast w :: u32)\<close> by auto
  then show ?thesis
    using t by (simp add: format_text_simps)
qed

text \<open>The id the local APIC reports.\<close>

definition ap_id :: "'a image \<Rightarrow> 'a kernel_scheme \<Rightarrow> u64" where
  "ap_id I s = ucast (drop_bit 24 (mmio_in (hw (early I s)) (Rdmsr 0x1b # trace (early I s)) (apic_base + 0x20)) AND 0xff)"

lemma ap_boot:
  assumes "\<not> fst (is_bsp (early I s))" "can_print (early I s)" "printf_buffer I \<noteq> 0"
  shows "\<exists>t. start_kernel I s = Inr t \<and> mem t = (mem (early I s))(0x7e00 := 1) \<and>
    (\<forall>p. p \<noteq> 0 \<longrightarrow> p \<in> set (device (early I s)) \<longrightarrow> sent p (trace t) = sent p (trace (early I s)) @
      wire_text (''Dragon rocket CPU Core id: '' @ nat_text 10 (unat (ap_id I s)) @ [CHR 0x0A]))"
proof -
  let ?b = "occur (Rdmsr 0x1b) (early I s)"
  define v where "v = mmio_in (hw ?b) (trace ?b) (apic_base + 0x20)"
  define w where "w = ap_id I s"
  have w_def': "w = (ucast (drop_bit 24 v AND 0xff) :: u64)"
    by (simp add: w_def ap_id_def v_def)
  let ?a = "occur (MmioRead (apic_base + 0x20)) ?b"
  have id: "get_apic_id ?b = (w, ?a)"
    by (simp add: get_apic_id_def apic_read_def v_def w_def' Let_def)
  have "drop_bit 24 v AND 0xff = take_bit 8 (drop_bit 24 v)"
    by (simp add: take_bit_eq_mask mask_eq_exp_minus_1)
  then have "unat w = take_bit 8 (unat (drop_bit 24 v))"
    by (simp add: w_def' unsigned_take_bit_eq)
  then have w: "unat w < 256"
    using take_bit_nat_less_exp [of 8 "unat (drop_bit 24 v)"] by simp
  have "can_print ?a" "device ?a = device (early I s)" "mem ?a = mem (early I s)"
    using assms(2) by (simp_all add: can_print_def ready_def occur_def)
  then obtain u where u: "printf_api (printf_buffer I) (''Dragon rocket CPU Core id: %d'' @ [CHR 0x0A]) [VaInt w] ?a =
      Inr (of_nat (length (''Dragon rocket CPU Core id: '' @ nat_text 10 (unat w) @ [CHR 0x0A])), u)"
    "mem u = mem (early I s)"
    "\<forall>p. p \<noteq> 0 \<longrightarrow> sent p (trace u) = sent p (trace ?a) @ (if p \<in> set (device (early I s))
      then wire_text (''Dragon rocket CPU Core id: '' @ nat_text 10 (unat w) @ [CHR 0x0A]) else [])"
    using printf_can_print [OF _ assms(3) core_id_message [OF w]] by metis
  have "boot_ap I ?b = Inr u"
    unfolding boot_ap_def id Let_def prod.case print_def u(1) by simp
  then have "start_kernel I s = Inr (halt (disable_interrupt (u\<lparr>mem := (mem u)(0x7e00 := 1)\<rparr>)))"
    using assms(1) by (simp add: start_kernel_early is_bsp_simps(2))
  moreover have "sent p (trace (halt (disable_interrupt (u\<lparr>mem := (mem u)(0x7e00 := 1)\<rparr>)))) = sent p (trace u)" for p
    by (simp add: halt_def disable_interrupt_def)
  ultimately show ?thesis
    using u(2,3) unfolding w_def
    by (intro exI [of _ "halt (disable_interrupt (u\<lparr>mem := (mem u)(0x7e00 := 1)\<rparr>))"])
      (simp add: halt_def disable_interrupt_def)
qed

end
