(* ===== verification/Boot.thy ===== *)
theory Boot
  imports Init
begin

text \<open>
  The boot returns: each step of \<open>start_kernel\<close> that prints keeps the conditions under which
  the next one prints, so that the whole sequence comes to its end. The numbers printed with
  \<open>%d\<close> must not be the least integer, for which the conversion overflows.
\<close>

section \<open>Printing steps\<close>

lemma can_print_cong:
  "device t = device s \<Longrightarrow> hw t = hw s \<Longrightarrow> spin t = spin s \<Longrightarrow> can_print t \<longleftrightarrow> can_print s"
  by (simp add: can_print_def ready_def)

text \<open>What a step may rely on, and has to leave.\<close>

definition keeps :: "'a kernel_scheme \<Rightarrow> 'a kernel_scheme \<Rightarrow> bool" where
  "keeps s t \<longleftrightarrow> hw t = hw s \<and> device t = device s \<and> (can_print s \<longrightarrow> can_print t) \<and>
     serial_machine.more t = serial_machine.more s"

lemma keeps_refl [simp]: "keeps s s"
  by (simp add: keeps_def)

lemma keeps_trans: "keeps s t \<Longrightarrow> keeps t u \<Longrightarrow> keeps s u"
  by (simp add: keeps_def)

lemma keeps_occur [simp]: "keeps s (occur e s)"
  by (simp add: keeps_def can_print_def ready_def occur_def)

lemma keeps_nodes: "keeps s t \<Longrightarrow> cpu_nodes t = cpu_nodes s \<and> CORE_ID t = CORE_ID s"
  by (cases s; cases t) (simp add: keeps_def)

lemma print_returns:
  assumes "can_print s" "printf_buffer I \<noteq> 0" "format_text (format @ [CHR 0x0A]) va = Inr cs"
  shows "\<exists>t. print I format va s = Inr t \<and> mem t = mem s \<and> keeps s t"
proof -
  obtain n t where t: "printf_api (printf_buffer I) (format @ [CHR 0x0A]) va s = Inr (n, t)" "can_print t"
    using printf_can_print [OF assms] by blast
  with printf_port_events [OF t(1)] show ?thesis
    by (auto simp: print_def keeps_def)
qed

text \<open>A number \<open>%d\<close> can print.\<close>

definition printable :: "u64 \<Rightarrow> bool" where
  "printable w \<longleftrightarrow> sint (ucast w :: u32) \<noteq> - (2 ^ 31)"

lemma printable_small: "unat w < 2 ^ 31 \<Longrightarrow> printable w"
  using sint_ucast_small [of w] by (auto simp: printable_def simp del: of_nat_unat)

lemma messages:
  "printable w \<Longrightarrow> \<exists>cs. format_text (''VAL %d'' @ [CHR 0x0A]) [VaInt w] = Inr cs"
  "printable w \<Longrightarrow> \<exists>cs. format_text (''PMC counter val %d'' @ [CHR 0x0A]) [VaInt w] = Inr cs"
  "\<exists>cs. format_text (''BSP processor ready'' @ [CHR 0x0A]) [] = Inr cs"
  "\<exists>cs. format_text (''APIC is supported'' @ [CHR 0x0A]) [] = Inr cs"
  "printable c \<Longrightarrow> \<exists>cs. format_text (''e820 entry addr entry %lx %x %d'' @ [CHR 0x0A]) [VaInt a, VaInt b, VaInt c] = Inr cs"
  "printable a \<Longrightarrow> printable b \<Longrightarrow> printable c \<Longrightarrow>
    \<exists>cs. format_text (''Version id %d | Number of Perf ctrs %d | Bit width of counter %d'' @ [CHR 0x0A])
      [VaInt a, VaInt b, VaInt c] = Inr cs"
  by (simp_all add: printable_def format_text_simps)

text \<open>The values of the hardware that \<open>start_kernel\<close> prints with \<open>%d\<close>.\<close>

definition printable_hw :: "hardware \<Rightarrow> bool" where
  "printable_hw h \<longleftrightarrow> (\<forall>tr. printable (msr_in h tr 0x1d9)) \<and> (\<forall>tr. printable (pmc_in h tr 0))"

section \<open>The steps of the boot processor\<close>

lemma print_e20_returns:
  "printf_buffer I \<noteq> 0 \<Longrightarrow> can_print s \<Longrightarrow>
    (\<And>jj. ii \<le> jj \<Longrightarrow> jj < n \<Longrightarrow> printable (ucast (load_le (mem s) (e20_entry jj + 16) :: u32))) \<Longrightarrow>
    \<exists>t. print_e20 I n ii s = Inr t \<and> mem t = mem s \<and> keeps s t"
proof (induction I n ii s rule: print_e20.induct)
  case (1 I n ii s)
  show ?case
  proof (cases "ii < n")
    case True
    let ?a = "e20_entry ii"
    obtain cs where "format_text (''e820 entry addr entry %lx %x %d'' @ [CHR 0x0A])
        [VaInt (load_le (mem s) ?a), VaInt (load_le (mem s) (?a + 8)),
         VaInt (ucast (load_le (mem s) (?a + 16) :: u32))] = Inr cs"
      using messages(5) 1(4) [of ii] True by blast
    then obtain u where u: "print I ''e820 entry addr entry %lx %x %d''
        [VaInt (load_le (mem s) ?a), VaInt (load_le (mem s) (?a + 8)),
         VaInt (ucast (load_le (mem s) (?a + 16) :: u32))] s = Inr u" "mem u = mem s" "keeps s u"
      using print_returns [OF 1(3,2)] by blast
    have "can_print u"
      using 1(3) u(3) by (simp add: keeps_def)
    moreover have "printable (ucast (load_le (mem u) (e20_entry jj + 16) :: u32))" if "ii + 1 \<le> jj" "jj < n" for jj
      using 1(4) [of jj] that unat_Suc_less [OF True] by (simp add: u(2) word_le_nat_alt)
    ultimately have "\<exists>t. print_e20 I n (ii + 1) u = Inr t \<and> mem t = mem u \<and> keeps u t"
      by (rule 1(1) [OF True refl, unfolded e20_fields, OF u(1) 1(2)])
    then show ?thesis
      using True u keeps_trans [of s u] by (subst print_e20.simps) (auto simp: Let_def)
  next
    case False
    then show ?thesis
      by (subst print_e20.simps) simp
  qed
qed

lemma keeps_mem [simp]: "keeps s (s\<lparr>mem := m\<rparr>)"
  by (simp add: keeps_def can_print_def ready_def)

text \<open>The register accesses of a step only add events.\<close>

lemma keeps_steps:
  "keeps s (wrmsr r v s)" "keeps s (snd (rdmsr r s))" "keeps s (disable_perf_globalctrl s)" "keeps s (reset s)"
  "keeps s (clear s)" "keeps s (set_perfselect v s)" "keeps s (set_perf_globalctrl s)"
  "keeps s (snd (read i s))" "keeps s (enable_pmi_nmi s)" "keeps s (enable_lapic s)" "keeps s (fill_buf I s)"
  "keeps s (snd (check_apic s))" "keeps s (enable_interrupt s)"
proof -
  show w: "keeps s (wrmsr r v s)" for s :: "'a kernel_scheme" and r v
    by (simp add: wrmsr_eq)
  show r: "keeps s (snd (rdmsr r s))" for s :: "'a kernel_scheme" and r
    by (simp add: rdmsr_eq)
  have a: "keeps s (apic_write r v s)" for s :: "'a kernel_scheme" and r v
    by (simp add: apic_write_def)
  show "keeps s (disable_perf_globalctrl s)" "keeps s (set_perfselect v s)" "keeps s (set_perf_globalctrl s)"
    "keeps s (enable_pmi_nmi s)" "keeps s (fill_buf I s)" "keeps s (enable_interrupt s)"
    by (simp_all add: disable_perf_globalctrl_def set_perfselect_def set_perf_globalctrl_def w a
        enable_pmi_nmi_def fill_buf_def enable_interrupt_def)
  show "keeps s (reset s)"
    unfolding reset_def case_prod_beta Let_def by (rule keeps_trans [OF r w])
  show "keeps s (clear s)"
    unfolding clear_def Let_def by (rule keeps_trans [OF keeps_trans [OF w w] w])
  show "keeps s (snd (read i s))"
    unfolding read_def Let_def mfence_def lfence_def snd_conv
    by (rule keeps_trans [OF keeps_occur keeps_trans [OF keeps_occur keeps_occur]])
  show "keeps s (enable_lapic s)"
    unfolding enable_lapic_def Let_def by (rule keeps_trans [OF keeps_trans [OF keeps_trans [OF w a] a] a])
  show "keeps s (snd (check_apic s))"
    by (simp add: check_apic_def cpuid_def case_prod_beta Let_def)
qed

lemma get_perf_returns:
  assumes "can_print s" "b \<noteq> 0"
  shows "\<exists>t. get_perf b s = Inr t \<and> mem t = mem s \<and> keeps s t"
proof -
  define u where "u = occur (Cpuid 0x0a 0) (occur (Cpuid 0x0a 0) (occur (Cpuid 0x0a 0) s))"
  have u: "keeps s u" "mem u = mem s"
    unfolding u_def by (rule keeps_trans [OF keeps_occur keeps_trans [OF keeps_occur keeps_occur]]) simp
  obtain x y z :: u8 where g: "get_perf b s = rbind (printf_api b
      (''Version id %d | Number of Perf ctrs %d | Bit width of counter %d'' @ [CHR 0x0A])
      [VaInt (ucast x), VaInt (ucast y), VaInt (ucast z)] u) (\<lambda>(_, s). Inr s)"
    by (simp add: get_perf_def cpuid_def case_prod_beta Let_def u_def)
  have "unat (ucast w :: u64) < 2 ^ 31" for w :: u8
  proof -
    have "unat w < 2 ^ LENGTH(8)"
      by (rule unsigned_less)
    then show ?thesis
      by simp
  qed
  then obtain cs where msg:
    "format_text (''Version id %d | Number of Perf ctrs %d | Bit width of counter %d'' @ [CHR 0x0A])
      [VaInt (ucast x), VaInt (ucast y), VaInt (ucast z)] = Inr cs"
    using messages(6) printable_small by blast
  have can: "can_print u"
    using assms(1) u(1) by (simp add: keeps_def)
  obtain n t where t: "printf_api b
      (''Version id %d | Number of Perf ctrs %d | Bit width of counter %d'' @ [CHR 0x0A])
      [VaInt (ucast x), VaInt (ucast y), VaInt (ucast z)] u = Inr (n, t)" "can_print t"
    using printf_can_print [OF can assms(2) msg] by blast
  have "keeps u t" "mem t = mem u"
    using printf_port_events [OF t(1)] t(2) by (simp_all add: keeps_def)
  moreover have "get_perf b s = Inr t"
    unfolding g t(1) by simp
  ultimately show ?thesis
    using u keeps_trans [OF u(1)] by simp
qed

lemma perf_round_returns:
  fixes s :: "'a kernel_scheme"
  assumes "can_print s" "printf_buffer I \<noteq> 0" "printable_hw (hw s)"
  shows "\<exists>t. perf_round I s = Inr t \<and> keeps s t"
proof -
  define r where "r = set_perf_globalctrl (set_perfselect (generate_perf (union_rest I))
    (occur Wbinvd (clear (reset (disable_perf_globalctrl s)))))"
  define val where "val = fst (rdmsr 0x1d9 r)"
  define u where "u = disable_perf_globalctrl (fill_buf I (snd (rdmsr 0x1d9 r)))"
  have r: "keeps s r"
    unfolding r_def by (intro keeps_trans [OF _ keeps_steps(7)] keeps_trans [OF _ keeps_steps(6)]
        keeps_trans [OF _ keeps_occur] keeps_trans [OF _ keeps_steps(5)] keeps_trans [OF _ keeps_steps(4)] keeps_steps(3))
  then have u: "keeps s u"
    unfolding u_def by (intro keeps_trans [OF _ keeps_steps(3)] keeps_trans [OF _ keeps_steps(11)]
        keeps_trans [OF r keeps_steps(2)])
  have "printable val"
    using assms(3) r by (simp add: val_def rdmsr_eq printable_hw_def keeps_def)
  then obtain v where v: "print I ''VAL %d'' [VaInt val] u = Inr v" "keeps u v"
    using print_returns [of u I] messages(1) u assms(1,2) unfolding keeps_def by blast
  have "fst (read 0 v) = pmc_in (hw v) (trace v) 0"
    using edx_eax_halves(2) [of "pmc_in (hw v) (trace v) 0"] by (simp add: read_def Let_def edx_eax_def)
  then have "printable (fst (read 0 v))"
    using assms(3) u v(2) by (simp add: printable_hw_def keeps_def)
  moreover have w: "keeps s (snd (read 0 v))"
    using keeps_trans [OF keeps_trans [OF u v(2)] keeps_steps(8)] .
  ultimately obtain t where t: "print I ''PMC counter val %d'' [VaInt (fst (read 0 v))] (snd (read 0 v)) = Inr t"
    "keeps (snd (read 0 v)) t"
    using print_returns [of "snd (read 0 v)" I] messages(2) assms(1,2) unfolding keeps_def by blast
  have "perf_round I s = Inr t"
    using v(1) t(1) by (simp add: perf_round_def r_def val_def u_def Let_def case_prod_beta)
  then show ?thesis
    using keeps_trans [OF w t(2)] by blast
qed

section \<open>The boot processor\<close>

lemma keeps_load_idt: "keeps s (load_idt A s)"
  unfolding load_idt_def Let_def by (rule keeps_trans [OF keeps_mem keeps_occur])

lemma load_idt_mem_cong: "mem t = mem s \<Longrightarrow> mem (load_idt A t) = mem (load_idt A s)"
  for s :: "'a machine_scheme" and t :: "'b machine_scheme"
  by (simp add: load_idt_mem)

text \<open>
  The conditions of the boot: a lock that is free and ports that get ready, printable numbers,
  and ACPI tables from which the ids are read without a fault and without a loop. The tables
  are searched after the descriptor table was written.
\<close>

definition processors :: "literals \<Rightarrow> memory \<Rightarrow> u8 list \<Rightarrow> bool" where
  "processors L m ids \<longleftrightarrow> (\<exists>rsdp idss. find_rsdp L m = Some rsdp \<and>
     rsdt_entries m (rsdt_of m rsdp) = int (length idss) \<and>
     (\<forall>k<length idss. table_ids L m (entry_pointer m (rsdt_of m rsdp + 36) k) (idss ! k)) \<and> ids = concat idss)"

definition bootable :: "'a image \<Rightarrow> u8 list \<Rightarrow> 'a kernel_scheme \<Rightarrow> bool" where
  "bootable I ids s \<longleftrightarrow>
     can_print s \<and> printf_buffer I \<noteq> 0 \<and> printable_hw (hw s) \<and>
     (\<forall>jj < mem s (e20_addr + 0x200) - 1. printable (ucast (load_le (mem s) (e20_entry jj + 16) :: u32))) \<and>
     processors (lits I) (mem (load_idt (idt_addrs I) s)) ids"

text \<open>The first half: messages and the descriptor table.\<close>

lemma boot_messages:
  fixes s :: "'a kernel_scheme"
  assumes "can_print s" "printf_buffer I \<noteq> 0"
    and "\<forall>jj < mem s (e20_addr + 0x200) - 1. printable (ucast (load_le (mem s) (e20_entry jj + 16) :: u32))"
  shows "\<exists>u :: 'a kernel_scheme. keeps s u \<and> mem u = mem s \<and>
    (\<forall>k :: 'a kernel_scheme \<Rightarrow> 'a kernel_scheme res. rbind (print_e20 I (mem s (e20_addr + 0x200) - 1) 0 s) (\<lambda>s.
         rbind (print I ''BSP processor ready'' [] s) (\<lambda>s.
         case check_apic s of (apic, s) \<Rightarrow>
           rbind (if apic then print I ''APIC is supported'' [] s else Inr s) k)) = k u)"
proof -
  have say: "\<exists>b. print I f [] a = Inr b \<and> mem b = mem a \<and> keeps a b"
    if "can_print a" "\<exists>cs. format_text (f @ [CHR 0x0A]) [] = Inr cs" for f and a :: "'a kernel_scheme"
    using print_returns [OF that(1) assms(2)] that(2) by blast
  obtain a where a: "print_e20 I (mem s (e20_addr + 0x200) - 1) 0 s = Inr a" "mem a = mem s" "keeps s a"
    using print_e20_returns [OF assms(2,1), of 0 "mem s (e20_addr + 0x200) - 1"] assms(3) by blast
  then have "can_print a"
    using assms(1) by (simp add: keeps_def)
  then obtain b where b: "print I ''BSP processor ready'' [] a = Inr b" "mem b = mem a" "keeps a b"
    using say [OF _ messages(3)] by blast
  define c where "c = snd (check_apic b)"
  have c: "keeps s c" "mem c = mem s"
    unfolding c_def using keeps_trans [OF keeps_trans [OF a(3) b(3)] keeps_steps(12)] a(2) b(2)
    by (simp_all add: check_apic_def cpuid_def case_prod_beta Let_def)
  then have "can_print c"
    using assms(1) by (simp add: keeps_def)
  then obtain d where d: "print I ''APIC is supported'' [] c = Inr d" "mem d = mem c" "keeps c d"
    using say [OF _ messages(4)] by blast
  define u where "u = (if fst (check_apic b) then d else c)"
  have "keeps s u" "mem u = mem s"
    using c d keeps_trans [OF c(1) d(3)] by (simp_all add: u_def)
  moreover have "rbind (print_e20 I (mem s (e20_addr + 0x200) - 1) 0 s) (\<lambda>s.
         rbind (print I ''BSP processor ready'' [] s) (\<lambda>s.
         case check_apic s of (apic, s) \<Rightarrow>
           rbind (if apic then print I ''APIC is supported'' [] s else Inr s) k)) = k u" for k :: "'a kernel_scheme \<Rightarrow> 'a kernel_scheme res"
    using a(1) b(1) d(1) by (simp add: u_def c_def case_prod_beta Let_def)
  ultimately show ?thesis
    by blast
qed

text \<open>What a whole boot leaves: it may change the core table as well.\<close>

definition boots :: "'a kernel_scheme \<Rightarrow> 'a kernel_scheme \<Rightarrow> bool" where
  "boots s t \<longleftrightarrow> hw t = hw s \<and> device t = device s \<and> (can_print s \<longrightarrow> can_print t) \<and>
     CORE_ID t = CORE_ID s \<and> kernel.more t = kernel.more s"

lemma keeps_boots: "keeps s t \<Longrightarrow> boots s t"
  by (cases s; cases t) (simp add: keeps_def boots_def)

lemma boots_trans: "boots s t \<Longrightarrow> boots t u \<Longrightarrow> boots s u"
  by (simp add: boots_def)

lemma boots_nodes [simp]: "boots s (s\<lparr>cpu_nodes := nodes\<rparr>)"
  by (simp add: boots_def can_print_def ready_def)

lemma boot_bsp_returns:
  fixes s :: "'a kernel_scheme"
  assumes "bootable I ids s"
  shows "\<exists>t. boot_bsp I s = Inr t \<and> cpu_nodes t = register_all ids (cpu_nodes s) \<and>
    mem t = unoptimized_function2 (buf I) BUF_SIZE (mem (load_idt (idt_addrs I) s)) \<and> boots s t"
proof -
  have can: "can_print s" and buffer: "printf_buffer I \<noteq> 0" and hws: "printable_hw (hw s)"
    and e20: "\<forall>jj < mem s (e20_addr + 0x200) - 1. printable (ucast (load_le (mem s) (e20_entry jj + 16) :: u32))"
    using assms by (simp_all add: bootable_def)
  obtain u :: "'a kernel_scheme" where u: "keeps s u" "mem u = mem s"
    "\<And>k :: 'a kernel_scheme \<Rightarrow> 'a kernel_scheme res. rbind (print_e20 I (mem s (e20_addr + 0x200) - 1) 0 s) (\<lambda>s.
         rbind (print I ''BSP processor ready'' [] s) (\<lambda>s.
         case check_apic s of (apic, s) \<Rightarrow>
           rbind (if apic then print I ''APIC is supported'' [] s else Inr s) k)) = k u"
    using boot_messages [OF can buffer e20] by blast
  define v where "v = enable_interrupt (load_idt (idt_addrs I) u)"
  have v: "keeps s v" "mem v = mem (load_idt (idt_addrs I) s)"
    unfolding v_def using keeps_trans [OF keeps_trans [OF u(1) keeps_load_idt] keeps_steps(13)]
      load_idt_mem_cong [OF u(2)] by (simp_all add: enable_interrupt_def)
  define nodes where "nodes = register_all ids (cpu_nodes s)"
  have "processors (lits I) (mem v) ids"
    using assms v(2) by (simp add: bootable_def)
  then have init: "Apic.init (lits I) v = Inr (v\<lparr>cpu_nodes := nodes\<rparr>)"
    using init_registers [of "lits I" v] keeps_nodes [OF v(1)] by (auto simp: processors_def nodes_def)
  define w where "w = enable_lapic (v\<lparr>cpu_nodes := nodes\<rparr>)"
  have w: "hw w = hw s" "can_print w" "mem w = mem v" "cpu_nodes w = nodes"
    using keeps_steps(10) [of "v\<lparr>cpu_nodes := nodes\<rparr>"] v(1) can
      keeps_nodes [OF keeps_steps(10) [of "v\<lparr>cpu_nodes := nodes\<rparr>"]]
    by (auto simp: w_def keeps_def can_print_def ready_def enable_lapic_def apic_write_def wrmsr_eq Let_def)
  obtain x where x: "get_perf (printf_buffer I) w = Inr x" "mem x = mem w" "keeps w x"
    using get_perf_returns [OF w(2) buffer] by blast
  define y where "y = enable_pmi_nmi x"
  have y: "keeps w y" "mem y = mem v"
    unfolding y_def using keeps_trans [OF x(3) keeps_steps(9)] x(2) w(3)
    by (simp_all add: enable_pmi_nmi_def apic_write_def)
  then have "can_print y" "printable_hw (hw y)"
    using w(1,2) hws by (simp_all add: keeps_def)
  then obtain t where t: "perf_round I y = Inr t" "keeps y t"
    using perf_round_returns [OF _ buffer] by blast
  have "boot_bsp I s = Inr t"
    unfolding boot_bsp_def Let_def u(3)
    using init x(1) t(1) by (simp add: v_def w_def y_def Let_def)
  moreover have "cpu_nodes t = register_all ids (cpu_nodes s)"
    using keeps_nodes [OF t(2)] keeps_nodes [OF y(1)] w(4) by (simp add: nodes_def)
  moreover have "mem t = unoptimized_function2 (buf I) BUF_SIZE (mem (load_idt (idt_addrs I) s))"
    using perf_round_cases [OF t(1)] y(2) v(2) by simp
  moreover have "boots s t"
    using boots_trans [OF keeps_boots [OF v(1)] boots_trans [OF boots_nodes [of v nodes]
        keeps_boots [OF keeps_trans [OF keeps_steps(10) [of "v\<lparr>cpu_nodes := nodes\<rparr>", folded w_def] keeps_trans [OF y(1) t(2)]]]]] .
  ultimately show ?thesis
    by blast
qed

text \<open>The whole of \<open>start_kernel\<close> on the boot processor.\<close>

lemma boots_end [simp]:
  "boots s (halt (disable_interrupt (t\<lparr>mem := m\<rparr>))) \<longleftrightarrow> boots s t" "boots (occur e s) t \<longleftrightarrow> boots s t"
  by (simp_all add: boots_def can_print_def ready_def halt_def disable_interrupt_def occur_def)

lemma start_kernel_returns:
  fixes s :: "'a kernel_scheme"
  assumes "fst (is_bsp (early I s))" "bootable I ids (early I s)"
  shows "\<exists>t. start_kernel I s = Inr t \<and> cpu_nodes t = register_all ids (cpu_nodes (early I s)) \<and>
    mem t = (unoptimized_function2 (buf I) BUF_SIZE (mem (load_idt (idt_addrs I) (early I s))))(0x7e00 := 1) \<and>
    boots (early I s) t"
proof -
  let ?b = "occur (Rdmsr 0x1b) (early I s)"
  have nodes: "cpu_nodes ?b = cpu_nodes (early I s)"
    using keeps_nodes [OF keeps_occur [of "early I s" "Rdmsr 0x1b"]] by simp
  have "bootable I ids ?b"
    using assms(2) keeps_occur [of "early I s" "Rdmsr 0x1b"] load_idt_mem_cong [of ?b "early I s" "idt_addrs I"]
    by (simp add: bootable_def keeps_def)
  then obtain t where t: "boot_bsp I ?b = Inr t" "cpu_nodes t = register_all ids (cpu_nodes ?b)"
    "mem t = unoptimized_function2 (buf I) BUF_SIZE (mem (load_idt (idt_addrs I) ?b))" "boots ?b t"
    using boot_bsp_returns by blast
  let ?t = "halt (disable_interrupt (t\<lparr>mem := (mem t)(0x7e00 := 1)\<rparr>))"
  have "start_kernel I s = Inr ?t"
    using assms(1) t(1) by (simp add: start_kernel_early is_bsp_simps(2))
  moreover have "cpu_nodes ?t = cpu_nodes t" "mem ?t = (mem t)(0x7e00 := 1)"
    by (simp_all add: halt_def disable_interrupt_def occur_def)
  ultimately show ?thesis
    using t(2-4) nodes load_idt_mem_cong [of ?b "early I s" "idt_addrs I"] by simp
qed

text \<open>The same for a processor that only announces its id.\<close>

lemma boot_ap_returns:
  fixes s :: "'a kernel_scheme"
  assumes "\<not> fst (is_bsp (early I s))" "can_print (early I s)" "printf_buffer I \<noteq> 0"
  shows "\<exists>t. start_kernel I s = Inr t \<and> mem t = (mem (early I s))(0x7e00 := 1) \<and> cpu_nodes t = cpu_nodes (early I s) \<and>
    boots (early I s) t"
proof -
  let ?b = "occur (Rdmsr 0x1b) (early I s)"
  define v where "v = mmio_in (hw ?b) (trace ?b) (apic_base + 0x20)"
  define w :: u64 where "w = ucast (drop_bit 24 v AND 0xff)"
  let ?a = "occur (MmioRead (apic_base + 0x20)) ?b"
  have id: "get_apic_id ?b = (w, ?a)"
    by (simp add: get_apic_id_def apic_read_def v_def w_def Let_def)
  have "drop_bit 24 v AND 0xff = take_bit 8 (drop_bit 24 v)"
    by (simp add: take_bit_eq_mask mask_eq_exp_minus_1)
  then have "unat w = take_bit 8 (unat (drop_bit 24 v))"
    by (simp add: w_def unsigned_take_bit_eq)
  then have w: "unat w < 256"
    using take_bit_nat_less_exp [of 8 "unat (drop_bit 24 v)"] by simp
  have a: "keeps (early I s) ?a"
    by (rule keeps_trans [OF keeps_occur keeps_occur])
  then have "can_print ?a"
    using assms(2) by (simp add: keeps_def)
  from print_returns [OF this assms(3) core_id_message [OF w]] obtain u where
    u: "print I ''Dragon rocket CPU Core id: %d'' [VaInt w] ?a = Inr u" "mem u = mem ?a" "keeps ?a u"
    by blast
  have k: "keeps (early I s) u"
    using keeps_trans [OF a u(3)] .
  let ?t = "halt (disable_interrupt (u\<lparr>mem := (mem u)(0x7e00 := 1)\<rparr>))"
  have "boot_ap I ?b = Inr u"
    unfolding boot_ap_def id Let_def prod.case u(1) by simp
  then have "start_kernel I s = Inr ?t"
    using assms(1) by (simp add: start_kernel_early is_bsp_simps(2))
  moreover have "cpu_nodes ?t = cpu_nodes u" "mem ?t = (mem u)(0x7e00 := 1)"
    by (simp_all add: halt_def disable_interrupt_def occur_def)
  ultimately show ?thesis
    using u(2) keeps_nodes [OF k] keeps_boots [OF k] by simp
qed

text \<open>The buffer of the measurement, and everything else.\<close>

lemma fill_buf_byte:
  "unoptimized_function2 b BUF_SIZE m a = (if unat (a - b) < 0x10000 then 0 else m a)"
  by (simp add: fill_eq BUF_SIZE_def)

lemma more_nodes:
  fixes s t :: "'a kernel_scheme"
  assumes "serial_machine.more t = serial_machine.more s"
  shows "cpu_nodes t = cpu_nodes s" "CORE_ID t = CORE_ID s"
  using assms by (cases t; cases s; simp)+

lemma early_nodes:
  "cpu_nodes (early I s) = cpu_nodes (static_init (init_array I) s)"
  "CORE_ID (early I s) = CORE_ID (static_init (init_array I) s) + 1"
proof -
  have "serial_machine.more (serial_init t) = serial_machine.more t" for t :: "'a kernel_scheme"
    by (simp add: serial_init_def)
  note this [THEN more_nodes(1)] this [THEN more_nodes(2)]
  then show "cpu_nodes (early I s) = cpu_nodes (static_init (init_array I) s)"
    "CORE_ID (early I s) = CORE_ID (static_init (init_array I) s) + 1"
    by (simp_all add: early_def map_apic_def disable_interrupt_def occur_def Let_def)
qed

end
