(* ===== verification/Kernel_State.thy ===== *)
theory Kernel_State
  imports Boot
begin

text \<open>
  The state of the kernel keeps its shape: the arrays their sizes, the table of processors
  entries that are its indices. It is proved once for every way through \<open>start_kernel\<close>, whether
  the hardware lets the prints return or not.
\<close>

section \<open>Constructors\<close>

text \<open>
  Constructors like that of a lock: they may set the lock free and clear the list of ports, and
  leave the machine and the tables of the kernel.
\<close>

definition constructor_ok :: "('a kernel_scheme \<Rightarrow> 'a kernel_scheme) \<Rightarrow> bool" where
  "constructor_ok f \<longleftrightarrow> (\<forall>s. mem (f s) = mem s \<and> hw (f s) = hw s \<and> length (device (f s)) = length (device s) \<and>
     (release (spin s) = acquire (spin s) \<longrightarrow> release (spin (f s)) = acquire (spin (f s))) \<and>
     serial_machine.more (f s) = serial_machine.more s)"

definition lock_constructor :: "'a kernel_scheme \<Rightarrow> 'a kernel_scheme" where
  "lock_constructor s = s\<lparr>spin := lock_init\<rparr>"

lemma lock_constructor_ok: "constructor_ok lock_constructor"
  by (simp add: constructor_ok_def lock_constructor_def lock_init_def)

lemma static_init_ok:
  assumes "\<forall>f \<in> set fs. constructor_ok f"
  shows "mem (static_init fs s) = mem s" "hw (static_init fs s) = hw s"
    "length (device (static_init fs s)) = length (device s)"
    "release (spin s) = acquire (spin s) \<Longrightarrow> release (spin (static_init fs s)) = acquire (spin (static_init fs s))"
    "serial_machine.more (static_init fs s) = serial_machine.more s"
  using assms unfolding static_init_def
  by (induction fs arbitrary: s) (simp_all add: constructor_ok_def)


section \<open>Computations that stay in a relation\<close>

text \<open>
  A relation between states that holds of every step of a computation holds of the whole, if it
  is reflexive and transitive.
\<close>

locale preorder_of_states =
  fixes R :: "'s \<Rightarrow> 's \<Rightarrow> bool"
  assumes refl [simp]: "R s s"
    and trans: "R s t \<Longrightarrow> R t u \<Longrightarrow> R s u"
begin

definition stays :: "'s \<Rightarrow> 's res \<Rightarrow> bool" where
  "stays s r \<longleftrightarrow> (\<forall>t. r = Inr t \<longrightarrow> R s t)"

lemma stays_Inl [intro!]: "stays s (Inl e)"
  by (simp add: stays_def)

lemma stays_Inr [intro!]: "R s t \<Longrightarrow> stays s (Inr t)"
  by (simp add: stays_def)

lemma staysD: "stays s r \<Longrightarrow> r = Inr t \<Longrightarrow> R s t"
  by (simp add: stays_def)

lemma stays_step: "R s t \<Longrightarrow> stays t r \<Longrightarrow> stays s r"
  using trans by (auto simp: stays_def)

lemma stays_rbind [intro]:
  assumes "stays s r" "\<And>t. r = Inr t \<Longrightarrow> stays t (f t)"
  shows "stays s (rbind r f)"
  using assms trans by (force simp: stays_def rbind_Inr_iff)

end

section \<open>The kernel's tables\<close>

definition tables :: "'a kernel_scheme \<Rightarrow> 'a kernel_scheme \<Rightarrow> bool" where
  "tables s t \<longleftrightarrow> length (device t) = length (device s) \<and> hw t = hw s \<and> CORE_ID t = CORE_ID s \<and>
     kernel.more t = kernel.more s \<and>
     (\<exists>ids. (\<forall>i \<in> set ids. unat i < MAX_CPUS) \<and> cpu_nodes t = register_all ids (cpu_nodes s))"

lemma register_all_Nil [simp]: "register_all [] ns = ns"
  by (simp add: register_all_def)

lemma tables_trans:
  assumes "tables s t" "tables t u"
  shows "tables s u"
proof -
  obtain as bs where "\<forall>i \<in> set as. unat i < MAX_CPUS" "cpu_nodes t = register_all as (cpu_nodes s)"
    "\<forall>i \<in> set bs. unat i < MAX_CPUS" "cpu_nodes u = register_all bs (cpu_nodes t)"
    using assms unfolding tables_def by blast
  then have "(\<forall>i \<in> set (as @ bs). unat i < MAX_CPUS) \<and> cpu_nodes u = register_all (as @ bs) (cpu_nodes s)"
    by (auto simp: register_all_append)
  then show ?thesis
    using assms unfolding tables_def by metis
qed

interpretation tables: preorder_of_states tables
proof unfold_locales
  have "\<forall>i \<in> set []. unat i < MAX_CPUS" for i :: u8
    by simp
  then show "tables s s" for s :: "'a kernel_scheme"
    unfolding tables_def by (metis register_all_Nil empty_iff list.set(1))
qed (rule tables_trans)

lemma more_same:
  fixes s t :: "'a kernel_scheme"
  assumes "serial_machine.more t = serial_machine.more s"
  shows "kernel.more t = kernel.more s"
  using assms by (cases s; cases t) simp

lemma same_tables:
  assumes "serial_machine.more t = serial_machine.more s" "device t = device s" "hw t = hw s"
  shows "tables s t"
  using assms more_nodes [OF assms(1)] more_same [OF assms(1)] unfolding tables_def
  by (metis register_all_Nil empty_iff list.set(1))

lemma keeps_tables: "keeps s t \<Longrightarrow> tables s t"
  by (simp add: keeps_def same_tables)

lemma printf_tables: "tables.stays s (rbind (printf_api b f va s) (\<lambda>(_, s). Inr s))"
  unfolding tables.stays_def using printf_port_events same_tables by (fastforce simp: rbind_Inr_iff)

lemma print_tables: "tables.stays s (print I f va s)"
  unfolding print_def by (rule printf_tables)

lemma print_e20_tables: "tables.stays s (print_e20 I n ii s)"
proof (induction I n ii s rule: print_e20.induct)
  case (1 I n ii s)
  then show ?case
    by (subst print_e20.simps) (auto simp: Let_def intro: print_tables)
qed

lemmas keeps_after = keeps_refl keeps_steps [THEN [2] keeps_trans] keeps_occur [THEN [2] keeps_trans]
  keeps_load_idt [THEN [2] keeps_trans]

lemma keeps_stays: "keeps s t \<Longrightarrow> tables.stays t r \<Longrightarrow> tables.stays s r"
  by (blast intro: tables.stays_step keeps_tables)

lemma perf_round_tables: "tables.stays s (perf_round I s)"
  unfolding perf_round_def Let_def case_prod_beta
  by (intro tables.stays_rbind keeps_stays [OF _ print_tables] keeps_after)

lemma get_perf_tables: "tables.stays s (get_perf b s)"
  unfolding get_perf_def Let_def case_prod_beta cpuid_def prod.sel
  by (intro keeps_stays [OF _ printf_tables [unfolded case_prod_beta]] keeps_after)

section \<open>The processors entered\<close>

definition entered :: "u8 list \<Rightarrow> u8 list \<Rightarrow> bool" where
  "entered ns ns' \<longleftrightarrow> (\<exists>ids. (\<forall>i \<in> set ids. unat i < MAX_CPUS) \<and> ns' = register_all ids ns)"

lemma entered_refl [simp]: "entered ns ns"
  unfolding entered_def by (metis register_all_Nil empty_iff list.set(1))

lemma entered_trans:
  assumes "entered ns ns'" "entered ns' ns''"
  shows "entered ns ns''"
proof -
  obtain as bs where "\<forall>i \<in> set (as @ bs). unat i < MAX_CPUS" "ns'' = register_all (as @ bs) ns"
    using assms by (auto simp: entered_def register_all_append)
  then show ?thesis
    unfolding entered_def by blast
qed

lemma rsdt_loop_entered: "rsdt_loop L m p n ns = Some (Inr ns') \<Longrightarrow> entered ns ns'"
proof (induction n arbitrary: p ns)
  case (Suc n)
  let ?p = "ucast (load_le m p :: u32) :: u64"
  show ?case
  proof (cases "memcmp m ?p (apic_sig L) 4 = 0")
    case True
    then obtain ns1 where 1: "madt_loop m (?p + ucast (sdt_length (load_acpisdt m ?p))) (acpisdt_payload ?p) ns = Some (Inr ns1)"
      "rsdt_loop L m (p + 4) n ns1 = Some (Inr ns')"
      using Suc.prems by (auto simp: Let_def split: option.splits sum.splits)
    have "entered ns ns1"
      using madt_loop_returns [OF 1(1)] by (auto simp: entered_def)
    then show ?thesis
      using Suc.IH [OF 1(2)] by (rule entered_trans)
  next
    case False
    then show ?thesis
      using Suc by (simp add: Let_def)
  qed
qed simp

lemma iterate_check_entered: "iterate_check L m rs ns = Some (Inr (b, ns')) \<Longrightarrow> entered ns ns'"
proof (induction L m rs ns arbitrary: b rule: iterate_check.induct)
  case (2 L m low high t ns)
  show ?case
  proof (cases "check_rsdt L m low high")
    case None
    then show ?thesis
      using 2 by (auto split: if_splits option.splits sum.splits)
  next
    case (Some a)
    then show ?thesis
      using 2(2) rsdt_loop_entered by (auto simp: Let_def split: option.splits sum.splits)
  qed
qed simp

lemma init_tables: "tables.stays s (Apic.init L s)"
  unfolding tables.stays_def
proof (intro allI impI)
  fix t assume "Apic.init L s = Inr t"
  then obtain b ns where "iterate_check L (mem s) (apic_ranges (mem s)) (cpu_nodes s) = Some (Inr (b, ns))" "t = s\<lparr>cpu_nodes := ns\<rparr>"
    by (auto simp: Apic.init_def split: option.splits sum.splits)
  then show "tables s t"
    using iterate_check_entered by (force simp: tables_def entered_def)
qed

section \<open>The whole boot\<close>

lemma boot_tables: "tables.stays s (boot_bsp I s)" "tables.stays s (boot_ap I s)"
proof -
  have "tables.stays s (if b then print I f va s else Inr s)" for b f va and s :: "'a kernel_scheme"
    by (auto intro: print_tables)
  note step = keeps_stays [OF _ this] keeps_stays [OF _ init_tables] keeps_stays [OF _ get_perf_tables]
    keeps_stays [OF _ perf_round_tables]
  show "tables.stays s (boot_bsp I s)"
    unfolding boot_bsp_def Let_def case_prod_beta
    by (intro tables.stays_rbind print_e20_tables print_tables step keeps_after)
  show "tables.stays s (boot_ap I s)"
    unfolding boot_ap_def get_apic_id_def apic_read_def Let_def prod.case
    by (intro keeps_stays [OF _ print_tables] keeps_after)
qed

text \<open>The shape: four ports, and a table in which an entry is free or its own index.\<close>

definition kernel_wf :: "'a kernel_scheme \<Rightarrow> bool" where
  "kernel_wf s \<longleftrightarrow> length (device s) = 4 \<and> length (cpu_nodes s) = MAX_CPUS \<and>
     (\<forall>k < MAX_CPUS. cpu_nodes s ! k = 0 \<or> unat (cpu_nodes s ! k) = k)"

lemma entered_wf:
  assumes "entered ns ns'" "length ns = MAX_CPUS" "\<forall>k < MAX_CPUS. ns ! k = 0 \<or> unat (ns ! k) = k"
  shows "length ns' = MAX_CPUS \<and> (\<forall>k < MAX_CPUS. ns' ! k = 0 \<or> unat (ns' ! k) = k)"
proof -
  obtain ids where ns': "ns' = register_all ids ns"
    using assms(1) by (auto simp: entered_def)
  have "ns' ! k = 0 \<or> unat (ns' ! k) = k" if "k < MAX_CPUS" for k
  proof -
    have k: "unat (of_nat k :: u8) = k"
      using that by (simp add: MAX_CPUS_def unat_of_nat)
    then show ?thesis
      using register_all_nth [of "of_nat k" ns ids] that assms(2,3) by (auto simp: ns')
  qed
  then show ?thesis
    using assms(2) by (simp add: ns')
qed

lemma start_kernel_tables:
  assumes "start_kernel I s = Inr t"
  shows "tables (early I s) t"
proof -
  let ?b = "fst (is_bsp (early I s))" and ?s = "snd (is_bsp (early I s))"
  have "tables.stays (early I s) (if ?b then boot_bsp I ?s else boot_ap I ?s)"
    unfolding is_bsp_simps by (auto intro: keeps_stays [OF keeps_occur boot_tables(1)] keeps_stays [OF keeps_occur boot_tables(2)])
  moreover obtain u where u: "(if ?b then boot_bsp I ?s else boot_ap I ?s) = Inr u"
    "t = halt (disable_interrupt (u\<lparr>mem := (mem u)(0x7e00 := 0x1)\<rparr>))"
    using assms by (auto simp: start_kernel_early rbind_Inr_iff)
  ultimately have "tables (early I s) u"
    by (blast dest: tables.staysD)
  moreover have "tables u t"
    by (rule keeps_tables) (simp add: u(2) halt_def disable_interrupt_def keeps_def can_print_def ready_def occur_def)
  ultimately show ?thesis
    by (rule tables.trans)
qed

lemma start_kernel_wf:
  assumes "start_kernel I s = Inr t" "\<forall>f \<in> set (init_array I). constructor_ok f" "kernel_wf s"
  shows "kernel_wf t" "CORE_ID t = CORE_ID s + 1" "hw t = hw s"
proof -
  note init = static_init_ok [OF assms(2), of s]
  have nodes: "cpu_nodes (early I s) = cpu_nodes s" "CORE_ID (early I s) = CORE_ID s + 1"
    using more_nodes [OF init(5)] by (simp_all add: early_nodes)
  have dev: "length (device (early I s)) = 4"
    using assms(3) early_simps(4) [of I s] init(3) by (simp add: kernel_wf_def)
  note tab = start_kernel_tables [OF assms(1), unfolded tables_def]
  show "CORE_ID t = CORE_ID s + 1" "hw t = hw s"
    using tab by (simp_all add: nodes early_simps(2) init(2))
  have "entered (cpu_nodes s) (cpu_nodes t)"
    using tab by (simp add: entered_def nodes)
  from entered_wf [OF this] show "kernel_wf t"
    using tab assms(3) dev by (auto simp: kernel_wf_def)
qed

end
