(* ===== verification/Boot_Sector.thy ===== *)
theory Boot_Sector
  imports Paging Apic
begin

text \<open>
  What \<open>firststage/bootloader.s\<close> does on each processor before it enters \<open>start_kernel\<close>: the
  firmware's memory map is stored at \<open>0x14000\<close>, the page tables are built, interrupts are
  masked and long mode is set up. The firmware's answers to the \<open>e820\<close> calls are a parameter.
  The effects on memory and the privileged accesses are kept; segment registers, descriptor
  tables of the segments and control registers are not part of the machine.
\<close>

section \<open>The code\<close>

definition FIRST_PDPT_BASE :: u64 where "FIRST_PDPT_BASE = 0x33000"
definition FIRST_PD_BASE :: u64 where "FIRST_PD_BASE = 0x34000"

text \<open>
  \<open>get_physical\<close>: the \<open>k\<close>-th call lets the firmware write its entry at \<open>0x14000 + 24 * k\<close>; the
  number of calls is stored at \<open>0x14200\<close>.
\<close>

definition store_entry :: "nat \<times> e20_entry \<Rightarrow> memory \<Rightarrow> memory" where
  "store_entry ke m = (case ke of (k, e) \<Rightarrow> store_bytes (0x14000 + 24 * of_nat k) (e20_entry_bytes e) m)"

definition get_physical :: "e20_entry list \<Rightarrow> memory \<Rightarrow> memory" where
  "get_physical es m = store_le 0x14200 (of_nat (length es) :: u32) (fold store_entry (enumerate 0 es) m)"

text \<open>\<open>rep stosd\<close> with zero, and the loop that fills the page directory.\<close>

definition do_memset_zero :: "u64 \<Rightarrow> nat \<Rightarrow> memory \<Rightarrow> memory" where
  "do_memset_zero edi ecx m = fold (\<lambda>i. store_le (edi + 4 * of_nat i) (0 :: u32)) [0..<ecx] m"

definition pd_entry :: "nat \<Rightarrow> u32" where
  "pd_entry i = 0x83 OR of_nat i * 0x200000"

definition fill_pd :: "memory \<Rightarrow> memory" where
  "fill_pd m = fold (\<lambda>i. store_le (FIRST_PD_BASE + 8 * of_nat i) (pd_entry i)) [0..<512] m"

definition early_page :: "memory \<Rightarrow> memory" where
  "early_page m =
     (let m = do_memset_zero FIRST_PML4_BASE 4096 m;
          m = store_le FIRST_PML4_BASE (0x3 OR 0x33000 :: u32) m;
          m = store_le FIRST_PDPT_BASE (0x3 OR 0x34000 :: u32) m
      in fill_pd m)"

text \<open>From the stack to the jump into the kernel.\<close>

definition enter_kernel :: "e20_entry list \<Rightarrow> 'a machine_scheme \<Rightarrow> 'a machine_scheme" where
  "enter_kernel es s =
     (let s = s\<lparr>mem := get_physical es (mem s)\<rparr>;
          s = s\<lparr>mem := early_page (mem s)\<rparr>;
          s = occur (MmioRead 0xfee00020) s;
          s = outb 0xA1 0xFF s;
          s = outb 0x21 0xFF s;
          s = occur (Lidt 0 0) s
      in wrmsr 0xc0000080 0x900 s)"

section \<open>The memory map\<close>

lemma e20_entry_bytes_length [simp]: "length (e20_entry_bytes e) = 24"
  using e20_entry_layout.length_bytes [of e] by (simp add: e20_entry_ok_def sizeof_e20_entry_def)

lemma store_entry_frame:
  "\<not> unat (x - (0x14000 + 24 * of_nat k)) < 24 \<Longrightarrow> store_entry (k, e) m x = m x"
  by (simp add: store_entry_def store_bytes_frame)

lemma entry_slot:
  assumes "k < 22" "j < 24"
  shows "unat (0x14000 + 24 * of_nat k + of_nat j - 0x14000 :: u64) = 24 * k + j"
proof -
  have "0x14000 + 24 * of_nat k + of_nat j - 0x14000 = (of_nat (24 * k + j) :: u64)"
    by simp
  then show ?thesis
    using assms by (simp only:) (intro unat_of_nat_64, simp)
qed

text \<open>A byte is in slot \<open>k\<close> or it is not written by the \<open>k\<close>-th call.\<close>

lemma outside_slot:
  fixes x :: u64
  assumes "k < 22" "unat (x - 0x14000) < 24 * k \<or> 24 * k + 24 \<le> unat (x - 0x14000)"
  shows "\<not> unat (x - (0x14000 + 24 * of_nat k)) < 24"
proof
  assume less: "unat (x - (0x14000 + 24 * of_nat k)) < 24"
  define j where "j = unat (x - (0x14000 + 24 * of_nat k))"
  have x: "x = 0x14000 + 24 * of_nat k + of_nat j"
    by (simp add: j_def)
  have slot: "unat (0x14000 + 24 * of_nat k + of_nat j - 0x14000 :: u64) = 24 * k + j"
    using less by (intro entry_slot [OF assms(1)]) (simp add: j_def)
  have "unat (x - 0x14000) = 24 * k + j"
    by (subst x) (rule slot)
  then show False
    using assms(2) less by (simp add: j_def)
qed

lemma entries_frame:
  assumes "k + length es \<le> 22" "unat (x - 0x14000) < 24 * k \<or> 24 * (k + length es) \<le> unat (x - 0x14000)"
  shows "fold store_entry (enumerate k es) m x = m x"
  using assms
proof (induction es arbitrary: k m)
  case (Cons e es)
  have "fold store_entry (enumerate (Suc k) es) (store_entry (k, e) m) x = store_entry (k, e) m x"
    using Cons.prems by (intro Cons.IH) auto
  also have "\<dots> = m x"
    using Cons.prems by (intro store_entry_frame outside_slot) auto
  finally show ?case
    by simp
qed simp

lemma entries_load:
  assumes "i < length es" "k + length es \<le> 22"
  shows "load_e20_entry (fold store_entry (enumerate k es) m) (0x14000 + 24 * of_nat (k + i)) = es ! i"
  using assms
proof (induction es arbitrary: i k m)
  case (Cons e es)
  show ?case
  proof (cases i)
    case (Suc j)
    then show ?thesis
      using Cons.IH [of j "Suc k" "store_entry (k, e) m"] Cons.prems by simp
  next
    case 0
    let ?a = "0x14000 + 24 * of_nat k :: u64"
    have "load_e20_entry (fold store_entry (enumerate (Suc k) es) (store_entry (k, e) m)) ?a =
        load_e20_entry (store_entry (k, e) m) ?a"
    proof (rule e20_entry_layout.load_cong, rule entries_frame)
      fix j assume "j < sizeof_e20_entry"
      then show "unat (?a + of_nat j - 0x14000) < 24 * Suc k \<or> 24 * (Suc k + length es) \<le> unat (?a + of_nat j - 0x14000)"
        using entry_slot [of k j] Cons.prems by (simp add: sizeof_e20_entry_def)
    qed (use Cons.prems in simp)
    also have "\<dots> = e"
      by (simp add: store_entry_def e20_entry_layout.load_store e20_entry_ok_def)
    finally show ?thesis
      using 0 by simp
  qed
qed simp

text \<open>With at most 21 entries the count does not overwrite one, and the kernel finds both.\<close>

lemma get_physical_entry:
  assumes "i < length es" "length es \<le> 21"
  shows "load_e20_entry (get_physical es m) (0x14000 + 24 * of_nat i) = es ! i"
proof -
  have "load_e20_entry (get_physical es m) (0x14000 + 24 * of_nat i) =
      load_e20_entry (fold store_entry (enumerate 0 es) m) (0x14000 + 24 * of_nat i)"
  proof (rule e20_entry_layout.load_cong)
    fix j assume "j < sizeof_e20_entry"
    then have j: "j < 24"
      by (simp add: sizeof_e20_entry_def)
    define x :: u64 where "x = 0x14000 + 24 * of_nat i + of_nat j"
    have x: "unat (x - 0x14000) = 24 * i + j"
      using entry_slot [of i j] j assms by (simp add: x_def)
    have "\<not> unat (x - 0x14200) < 4"
    proof
      assume less: "unat (x - 0x14200) < 4"
      have "unat (x - 0x14200 + 0x200) = unat (x - 0x14200) + 0x200"
        using less by (subst unat_word_ariths) simp
      then show False
        using x less j assms by simp
    qed
    then show "get_physical es m (0x14000 + 24 * of_nat i + of_nat j) =
        fold store_entry (enumerate 0 es) m (0x14000 + 24 * of_nat i + of_nat j)"
      by (simp add: get_physical_def cell32.st_frame x_def)
  qed
  then show ?thesis
    using entries_load [of i es 0 m] assms by simp
qed

lemma get_physical_count:
  assumes "length es < 256"
  shows "get_physical es m 0x14200 = of_nat (length es)"
proof -
  have "word_bytes (of_nat (length es) :: u32) ! 0 = (of_nat (length es) :: u8)"
    using assms by (simp add: word_bytes_def upt_rec unsigned_of_nat take_bit_nat_eq_self)
  then show ?thesis
    by (simp add: get_physical_def store_le_def store_bytes_def)
qed

lemma get_physical_frame:
  assumes "\<not> unat (x - 0x14000) < 0x204" "length es \<le> 21"
  shows "get_physical es m x = m x"
proof -
  have "\<not> unat (x - 0x14200) < 4"
  proof
    assume less: "unat (x - 0x14200) < 4"
    have "unat (x - 0x14200 + 0x200) = unat (x - 0x14200) + 0x200"
      using less by (subst unat_word_ariths) simp
    then show False
      using less assms(1) by simp
  qed
  moreover have "fold store_entry (enumerate 0 es) m x = m x"
    using assms by (intro entries_frame) auto
  ultimately show ?thesis
    by (simp add: get_physical_def cell32.st_frame)
qed

section \<open>The page tables\<close>

lemma do_memset_zero_byte:
  assumes "4 * n < 2 ^ 63"
  shows "do_memset_zero a n m x = (if unat (x - a) < 4 * n then 0 else m x)"
  using assms
proof (induction n)
  case (Suc n)
  have n: "unat (4 * of_nat n :: u64) = 4 * n"
    using unat_of_nat_64 [of "4 * n"] Suc.prems by simp
  have zero: "word_bytes (0 :: u32) = replicate 4 0"
    by (rule nth_equalityI) (simp_all add: word_bytes_def)
  have "unat (x - (a + 4 * of_nat n)) < 4 \<longleftrightarrow> 4 * n \<le> unat (x - a) \<and> unat (x - a) < 4 * Suc n"
  proof (cases "4 * n \<le> unat (x - a)")
    case True
    then have "4 * of_nat n \<le> x - a"
      using n by (simp add: word_le_nat_alt)
    then have "unat (x - a - 4 * of_nat n) = unat (x - a) - 4 * n"
      using n by (simp add: unat_sub)
    then show ?thesis
      using True by (simp add: diff_diff_eq) linarith
  next
    case False
    then have "unat (x - a - 4 * of_nat n) = unat (x - a) + 2 ^ 64 - 4 * n"
      using n by (simp add: unat_sub_if')
    then show ?thesis
      using False Suc.prems by (simp add: diff_diff_eq)
  qed
  then show ?case
    using Suc by (simp add: do_memset_zero_def store_le_def store_bytes_def zero)
qed (simp add: do_memset_zero_def)

text \<open>A doubleword stored in front of four zero bytes is a quadword.\<close>

lemma store_dword_zero:
  assumes "\<And>j. 4 \<le> j \<Longrightarrow> j < 8 \<Longrightarrow> m (a + of_nat j) = 0"
  shows "store_le a (w :: u32) m = store_le a (ucast w :: u64) m"
proof
  fix x
  have q: "word_bytes (ucast w :: u64) = word_bytes w @ replicate 4 0"
  proof (rule nth_equalityI)
    fix i assume "i < length (word_bytes (ucast w :: u64))"
    then have i: "i < 8"
      by simp
    show "word_bytes (ucast w :: u64) ! i = (word_bytes w @ replicate 4 0) ! i"
      using i by (intro bit_word_eqI) (auto simp: word_bytes_def nth_append bit_simps dest: bit_imp_le_length)
  qed simp
  show "store_le a w m x = store_le a (ucast w :: u64) m x"
  proof (cases "4 \<le> unat (x - a) \<and> unat (x - a) < 8")
    case True
    then have "m x = 0"
      using assms [of "unat (x - a)"] by simp
    moreover have "unat (x - a) - 4 < 4"
      using True by linarith
    ultimately show ?thesis
      using True by (simp add: store_le_def store_bytes_def q nth_append)
  next
    case False
    then show ?thesis
      by (auto simp: store_le_def store_bytes_def q nth_append)
  qed
qed


lemma pd_slot:
  assumes "k < 512" "j < 8"
  shows "unat (FIRST_PD_BASE + 8 * of_nat k + of_nat j - FIRST_PD_BASE) = 8 * k + j"
proof -
  have "FIRST_PD_BASE + 8 * of_nat k + of_nat j - FIRST_PD_BASE = (of_nat (8 * k + j) :: u64)"
    by simp
  then show ?thesis
    using assms by (simp only:) (intro unat_of_nat_64, simp)
qed

lemma outside_pd_slot:
  assumes "k < 512" "8 * k + 8 \<le> unat (x - FIRST_PD_BASE) \<or> unat (x - FIRST_PD_BASE) < 8 * k"
  shows "\<not> unat (x - (FIRST_PD_BASE + 8 * of_nat k)) < 8"
proof
  assume less: "unat (x - (FIRST_PD_BASE + 8 * of_nat k)) < 8"
  define j where "j = unat (x - (FIRST_PD_BASE + 8 * of_nat k))"
  have x: "x = FIRST_PD_BASE + 8 * of_nat k + of_nat j"
    by (simp add: j_def)
  have slot: "unat (FIRST_PD_BASE + 8 * of_nat k + of_nat j - FIRST_PD_BASE) = 8 * k + j"
    using less by (intro pd_slot [OF assms(1)]) (simp add: j_def)
  have "unat (x - FIRST_PD_BASE) = 8 * k + j"
    by (subst x) (rule slot)
  then show False
    using assms(2) less by (simp add: j_def)
qed

definition fill_pd_part :: "nat \<Rightarrow> memory \<Rightarrow> memory" where
  "fill_pd_part n m = fold (\<lambda>i. store_le (FIRST_PD_BASE + 8 * of_nat i) (pd_entry i)) [0..<n] m"

lemma fill_pd_part_Suc:
  "fill_pd_part (Suc n) m = store_le (FIRST_PD_BASE + 8 * of_nat n) (pd_entry n) (fill_pd_part n m)"
  by (simp add: fill_pd_part_def)

lemma fill_pd_part_frame:
  assumes "n \<le> 512" "8 * n \<le> unat (x - FIRST_PD_BASE)"
  shows "fill_pd_part n m x = m x"
  using assms
proof (induction n)
  case (Suc n)
  then have "\<not> unat (x - (FIRST_PD_BASE + 8 * of_nat n)) < 8"
    by (intro outside_pd_slot) auto
  then show ?case
    using Suc by (simp add: fill_pd_part_Suc cell32.st_frame)
qed (simp add: fill_pd_part_def)

lemma fill_pd_part_load:
  assumes "n \<le> 512" "k < n" "\<And>x. unat (x - FIRST_PD_BASE) < 0x1000 \<Longrightarrow> m x = 0"
  shows "load_le (fill_pd_part n m) (FIRST_PD_BASE + 8 * of_nat k) = (ucast (pd_entry k) :: u64)"
  using assms(1,2)
proof (induction n)
  case (Suc n)
  let ?c = "\<lambda>i :: nat. FIRST_PD_BASE + 8 * of_nat i"
  have "fill_pd_part n m (?c n + of_nat j) = 0" if "4 \<le> j" "j < 8" for j
  proof -
    have "unat (?c n + of_nat j - FIRST_PD_BASE) = 8 * n + j"
      using Suc.prems(1) that by (intro pd_slot) simp_all
    then show ?thesis
      using Suc.prems(1) that by (subst fill_pd_part_frame) (auto intro!: assms(3))
  qed
  then have s: "fill_pd_part (Suc n) m = store_le (?c n) (ucast (pd_entry n) :: u64) (fill_pd_part n m)"
    by (simp add: fill_pd_part_Suc store_dword_zero)
  show ?case
  proof (cases "k = n")
    case True
    then show ?thesis
      by (simp add: s cell64.ld_st)
  next
    case False
    then have "k < n"
      using Suc.prems by simp
    have "\<not> unat (?c k + of_nat i - ?c n) < 8" if "i < 8" for i
    proof (rule outside_pd_slot)
      have "unat (?c k + of_nat i - FIRST_PD_BASE) = 8 * k + i"
        using Suc.prems that \<open>k < n\<close> by (intro pd_slot) simp_all
      then show "8 * n + 8 \<le> unat (?c k + of_nat i - FIRST_PD_BASE) \<or> unat (?c k + of_nat i - FIRST_PD_BASE) < 8 * n"
        using that \<open>k < n\<close> by simp
    qed (use Suc.prems in simp)
    then have "load_le (fill_pd_part (Suc n) m) (?c k) = (load_le (fill_pd_part n m) (?c k) :: u64)"
      by (simp add: s cell64.ld_st_other)
    then show ?thesis
      using Suc \<open>k < n\<close> by simp
  qed
qed simp

text \<open>The whole of \<open>early_page\<close>: which bytes it writes, and the entries a walk reads.\<close>

lemma early_page_frame:
  assumes "\<not> unat (x - FIRST_PML4_BASE) < 0x4000"
  shows "early_page m x = m x"
proof -
  have pd: "0x1000 \<le> unat (x - FIRST_PD_BASE)"
    using region_offset [of x FIRST_PML4_BASE "0x2000" "0x1000"] assms
    by (force simp: FIRST_PML4_BASE_def FIRST_PD_BASE_def)
  have "\<not> unat (x - FIRST_PML4_BASE) < 4" "\<not> unat (x - FIRST_PDPT_BASE) < 4"
    using region_offset [of x FIRST_PML4_BASE "0x1000" 4] assms
    by (force simp: FIRST_PML4_BASE_def FIRST_PDPT_BASE_def)+
  then show ?thesis
    using fill_pd_part_frame [of 512 x] pd assms
    by (simp add: early_page_def fill_pd_def fill_pd_part_def [symmetric] cell32.st_frame do_memset_zero_byte Let_def)
qed

lemma table_entry_offset:
  fixes t i :: u64
  assumes "t - FIRST_PML4_BASE = of_nat d" "d + 0x1000 \<le> 0x4000" "j < 8"
  shows "unat (t + 8 * (i AND 0x1ff) + of_nat j - FIRST_PML4_BASE) = d + 8 * unat (i AND 0x1ff) + j"
    and "8 * unat (i AND 0x1ff) + 8 \<le> 0x1000"
proof -
  have i: "int (unat (i AND 0x1ff)) < 512"
    using index_bound [of i] by simp
  then show "8 * unat (i AND 0x1ff) + 8 \<le> 0x1000"
    by linarith
  have "t + 8 * (i AND 0x1ff) + of_nat j - FIRST_PML4_BASE = (t - FIRST_PML4_BASE) + 8 * (i AND 0x1ff) + of_nat j"
    by simp
  also have "\<dots> = of_nat (d + 8 * unat (i AND 0x1ff) + j)"
    by (simp only: assms(1)) simp
  finally have sum: "t + 8 * (i AND 0x1ff) + of_nat j - FIRST_PML4_BASE = of_nat (d + 8 * unat (i AND 0x1ff) + j)" .
  have "d + 8 * unat (i AND 0x1ff) + j < 0x5000"
    using i assms by linarith
  then show "unat (t + 8 * (i AND 0x1ff) + of_nat j - FIRST_PML4_BASE) = d + 8 * unat (i AND 0x1ff) + j"
    by (simp only: sum) (intro unat_of_nat_64, simp)
qed

lemma load_zeroes:
  assumes "\<And>j. j < 8 \<Longrightarrow> m (a + of_nat j) = 0"
  shows "load_le m a = (0 :: u64)"
proof -
  have "load_le m a = (load_le (\<lambda>_. 0) a :: u64)"
    using assms by (intro cell64.ld_cong) simp
  then show ?thesis
    by simp
qed

text \<open>The three tables before the directory is filled.\<close>

definition two_tables :: "memory \<Rightarrow> memory" where
  "two_tables m = store_le FIRST_PDPT_BASE (0x34003 :: u64)
     (store_le FIRST_PML4_BASE (0x33003 :: u64) (do_memset_zero FIRST_PML4_BASE 4096 m))"

lemma zeroed_byte: "unat (x - FIRST_PML4_BASE) < 0x4000 \<Longrightarrow> do_memset_zero FIRST_PML4_BASE 4096 m x = 0"
  by (simp add: do_memset_zero_byte)

lemma early_page_tables: "early_page m = fill_pd_part 512 (two_tables m)"
proof -
  let ?z = "do_memset_zero FIRST_PML4_BASE 4096 m"
  let ?p = "store_le FIRST_PML4_BASE (0x33003 :: u64) ?z"
  have z: "?z (FIRST_PML4_BASE + of_nat j) = 0" if "j < 8" for j
    using that by (intro zeroed_byte) (simp add: unat_of_nat_64)
  have "?p (FIRST_PDPT_BASE + of_nat j) = 0" if "j < 8" for j
  proof -
    have "unat (FIRST_PDPT_BASE + of_nat j - FIRST_PML4_BASE) = 0x1000 + j"
      using table_entry_offset(1) [of FIRST_PDPT_BASE "0x1000" j 0] that
      by (simp add: FIRST_PDPT_BASE_def FIRST_PML4_BASE_def)
    then show ?thesis
      using that by (simp add: cell64.st_frame zeroed_byte)
  qed
  then have "store_le FIRST_PDPT_BASE (0x34003 :: u32) ?p = two_tables m"
    by (subst store_dword_zero) (simp_all add: two_tables_def)
  moreover have "store_le FIRST_PML4_BASE (0x33003 :: u32) ?z = ?p"
    using z by (subst store_dword_zero) simp_all
  ultimately show ?thesis
    by (simp add: early_page_def fill_pd_def fill_pd_part_def Let_def)
qed

lemma load_first_tables:
  assumes "\<And>j. j < 8 \<Longrightarrow> unat (a + of_nat j - FIRST_PML4_BASE) < 0x2000"
  shows "load_le (early_page m) a = (load_le (two_tables m) a :: u64)"
proof (rule cell64.ld_cong)
  fix j :: nat assume j: "j < 8"
  have "0x1000 \<le> unat (a + of_nat j - FIRST_PD_BASE)"
    using region_offset [of "a + of_nat j" FIRST_PML4_BASE "0x2000" "0x1000"] assms [OF j]
    by (force simp: FIRST_PML4_BASE_def FIRST_PD_BASE_def)
  then show "early_page m (a + of_nat j) = two_tables m (a + of_nat j)"
    by (simp add: early_page_tables fill_pd_part_frame)
qed

lemma load_two_tables:
  assumes "8 dvd uint a" "\<And>j. j < 8 \<Longrightarrow> unat (a + of_nat j - FIRST_PML4_BASE) < 0x4000"
  shows "load_le (two_tables m) a =
    (if a = FIRST_PDPT_BASE then 0x34003 else if a = FIRST_PML4_BASE then 0x33003 else 0 :: u64)"
proof -
  have "8 dvd uint FIRST_PDPT_BASE" "8 dvd uint FIRST_PML4_BASE"
    by (simp_all add: FIRST_PDPT_BASE_def FIRST_PML4_BASE_def)
  moreover have "load_le (do_memset_zero FIRST_PML4_BASE 4096 m) a = (0 :: u64)"
    using assms(2) by (intro load_zeroes zeroed_byte)
  ultimately show ?thesis
    using assms(1) by (auto simp: two_tables_def load_store_aligned)
qed

lemma early_entries:
  "load_le (early_page m) (FIRST_PML4_BASE + 8 * (i AND 0x1ff)) = (if i AND 0x1ff = 0 then 0x33003 else 0 :: u64)"
  "load_le (early_page m) (FIRST_PDPT_BASE + 8 * (i AND 0x1ff)) = (if i AND 0x1ff = 0 then 0x34003 else 0 :: u64)"
  "load_le (early_page m) (FIRST_PD_BASE + 8 * (i AND 0x1ff)) = (ucast (pd_entry (unat (i AND 0x1ff))) :: u64)"
proof -
  have base: "FIRST_PML4_BASE - FIRST_PML4_BASE = of_nat 0" "FIRST_PDPT_BASE - FIRST_PML4_BASE = of_nat 0x1000"
    by (simp_all add: FIRST_PML4_BASE_def FIRST_PDPT_BASE_def)
  have aligned: "8 dvd uint (FIRST_PML4_BASE + 8 * (i AND 0x1ff))" "8 dvd uint (FIRST_PDPT_BASE + 8 * (i AND 0x1ff))"
    by (rule cell_aligned; simp add: FIRST_PML4_BASE_def FIRST_PDPT_BASE_def)+
  have apart: "FIRST_PML4_BASE + 8 * (i AND 0x1ff) \<noteq> FIRST_PDPT_BASE" "FIRST_PDPT_BASE + 8 * (i AND 0x1ff) \<noteq> FIRST_PML4_BASE"
    using cells_apart [of FIRST_PML4_BASE FIRST_PDPT_BASE i 0] cells_apart [of FIRST_PML4_BASE FIRST_PDPT_BASE 0 i]
    by (auto simp: FIRST_PML4_BASE_def FIRST_PDPT_BASE_def)
  have zero: "t + 8 * (i AND 0x1ff) = t \<longleftrightarrow> i AND 0x1ff = 0" for t :: u64
  proof
    assume "t + 8 * (i AND 0x1ff) = t"
    then show "i AND 0x1ff = 0"
      using uint_cell [of 0 i] uint_0_iff [of "i AND 0x1ff"] by simp
  qed simp
  have off: "unat (FIRST_PML4_BASE + 8 * (i AND 0x1ff) + of_nat j - FIRST_PML4_BASE) < 0x2000"
    "unat (FIRST_PDPT_BASE + 8 * (i AND 0x1ff) + of_nat j - FIRST_PML4_BASE) < 0x2000" if "j < 8" for j
    using table_entry_offset [OF base(1), of j i] table_entry_offset [OF base(2), of j i] that by simp_all
  have off4: "unat (FIRST_PML4_BASE + 8 * (i AND 0x1ff) + of_nat j - FIRST_PML4_BASE) < 0x4000"
    "unat (FIRST_PDPT_BASE + 8 * (i AND 0x1ff) + of_nat j - FIRST_PML4_BASE) < 0x4000" if "j < 8" for j
    using off [OF that] by simp_all
  show "load_le (early_page m) (FIRST_PML4_BASE + 8 * (i AND 0x1ff)) = (if i AND 0x1ff = 0 then 0x33003 else 0 :: u64)"
    using load_first_tables [OF off(1)] load_two_tables [OF aligned(1) off4(1)] apart zero by simp
  show "load_le (early_page m) (FIRST_PDPT_BASE + 8 * (i AND 0x1ff)) = (if i AND 0x1ff = 0 then 0x34003 else 0 :: u64)"
    using load_first_tables [OF off(2)] load_two_tables [OF aligned(2) off4(2)] apart zero by simp
  have "two_tables m x = 0" if "unat (x - FIRST_PD_BASE) < 0x1000" for x
  proof -
    have "unat (x - FIRST_PML4_BASE) = 0x2000 + unat (x - FIRST_PD_BASE)"
      using region_offset [of x FIRST_PML4_BASE "0x2000" "0x1000"] that
      by (simp add: FIRST_PML4_BASE_def FIRST_PD_BASE_def)
    moreover have "unat (x - FIRST_PDPT_BASE) < 8 \<Longrightarrow> unat (x - FIRST_PML4_BASE) < 0x1008"
      using region_offset [of x FIRST_PML4_BASE "0x1000" 8]
      by (simp add: FIRST_PML4_BASE_def FIRST_PDPT_BASE_def)
    ultimately show ?thesis
      using that by (force simp: two_tables_def cell64.st_frame zeroed_byte)
  qed
  moreover have "int (unat (i AND 0x1ff)) < int 512"
    using index_bound [of i] by simp
  then have "unat (i AND 0x1ff) < 512"
    by (simp only: of_nat_less_iff)
  ultimately show "load_le (early_page m) (FIRST_PD_BASE + 8 * (i AND 0x1ff)) = (ucast (pd_entry (unat (i AND 0x1ff))) :: u64)"
    using fill_pd_part_load [of 512 "unat (i AND 0x1ff)" "two_tables m"] by (simp add: early_page_tables)
qed

section \<open>What the processor sees\<close>

text \<open>The entry of the page directory, as the page walk reads it.\<close>

definition leaf :: "u64 \<Rightarrow> u64" where
  "leaf v = 0x83 OR push_bit 21 (take_bit 9 (drop_bit 21 v))"

lemma pd_entry_leaf: "ucast (pd_entry (unat (drop_bit 21 v AND 0x1ff :: u64))) = leaf v"
proof -
  define i :: u64 where "i = take_bit 9 (drop_bit 21 v)"
  have i: "i = take_bit 9 i"
    by (simp add: i_def)
  have "of_nat (unat i) * 0x200000 = push_bit 21 (ucast i :: u32)"
    by (simp add: push_bit_eq_mult unsigned_of_nat of_nat_unat)
  moreover have "ucast (push_bit 21 (ucast i :: u32)) = push_bit 21 i"
    by (subst (1 2) i) (intro bit_word_eqI, auto simp: bit_simps)
  ultimately have "ucast (pd_entry (unat i)) = (0x83 OR push_bit 21 i :: u64)"
    by (simp add: pd_entry_def unsigned_or_eq)
  then show ?thesis
    by (simp add: leaf_def i_def and_1ff)
qed

lemma leaf_bits: "bit (leaf v) 0" "bit (leaf v) 7"
  "leaf v AND 0x000FFFFFFFE00000 = push_bit 21 (take_bit 9 (drop_bit 21 v))"
proof -
  have "(0x000FFFFFFFE00000 :: u64) = push_bit 21 (mask 31)"
    by (simp add: mask_eq_exp_minus_1)
  moreover have "push_bit 21 (take_bit 9 i) AND push_bit 21 (mask 31) = push_bit 21 (take_bit 9 i)" for i :: u64
    by (intro bit_word_eqI) (auto simp: bit_simps)
  ultimately show "leaf v AND 0x000FFFFFFFE00000 = push_bit 21 (take_bit 9 (drop_bit 21 v))"
    by (simp only: leaf_def bit.conj_disj_distrib2) simp
qed (simp_all add: leaf_def bit_simps)

lemma below_1gb_take: "take_bit 48 v < (0x40000000 :: u64) \<longleftrightarrow> take_bit 30 v = take_bit 48 v"
proof -
  have "take_bit 48 v < (0x40000000 :: u64) \<longleftrightarrow> unat (take_bit 48 v) < 2 ^ 30"
    by (simp add: word_less_nat_alt)
  also have "\<dots> \<longleftrightarrow> unat (take_bit 30 (take_bit 48 v)) = unat (take_bit 48 v)"
    by (simp only: take_bit_nat_eq_self_iff [symmetric] unsigned_take_bit_eq)
  also have "\<dots> \<longleftrightarrow> take_bit 30 v = take_bit 48 v"
    by (simp add: word_unat_eq_iff [symmetric])
  finally show ?thesis .
qed

lemma below_1gb:
  "take_bit 48 v < (0x40000000 :: u64) \<longleftrightarrow> drop_bit 39 v AND 0x1ff = 0 \<and> drop_bit 30 v AND 0x1ff = 0"
proof
  assume "take_bit 48 v < 0x40000000"
  then have "bit (take_bit 30 v) n = bit (take_bit 48 v) n" for n
    by (simp add: below_1gb_take)
  then have "\<not> bit v (30 + n)" if "n < 18" for n
    using that by (force simp: bit_simps)
  from this this [of "9 + n" for n] show "drop_bit 39 v AND 0x1ff = 0 \<and> drop_bit 30 v AND 0x1ff = 0"
    unfolding and_1ff by (intro conjI bit_word_eqI) (auto simp: bit_simps)
next
  assume "drop_bit 39 v AND 0x1ff = 0 \<and> drop_bit 30 v AND 0x1ff = 0"
  then have high: "\<not> bit (take_bit 9 (drop_bit 39 v)) n" "\<not> bit (take_bit 9 (drop_bit 30 v)) n" for n
    by (simp_all add: and_1ff)
  have "\<not> bit v n" if "30 \<le> n" "n < 48" for n
  proof (cases "n < 39")
    case True
    then show ?thesis
      using high(2) [of "n - 30"] that by (simp add: bit_simps)
  next
    case False
    then show ?thesis
      using high(1) [of "n - 39"] that by (simp add: bit_simps)
  qed
  then have "take_bit 30 v = take_bit 48 v"
    by (intro bit_word_eqI) (auto simp: bit_simps, meson not_less)
  then show "take_bit 48 v < 0x40000000"
    by (simp add: below_1gb_take)
qed

lemma offset_2mb:
  assumes "take_bit 48 v < (0x40000000 :: u64)"
  shows "push_bit 21 (take_bit 9 (drop_bit 21 v)) OR v AND 0x1FFFFF = take_bit 48 v"
proof -
  have "v AND 0x1FFFFF = take_bit 21 v"
    by (simp add: take_bit_eq_mask mask_eq_exp_minus_1)
  moreover have "push_bit 21 (take_bit 9 (drop_bit 21 v)) OR take_bit 21 v = take_bit 30 v"
    by (intro bit_word_eqI) (auto simp: bit_simps)
  ultimately show ?thesis
    using assms by (simp add: below_1gb_take)
qed

lemma early_entry_at:
  "entry_at (early_page m) FIRST_PML4_BASE i = (if i AND 0x1ff = 0 then Some 0x33003 else None)"
  "entry_at (early_page m) 0x33003 i = (if i AND 0x1ff = 0 then Some 0x34003 else None)"
  "entry_at (early_page m) 0x34003 (drop_bit 21 v) = Some (leaf v)"
proof -
  have t: "table_of FIRST_PML4_BASE = FIRST_PML4_BASE" "table_of 0x33003 = FIRST_PDPT_BASE" "table_of 0x34003 = FIRST_PD_BASE"
    by (simp_all add: table_of_def FIRST_PML4_BASE_def FIRST_PDPT_BASE_def FIRST_PD_BASE_def)
  show "entry_at (early_page m) FIRST_PML4_BASE i = (if i AND 0x1ff = 0 then Some 0x33003 else None)"
    "entry_at (early_page m) 0x33003 i = (if i AND 0x1ff = 0 then Some 0x34003 else None)"
    "entry_at (early_page m) 0x34003 (drop_bit 21 v) = Some (leaf v)"
    by (simp_all only: entry_at_def t early_entries pd_entry_leaf Let_def) (simp_all add: leaf_bits)
qed

lemma early_walk:
  "walk FIRST_PML4_BASE (early_page m) v = (if take_bit 48 v < 0x40000000 then Some (take_bit 48 v, leaf v) else None)"
proof (cases "take_bit 48 v < (0x40000000 :: u64)")
  case True
  then show ?thesis
    using offset_2mb [OF True] by (simp add: walk_def early_entry_at below_1gb leaf_bits)
next
  case False
  then show ?thesis
    by (auto simp: walk_def early_entry_at below_1gb)
qed

text \<open>The tables a walk below 1 GB reads, and what the mapping of the APIC adds.\<close>

lemma early_walk_tables:
  "set (walk_tables FIRST_PML4_BASE (early_page m) v) \<inter> {FIRST_PML4_BASE, APIC_PDPTE, APIC_PDE} = {}"
proof -
  have "set (walk_tables FIRST_PML4_BASE (early_page m) v) \<subseteq> {0x33000, 0x34000}"
    by (auto simp: walk_tables_def early_entry_at table_of_def leaf_bits)
  then show ?thesis
    by (auto simp: paging_consts)
qed

lemma apic_index: "drop_bit 39 (0x13370000000 :: u64) AND 0x1ff = 2"
  by (simp add: drop_bit_eq_div)

lemma apic_walk:
  assumes "drop_bit 39 v AND 0x1ff \<noteq> 2"
  shows "walk FIRST_PML4_BASE (map_addr 0x13370000000 p f (early_page m)) v =
    (if take_bit 48 v < 0x40000000 then Some (take_bit 48 v, leaf v) else None)"
  using assms by (subst map_addr_keeps) (simp_all add: apic_index early_walk_tables early_walk)

text \<open>\<open>map_addr\<close> writes inside the three tables only.\<close>

lemma cell_in_table:
  fixes x t i :: u64
  assumes "unat (x - (t + 8 * (i AND 0x1ff))) < 8"
  shows "unat (x - t) < 0x1000"
proof -
  have i: "int (unat (i AND 0x1ff)) < 512"
    using index_bound [of i] by simp
  then have "8 * unat (i AND 0x1ff) + 8 \<le> 0x1000"
    by linarith
  moreover have "t + 8 * (i AND 0x1ff) = t + of_nat (8 * unat (i AND 0x1ff))"
    by simp
  ultimately show ?thesis
    using region_offset [of x t "8 * unat (i AND 0x1ff)" 8] assms by simp
qed

lemma map_addr_tables_frame:
  assumes "\<not> unat (x - FIRST_PML4_BASE) < 0x1000" "\<not> unat (x - 0x22000) < 0x2000"
  shows "map_addr v p f m x = m x"
proof (rule map_addr_frame)
  show "\<not> unat (x - pml4_cell v) < 8"
    using assms(1) cell_in_table unfolding pml4_cell_def by blast
  have "\<not> unat (x - APIC_PDPTE) < 0x1000"
    using assms(2) by (simp add: APIC_PDPTE_def)
  then show "\<not> unat (x - pdpte_cell v) < 8"
    using cell_in_table unfolding pdpte_cell_def by blast
  have "\<not> unat (x - APIC_PDE) < 0x1000"
    using assms(2) region_offset [of x "0x22000" "0x1000" "0x1000"] by (force simp: APIC_PDE_def)
  then show "\<not> unat (x - pd_cell v) < 8"
    using cell_in_table unfolding pd_cell_def by blast
qed

lemma enter_kernel_simps:
  "mem (enter_kernel es s) = early_page (get_physical es (mem s))" "hw (enter_kernel es s) = hw s"
  "machine.more (enter_kernel es s) = machine.more s"
  by (simp_all add: enter_kernel_def outb_def wrmsr_eq Let_def)

text \<open>Low memory is not touched by the page tables.\<close>

lemma below_diff:
  fixes x c :: u64
  assumes "unat x < unat c" "unat c < 2 ^ 63"
  shows "2 ^ 63 \<le> unat (x - c)"
proof -
  have "unat (x - c) = unat x + 2 ^ 64 - unat c"
    using assms(1) by (simp add: unat_sub_if')
  moreover have "(2 ^ 64 :: nat) = 2 ^ 63 + 2 ^ 63"
    by simp
  ultimately show ?thesis
    using assms(2) by linarith
qed

lemma map_addr_low:
  assumes "unat x < 0x20000"
  shows "map_addr v p f m x = m x"
proof -
  have far: "\<not> unat (x - c) < 8" if "0x20000 \<le> uint c" "uint c < 2 ^ 63" for c
  proof -
    have "int 0x20000 \<le> int (unat c)" "int (unat c) < int (2 ^ 63)"
      using that by simp_all
    then have "unat x < unat c" "unat c < 2 ^ 63"
      using assms by (simp_all only: of_nat_less_iff of_nat_le_iff)
    then show ?thesis
      using below_diff [of x c] by simp
  qed
  show ?thesis
    by (rule map_addr_frame) (rule far [OF cells_high(1,4)], rule far [OF cells_high(2,5)], rule far [OF cells_high(3,6)])
qed

lemma early_page_low: "unat x < 0x20000 \<Longrightarrow> early_page m x = m x"
  using below_diff [of x FIRST_PML4_BASE] by (intro early_page_frame) (simp add: FIRST_PML4_BASE_def)

end
