(* ===== verification/Processors.thy ===== *)
theory Processors
  imports Kernel_State Boot_Sector
begin

text \<open>
  All processors of the machine, from reset to the halt. They share memory, ports and the
  kernel's globals; each has its own model-specific registers, hence its own hardware, and asks
  the firmware for the memory map itself. A processor sets the A20 line, waits until it takes
  the token at \<open>stack_wait\<close> (\<open>0x7e00\<close>) with \<open>lock xchg\<close>, runs the boot sector and \<open>start_kernel\<close>, which
  puts the token back, and halts.

  Whoever has the token is alone: the others only exchange a zero with the zero byte, or set
  the A20 line, which touch nothing it uses. So its run from the token to the halt is one step.
\<close>

section \<open>The machine\<close>

datatype core = InReset | AtToken | InKernel | Stopped

record processor =
  its_hw :: hardware
  its_map :: "e20_entry list"

record 'a platform =
  world :: "'a kernel_scheme"
  cores :: "nat \<Rightarrow> core"

definition set_a20 :: "'a machine_scheme \<Rightarrow> 'a machine_scheme" where
  "set_a20 s =
     (let s = occur Cli s;
          (al, s) = inb 0x92 s
      in outb 0x92 (al OR 2) s)"

definition xchg_token :: "memory \<Rightarrow> u8 \<times> memory" where
  "xchg_token m = (m 0x7e00, m(0x7e00 := 0))"

inductive boot_step :: "'a image \<Rightarrow> (nat \<Rightarrow> processor) \<Rightarrow> nat \<Rightarrow> 'a platform \<Rightarrow> 'a platform \<Rightarrow> bool"
  for I :: "'a image" and ps :: "nat \<Rightarrow> processor" and N :: nat where
  reset: "i < N \<Longrightarrow> cores p i = InReset \<Longrightarrow>
    boot_step I ps N p (p\<lparr>world := set_a20 ((world p)\<lparr>hw := its_hw (ps i)\<rparr>), cores := (cores p)(i := AtToken)\<rparr>)"
| spin: "i < N \<Longrightarrow> cores p i = AtToken \<Longrightarrow> xchg_token (mem (world p)) = (0, m) \<Longrightarrow>
    boot_step I ps N p (p\<lparr>world := (world p)\<lparr>mem := m\<rparr>\<rparr>)"
| take_token: "i < N \<Longrightarrow> cores p i = AtToken \<Longrightarrow> xchg_token (mem (world p)) = (al, m) \<Longrightarrow> al \<noteq> 0 \<Longrightarrow>
    boot_step I ps N p (p\<lparr>world := (world p)\<lparr>mem := m\<rparr>, cores := (cores p)(i := InKernel)\<rparr>)"
| run: "i < N \<Longrightarrow> cores p i = InKernel \<Longrightarrow>
    start_kernel I (enter_kernel (its_map (ps i)) ((world p)\<lparr>hw := its_hw (ps i)\<rparr>)) = Inr s \<Longrightarrow>
    boot_step I ps N p (p\<lparr>world := s, cores := (cores p)(i := Stopped)\<rparr>)"

inductive_cases boot_stepE: "boot_step I ps N p q"

definition boot_init :: "'a platform \<Rightarrow> bool" where
  "boot_init p \<longleftrightarrow> cores p = (\<lambda>_. InReset) \<and> mem (world p) 0x7e00 = 1"

section \<open>The token\<close>

definition token_inv :: "'a platform \<Rightarrow> bool" where
  "token_inv p \<longleftrightarrow>
     (\<forall>i j. cores p i = InKernel \<and> cores p j = InKernel \<longrightarrow> i = j) \<and>
     mem (world p) 0x7e00 = (if \<exists>i. cores p i = InKernel then 0 else 1)"

lemma set_a20_simps [simp]:
  "mem (set_a20 s) = mem s" "hw (set_a20 s) = hw s" "machine.more (set_a20 s) = machine.more s"
  by (simp_all add: set_a20_def inb_def outb_def)

lemma token_step:
  assumes "boot_step I ps N p q" "token_inv p"
  shows "token_inv q"
  using assms(1)
proof cases
  case (reset i)
  then have "cores q j = InKernel \<longleftrightarrow> cores p j = InKernel" for j
    by simp
  then show ?thesis
    using reset assms(2) by (simp add: token_inv_def)
next
  case (spin i m)
  then show ?thesis
    using assms(2) by (auto simp: token_inv_def xchg_token_def split: if_splits)
next
  case (take_token i al m)
  then show ?thesis
    using assms(2) by (auto simp: token_inv_def xchg_token_def split: if_splits)
next
  case (run i s)
  then have "mem s 0x7e00 = 1"
    using start_kernel_end by blast
  then show ?thesis
    using run assms(2) by (auto simp: token_inv_def)
qed

interpretation token: transition_system boot_init "boot_step I ps N" token_inv for I ps N
proof unfold_locales
  show "boot_init p \<Longrightarrow> token_inv p" for p
    by (simp add: boot_init_def token_inv_def)
qed (rule token_step)

section \<open>One run\<close>

text \<open>
  The bytes the boot writes. What the kernel reads of the firmware, the ports in the BIOS data
  area and the ACPI tables, must be elsewhere.
\<close>

definition written :: "'a image \<Rightarrow> u64 \<Rightarrow> bool" where
  "written I x \<longleftrightarrow> x = 0x7e00 \<or> unat (x - 0x14000) < 0x204 \<or> unat (x - 0x22000) < 0x2000 \<or>
     unat (x - FIRST_PML4_BASE) < 0x4000 \<or> in_gates (idt_addrs I) x \<or> unat (x - idt (idt_addrs I)) < 10 \<or>
     unat (x - buf I) < 0x10000"

definition agree :: "'a image \<Rightarrow> memory \<Rightarrow> memory \<Rightarrow> bool" where
  "agree I m m' \<longleftrightarrow> (\<forall>x. \<not> written I x \<longrightarrow> m' x = m x)"

text \<open>What a processor must bring along: ports that get ready, printable numbers, a memory map.\<close>

definition processor_ok :: "u16 list \<Rightarrow> processor \<Rightarrow> bool" where
  "processor_ok ports c \<longleftrightarrow> printable_hw (its_hw c) \<and> (\<forall>dev \<in> set ports. dev \<noteq> 0 \<longrightarrow> thr_ready (its_hw c) dev) \<and>
     its_map c \<noteq> [] \<and> length (its_map c) \<le> 21 \<and> (\<forall>e \<in> set (its_map c). printable (ucast (e20_type e)))"

definition platform_ok :: "'a image \<Rightarrow> memory \<Rightarrow> u8 list \<Rightarrow> u16 list \<Rightarrow> bool" where
  "platform_ok I m0 ids ports \<longleftrightarrow>
     (\<forall>f \<in> set (init_array I). constructor_ok f) \<and> printf_buffer I \<noteq> 0 \<and> apart_from_gates (idt_addrs I) \<and>
     distinct (filter (\<lambda>d. d \<noteq> 0) ports) \<and>
     (\<forall>m. agree I m0 m \<longrightarrow> processors (lits I) m ids \<and> map (com_port m) [0..<4] = ports)"

text \<open>The state between two runs.\<close>

definition between :: "'a image \<Rightarrow> memory \<Rightarrow> 'a kernel_scheme \<Rightarrow> bool" where
  "between I m0 s \<longleftrightarrow> agree I m0 (mem s) \<and> length (device s) = 4 \<and> release (spin s) = acquire (spin s)"

lemma agree_trans: "agree I m0 m \<Longrightarrow> (\<And>x. \<not> written I x \<Longrightarrow> m' x = m x) \<Longrightarrow> agree I m0 m'"
  by (simp add: agree_def)

lemma enter_kernel_agree:
  assumes "length es \<le> 21" "\<not> written I x"
  shows "mem (enter_kernel es s) x = mem s x"
proof -
  have "get_physical es (mem s) x = mem s x"
    using assms by (intro get_physical_frame) (simp_all add: written_def)
  then show ?thesis
    using assms(2) by (simp add: enter_kernel_simps early_page_frame written_def)
qed

lemma map_apic_agree: "\<not> written I x \<Longrightarrow> map_addr v p f m x = m x"
proof (rule map_addr_tables_frame)
  assume "\<not> written I x"
  then show "\<not> unat (x - FIRST_PML4_BASE) < 0x1000" "\<not> unat (x - 0x22000) < 0x2000"
    by (auto simp: written_def)
qed

lemma early_ok:
  assumes "platform_ok I m0 ids ports" "processor_ok ports c" "between I m0 s"
    and "s' = early I (enter_kernel (its_map c) (s\<lparr>hw := its_hw c\<rparr>))"
  shows "agree I m0 (mem s')" "device s' = ports" "hw s' = its_hw c" "can_print s'"
    "CORE_ID s' = CORE_ID s + 1" "cpu_nodes s' = cpu_nodes s"
proof -
  let ?e = "enter_kernel (its_map c) (s\<lparr>hw := its_hw c\<rparr>)"
  let ?t = "static_init (init_array I) ?e"
  have init: "\<forall>f \<in> set (init_array I). constructor_ok f"
    using assms(1) by (simp add: platform_ok_def)
  have more: "device ?e = device s" "spin ?e = spin s" "CORE_ID ?e = CORE_ID s" "cpu_nodes ?e = cpu_nodes s"
    by (simp_all add: enter_kernel_def outb_def wrmsr_eq occur_def Let_def)
  have e: "agree I m0 (mem ?e)"
    using assms(2,3) enter_kernel_agree [of "its_map c" I _ "s\<lparr>hw := its_hw c\<rparr>"]
    by (auto simp: between_def processor_ok_def elim!: agree_trans)
  have ports: "map (com_port (mem ?e)) [0..<4] = ports"
    using assms(1) e by (simp add: platform_ok_def)
  show s'_mem: "agree I m0 (mem s')"
    using e map_apic_agree by (auto simp: assms(4) early_simps(1) static_init_ok [OF init] elim!: agree_trans)
  show dev: "device s' = ports"
    unfolding assms(4)
    by (subst early_simps(4)) (use assms(3) ports in \<open>simp_all add: static_init_ok [OF init] more between_def del: upt_Suc\<close>)
  show hws: "hw s' = its_hw c"
    by (simp add: assms(4) early_simps(2) static_init_ok [OF init] enter_kernel_simps)
  have "release (spin s') = acquire (spin s')"
    using assms(3) static_init_ok(4) [OF init, of ?e] by (simp add: assms(4) early_simps(3) more between_def)
  then show "can_print s'"
    using assms(1,2) by (auto simp: can_print_def ready_def dev hws platform_ok_def processor_ok_def)
  show "cpu_nodes s' = cpu_nodes s" "CORE_ID s' = CORE_ID s + 1"
    using more_nodes [OF static_init_ok(5) [OF init, of ?e]] by (simp_all add: assms(4) early_nodes more)
qed

text \<open>The memory map the kernel prints is the one the firmware gave.\<close>

lemma memory_map_bytes:
  assumes "\<forall>f \<in> set (init_array I). constructor_ok f" "unat x < 0x20000"
  shows "mem (early I (enter_kernel es s)) x = get_physical es (mem s) x"
  using assms by (simp add: early_simps(1) static_init_ok enter_kernel_simps map_addr_low early_page_low)

lemma memory_map_count:
  assumes "\<forall>f \<in> set (init_array I). constructor_ok f" "length es \<le> 21"
  shows "mem (early I (enter_kernel es s)) (e20_addr + 0x200) = of_nat (length es)"
  using memory_map_bytes [OF assms(1), of "0x14200" es s] get_physical_count [of es "mem s"] assms(2)
  by (simp add: e20_addr_def)

lemma memory_map_entry:
  assumes "\<forall>f \<in> set (init_array I). constructor_ok f" "length es \<le> 21" "unat jj < length es"
  shows "load_e20_entry (mem (early I (enter_kernel es s))) (e20_entry jj) = es ! unat jj"
proof -
  have slot: "e20_entry jj = 0x14000 + 24 * of_nat (unat jj)"
    by (simp add: e20_entry_def e20_addr_def)
  have "load_e20_entry (mem (early I (enter_kernel es s))) (e20_entry jj) =
      load_e20_entry (get_physical es (mem s)) (e20_entry jj)"
  proof (rule e20_entry_layout.load_cong)
    fix j assume "j < sizeof_e20_entry"
    then have "unat (e20_entry jj + of_nat j) < 0x20000"
      using assms(2,3) unat_of_nat_64 [of "0x14000 + 24 * unat jj + j"] by (simp add: slot sizeof_e20_entry_def)
    then show "mem (early I (enter_kernel es s)) (e20_entry jj + of_nat j) = get_physical es (mem s) (e20_entry jj + of_nat j)"
      by (rule memory_map_bytes [OF assms(1)])
  qed
  then show ?thesis
    using get_physical_entry [OF assms(3,2)] by (simp add: slot)
qed

lemma memory_map_printable:
  assumes "\<forall>f \<in> set (init_array I). constructor_ok f" "es \<noteq> []" "length es \<le> 21"
    and "\<forall>e \<in> set es. printable (ucast (e20_type e))"
    and "s' = early I (enter_kernel es s)" "jj < mem s' (e20_addr + 0x200) - 1"
  shows "printable (ucast (load_le (mem s') (e20_entry jj + 16) :: u32))"
proof -
  have count: "mem s' (e20_addr + 0x200) = of_nat (length es)"
    unfolding assms(5) by (rule memory_map_count [OF assms(1,3)])
  have n: "unat (of_nat (length es) :: u8) = length es"
    using assms(3) by (simp add: unat_of_nat)
  then have "(1 :: u8) \<le> of_nat (length es)"
    using assms(2) by (simp add: word_le_nat_alt Suc_le_eq)
  then have "unat (of_nat (length es) - 1 :: u8) = length es - 1"
    using n by (simp add: unat_sub)
  then have jj: "unat jj < length es"
    using assms(6) by (simp add: count word_less_nat_alt)
  then have "load_le (mem s') (e20_entry jj + 16) = e20_type (es ! unat jj)"
    using memory_map_entry [OF assms(1,3) jj, of s] by (metis assms(5) e20_fields(3))
  then show ?thesis
    using jj assms(4) by simp
qed

definition boots_as_bsp :: "'a image \<Rightarrow> processor \<Rightarrow> 'a kernel_scheme \<Rightarrow> bool" where
  "boots_as_bsp I c s = fst (is_bsp (early I (enter_kernel (its_map c) (s\<lparr>hw := its_hw c\<rparr>))))"

text \<open>The kernel run comes to its end, whichever processor it is, and leaves the next one its start.\<close>

lemma run_ok:
  assumes ok: "platform_ok I m0 ids ports" "processor_ok ports c" "between I m0 s"
  shows "\<exists>t. start_kernel I (enter_kernel (its_map c) (s\<lparr>hw := its_hw c\<rparr>)) = Inr t \<and> between I m0 t \<and>
    CORE_ID t = CORE_ID s + 1 \<and>
    cpu_nodes t = (if boots_as_bsp I c s then register_all ids (cpu_nodes s) else cpu_nodes s)"
proof -
  let ?e = "enter_kernel (its_map c) (s\<lparr>hw := its_hw c\<rparr>)"
  note early = early_ok [OF ok refl]
  let ?l = "mem (load_idt (idt_addrs I) (early I ?e))"
  have b: "printf_buffer I \<noteq> 0" "apart_from_gates (idt_addrs I)" "\<forall>f \<in> set (init_array I). constructor_ok f"
    using ok(1) by (simp_all add: platform_ok_def)
  have four: "length ports = 4"
    using early(1) ok(1) by (auto simp: platform_ok_def simp del: upt_Suc)
  have idt: "agree I m0 ?l"
    using early(1) load_idt_frame [OF b(2)] by (auto simp: written_def elim!: agree_trans)
  have after: "between I m0 t" "CORE_ID t = CORE_ID s + 1"
    if "boots (early I ?e) t" "agree I m0 (mem t)" for t
    using that early four by (simp_all add: between_def boots_def can_print_def)
  show ?thesis
  proof (cases "boots_as_bsp I c s")
    case True
    have "bootable I ids (early I ?e)"
      unfolding bootable_def
    proof (intro conjI allI impI)
      show "printable_hw (hw (early I ?e))"
        using ok(2) by (simp add: early(3) processor_ok_def)
      show "processors (lits I) ?l ids"
        using ok(1) idt by (simp add: platform_ok_def)
      fix jj assume "jj < mem (early I ?e) (e20_addr + 0x200) - 1"
      then show "printable (ucast (load_le (mem (early I ?e)) (e20_entry jj + 16) :: u32))"
        using ok(2) by (intro memory_map_printable [OF b(3) _ _ _ refl]) (simp_all add: processor_ok_def)
    qed (use early(4) b(1) in simp_all)
    then obtain t where t: "start_kernel I ?e = Inr t" "cpu_nodes t = register_all ids (cpu_nodes (early I ?e))"
      "mem t = (unoptimized_function2 (buf I) BUF_SIZE ?l)(0x7e00 := 1)" "boots (early I ?e) t"
      using start_kernel_returns [of I ?e ids] True by (auto simp: boots_as_bsp_def)
    have "agree I m0 (mem t)"
      using idt by (rule agree_trans) (simp add: t(3) fill_buf_byte written_def)
    then show ?thesis
      using t after [OF t(4)] True by (simp add: early(6))
  next
    case False
    then obtain t where t: "start_kernel I ?e = Inr t" "mem t = (mem (early I ?e))(0x7e00 := 1)"
      "cpu_nodes t = cpu_nodes (early I ?e)" "boots (early I ?e) t"
      using boot_ap_returns [of I ?e] early(4) b(1) by (auto simp: boots_as_bsp_def)
    have "agree I m0 (mem t)"
      using early(1) by (rule agree_trans) (simp add: t(2) written_def)
    then show ?thesis
      using t after [OF t(4)] False by (simp add: early(6))
  qed
qed

section \<open>All runs\<close>

definition always_bsp :: "processor \<Rightarrow> bool" where
  "always_bsp c \<longleftrightarrow> (\<forall>tr. bit (msr_in (its_hw c) tr 0x1b) 8)"

definition registered :: "u8 list \<Rightarrow> u8 list \<Rightarrow> u8 list \<Rightarrow> bool" where
  "registered ids ns0 ns \<longleftrightarrow> length ns = length ns0 \<and>
     (\<forall>i. unat i < length ns0 \<longrightarrow> ns ! unat i = (if i \<in> set ids then i else ns0 ! unat i))"

lemma register_registered:
  "registered ids ns (register_all ids ns)"
  "registered ids ns0 ns \<Longrightarrow> registered ids ns0 (register_all ids ns)"
  by (simp_all add: registered_def register_all_nth)

definition stopped :: "nat \<Rightarrow> 'a platform \<Rightarrow> nat set" where
  "stopped N p = {i. i < N \<and> cores p i = Stopped}"

definition boot_inv :: "'a image \<Rightarrow> (nat \<Rightarrow> processor) \<Rightarrow> u8 list \<Rightarrow> nat \<Rightarrow> 'a kernel_scheme \<Rightarrow> 'a platform \<Rightarrow> bool" where
  "boot_inv I ps ids N s0 p \<longleftrightarrow>
     token_inv p \<and> between I (mem s0) (world p) \<and> (\<forall>i. N \<le> i \<longrightarrow> cores p i = InReset) \<and>
     CORE_ID (world p) = CORE_ID s0 + of_nat (card (stopped N p)) \<and>
     (cpu_nodes (world p) = cpu_nodes s0 \<or> registered ids (cpu_nodes s0) (cpu_nodes (world p))) \<and>
     ((\<exists>i \<in> stopped N p. always_bsp (ps i)) \<longrightarrow> registered ids (cpu_nodes s0) (cpu_nodes (world p)))"

text \<open>The conditions of the whole boot.\<close>

definition boot_ok :: "'a image \<Rightarrow> (nat \<Rightarrow> processor) \<Rightarrow> u8 list \<Rightarrow> u16 list \<Rightarrow> nat \<Rightarrow> 'a kernel_scheme \<Rightarrow> bool" where
  "boot_ok I ps ids ports N s0 \<longleftrightarrow> platform_ok I (mem s0) ids ports \<and> (\<forall>i<N. processor_ok ports (ps i)) \<and>
     length (device s0) = 4 \<and> release (spin s0) = acquire (spin s0)"

lemma stopped_simps [simp]:
  "stopped N (p\<lparr>world := s\<rparr>) = stopped N p"
  "c \<noteq> Stopped \<Longrightarrow> cores p i \<noteq> Stopped \<Longrightarrow> stopped N (p\<lparr>world := s, cores := (cores p)(i := c)\<rparr>) = stopped N p"
  "i < N \<Longrightarrow> stopped N (p\<lparr>world := s, cores := (cores p)(i := Stopped)\<rparr>) = insert i (stopped N p)"
  by (auto simp: stopped_def)

lemma finite_stopped [simp]: "finite (stopped N p)"
  by (simp add: stopped_def)

lemma always_bsp_boots: "always_bsp c \<Longrightarrow> platform_ok I m0 ids ports \<Longrightarrow> boots_as_bsp I c s"
  by (simp add: always_bsp_def boots_as_bsp_def is_bsp_simps early_simps(2) static_init_ok platform_ok_def enter_kernel_simps)

lemma between_cong:
  "mem t = mem s \<Longrightarrow> device t = device s \<Longrightarrow> spin t = spin s \<Longrightarrow> between I m0 t \<longleftrightarrow> between I m0 s"
  by (simp add: between_def)

lemma set_a20_fields [simp]:
  "device (set_a20 s) = device s" "spin (set_a20 s) = spin s" "cpu_nodes (set_a20 s) = cpu_nodes s" "CORE_ID (set_a20 s) = CORE_ID s"
  by (simp_all add: set_a20_def inb_def outb_def occur_def)

lemma boot_inv_step:
  assumes "boot_step I ps N p q" "boot_inv I ps ids N s0 p" "boot_ok I ps ids ports N s0"
  shows "boot_inv I ps ids N s0 q"
  using assms(1)
proof cases
  case (reset i)
  then show ?thesis
    using assms(2) token_step [OF assms(1)] by (auto simp: boot_inv_def between_def)
next
  case (spin i m)
  then show ?thesis
    using assms(2) token_step [OF assms(1)]
    by (auto simp: boot_inv_def between_def xchg_token_def agree_def written_def)
next
  case (take_token i al m)
  then show ?thesis
    using assms(2) token_step [OF assms(1)]
    by (auto simp: boot_inv_def between_def xchg_token_def agree_def written_def)
next
  case (run i s)
  have i: "platform_ok I (mem s0) ids ports" "processor_ok ports (ps i)" "between I (mem s0) (world p)"
    using assms(2,3) run by (auto simp: boot_inv_def boot_ok_def)
  have s: "between I (mem s0) s" "CORE_ID s = CORE_ID (world p) + 1"
    "cpu_nodes s = (if boots_as_bsp I (ps i) (world p) then register_all ids (cpu_nodes (world p)) else cpu_nodes (world p))"
    using run_ok [OF i] run by auto
  have "i \<notin> stopped N p"
    using run by (simp add: stopped_def)
  then have count: "CORE_ID s = CORE_ID s0 + of_nat (card (stopped N q))"
    using assms(2) run s(2) by (simp add: boot_inv_def)
  have nodes: "cpu_nodes s = cpu_nodes s0 \<or> registered ids (cpu_nodes s0) (cpu_nodes s)"
    "boots_as_bsp I (ps i) (world p) \<Longrightarrow> registered ids (cpu_nodes s0) (cpu_nodes s)"
    "registered ids (cpu_nodes s0) (cpu_nodes (world p)) \<Longrightarrow> registered ids (cpu_nodes s0) (cpu_nodes s)"
    using assms(2) register_registered by (auto simp: s(3) boot_inv_def)
  have "registered ids (cpu_nodes s0) (cpu_nodes s)" if "\<exists>j \<in> stopped N q. always_bsp (ps j)"
    using that assms(2) run nodes(2,3) always_bsp_boots [OF _ i(1)] by (auto simp: boot_inv_def)
  then show ?thesis
    using s(1) count nodes(1) token_step [OF assms(1)] assms(2) run by (auto simp: boot_inv_def)
qed

lemma boot_inv_init:
  assumes "boot_init p" "boot_ok I ps ids ports N (world p)"
  shows "boot_inv I ps ids N (world p) p"
proof -
  have "stopped N p = {}"
    using assms(1) by (simp add: stopped_def boot_init_def)
  then show ?thesis
    using assms token.invar_init [OF assms(1)]
    by (simp add: boot_inv_def boot_ok_def boot_init_def between_def agree_def)
qed

interpretation boot: transition_system
  "\<lambda>p. boot_init p \<and> world p = s0 \<and> boot_ok I ps ids ports N s0" "boot_step I ps N"
  "\<lambda>p. boot_inv I ps ids N s0 p \<and> boot_ok I ps ids ports N s0" for I ps ids ports N s0
  using boot_inv_init boot_inv_step by unfold_locales blast+

text \<open>The work that is left: three steps for every processor.\<close>

fun steps_left :: "core \<Rightarrow> nat" where
  "steps_left InReset = 3"
| "steps_left AtToken = 2"
| "steps_left InKernel = 1"
| "steps_left Stopped = 0"

definition work :: "nat \<Rightarrow> 'a platform \<Rightarrow> nat" where
  "work N p = (\<Sum>i<N. steps_left (cores p i))"

lemma work_update:
  assumes "i < N" "steps_left c < steps_left (cores p i)" "cores q = (cores p)(i := c)"
  shows "work N q < work N p"
  unfolding work_def
  by (rule sum_strict_mono_ex1) (use assms in auto)

lemma step_work:
  assumes "boot_step I ps N p q"
  shows "q = p \<or> work N q < work N p"
  using assms
proof cases
  case (reset i)
  then show ?thesis
    using work_update [of i N AtToken p q] by simp
next
  case (spin i m)
  then have "m = mem (world p)"
    by (auto simp: xchg_token_def)
  then show ?thesis
    using spin(1) by (cases p) simp
next
  case (take_token i al m)
  then show ?thesis
    using work_update [of i N InKernel p q] by simp
next
  case (run i s)
  then show ?thesis
    using work_update [of i N Stopped p q] by simp
qed

lemma boot_progress:
  assumes "boot_inv I ps ids N s0 p" "boot_ok I ps ids ports N s0" "i < N" "cores p i \<noteq> Stopped"
  shows "\<exists>q. boot_step I ps N p q \<and> work N q < work N p"
proof (cases "\<exists>k. cores p k = InKernel")
  case True
  then obtain k where k: "cores p k = InKernel" "k < N"
    using assms(1) by (force simp: boot_inv_def not_le)
  then obtain s where s: "start_kernel I (enter_kernel (its_map (ps k)) ((world p)\<lparr>hw := its_hw (ps k)\<rparr>)) = Inr s"
    using run_ok [of I "mem s0" ids ports "ps k" "world p"] assms(1,2) by (auto simp: boot_inv_def boot_ok_def)
  let ?q = "p\<lparr>world := s, cores := (cores p)(k := Stopped)\<rparr>"
  have "boot_step I ps N p ?q"
    using k s by (intro boot_step.run)
  then show ?thesis
    using work_update [of k N Stopped p ?q] k by auto
next
  case False
  then have one: "mem (world p) 0x7e00 = 1"
    using assms(1) by (simp add: boot_inv_def token_inv_def)
  consider "cores p i = InReset" | "cores p i = AtToken"
    using False assms(4) by (cases "cores p i") auto
  then show ?thesis
  proof cases
    case 1
    let ?q = "p\<lparr>world := set_a20 ((world p)\<lparr>hw := its_hw (ps i)\<rparr>), cores := (cores p)(i := AtToken)\<rparr>"
    have "boot_step I ps N p ?q"
      using assms(3) 1 by (rule boot_step.reset)
    then show ?thesis
      using work_update [of i N AtToken p ?q] 1 assms(3) by auto
  next
    case 2
    let ?m = "(mem (world p))(0x7e00 := 0)"
    let ?q = "p\<lparr>world := (world p)\<lparr>mem := ?m\<rparr>, cores := (cores p)(i := InKernel)\<rparr>"
    have "xchg_token (mem (world p)) = (1, ?m)"
      by (simp add: xchg_token_def one)
    then have "boot_step I ps N p ?q"
      using assms(3) 2 by (intro boot_step.take_token) auto
    then show ?thesis
      using work_update [of i N InKernel p ?q] 2 assms(3) by auto
  qed
qed

text \<open>So every state can be left for the last one.\<close>

lemma boot_finishes:
  assumes "boot_inv I ps ids N s0 p" "boot_ok I ps ids ports N s0"
  shows "\<exists>q. (boot_step I ps N)\<^sup>*\<^sup>* p q \<and> (\<forall>i<N. cores q i = Stopped)"
  using assms(1)
proof (induction "work N p" arbitrary: p rule: less_induct)
  case less
  show ?case
  proof (cases "\<forall>i<N. cores p i = Stopped")
    case False
    then obtain i where "i < N" "cores p i \<noteq> Stopped"
      by blast
    then obtain q where q: "boot_step I ps N p q" "work N q < work N p"
      using boot_progress [OF less.prems assms(2)] by blast
    then show ?thesis
      using less.hyps [OF q(2) boot_inv_step [OF q(1) less.prems assms(2)]]
      by (blast intro: converse_rtranclp_into_rtranclp)
  qed blast
qed

lemma boot_inv_stopped:
  assumes "boot_inv I ps ids N s0 p" "\<forall>i<N. cores p i = Stopped"
  shows "mem (world p) 0x7e00 = 1" "CORE_ID (world p) = CORE_ID s0 + of_nat N"
    "\<exists>i<N. always_bsp (ps i) \<Longrightarrow> registered ids (cpu_nodes s0) (cpu_nodes (world p))"
proof -
  have all: "stopped N p = {..<N}"
    using assms(2) by (auto simp: stopped_def)
  then show "CORE_ID (world p) = CORE_ID s0 + of_nat N"
    "\<exists>i<N. always_bsp (ps i) \<Longrightarrow> registered ids (cpu_nodes s0) (cpu_nodes (world p))"
    using assms(1) by (auto simp: boot_inv_def)
  have "cores p i \<noteq> InKernel" for i
    using assms by (cases "i < N") (auto simp: boot_inv_def)
  then show "mem (world p) 0x7e00 = 1"
    using assms(1) by (simp add: boot_inv_def token_inv_def)
qed

end
