(* ===== verification/Boot_Example.thy ===== *)
theory Boot_Example
  imports Acpi_Example Processors
begin

text \<open>
  A kernel image in a concrete machine: one serial port, a memory map of one entry, the ACPI
  tables of \<open>Acpi_Example\<close>. The processor is the one that boots or another one.
\<close>

definition boot_hw :: "bool \<Rightarrow> hardware" where
  "boot_hw bsp = quiet_hw\<lparr>msr_in := \<lambda>_ i. if bsp \<and> i = 0x1b then 0x900 else 0\<rparr>"

definition boot_mem :: memory where
  "boot_mem = (acpi_mem good_end)(0x400 := 0xf8, 0x401 := 0x03, 0x14200 := 2)"

definition boot_image :: "unit image" where
  "boot_image = \<lparr>init_array = [], printf_buffer = 0x200000, lits = acpi_lits, idt_addrs = idt_layout,
     buf = 0x300000, union_rest = 0\<rparr>"


definition boot_kernel :: "bool \<Rightarrow> kernel" where
  "boot_kernel bsp = \<lparr>mem = boot_mem, trace = [], hw = boot_hw bsp, device = [0, 0, 0, 0], spin = lock_init,
     cpu_nodes = replicate 18 0, CORE_ID = 0\<rparr>"

lemma boot_image_simps [simp]:
  "init_array boot_image = []" "printf_buffer boot_image = 0x200000" "lits boot_image = acpi_lits"
  "idt_addrs boot_image = idt_layout" "buf boot_image = 0x300000" "union_rest boot_image = 0"
  by (simp_all add: boot_image_def)

lemma boot_kernel_simps:
  "mem (boot_kernel b) = boot_mem" "trace (boot_kernel b) = []" "hw (boot_kernel b) = boot_hw b"
  "device (boot_kernel b) = [0, 0, 0, 0]" "spin (boot_kernel b) = lock_init"
  "cpu_nodes (boot_kernel b) = replicate 18 0"
  by (simp_all add: boot_kernel_def)

lemma boot_start [simp]: "static_init [] (boot_kernel b) = boot_kernel b"
  by (simp add: static_init_def)

lemma boot_ports: "map (com_port boot_mem) [0..<4] = [0x3f8, 0, 0, 0]"
  by (simp add: com_port_def boot_mem_def acpi_mem_def acpi_bytes_def load_le_def load_bytes_def
      bytes_word_def upt_rec)

lemma boot_early:
  "device (early boot_image (boot_kernel b)) = [0x3f8, 0, 0, 0]"
  "hw (early boot_image (boot_kernel b)) = boot_hw b"
  "spin (early boot_image (boot_kernel b)) = lock_init"
  "mem (early boot_image (boot_kernel b)) =
     map_addr 0x13370000000 0xfee00000 (PAGE_PRESENT OR PAGE_WRITE OR PAGE_UC) boot_mem"
  "cpu_nodes (early boot_image (boot_kernel b)) = replicate 18 0"
  using early_simps [of boot_image "boot_kernel b"] early_nodes(1) [of boot_image "boot_kernel b"] boot_ports
  by (simp_all add: boot_kernel_simps del: upt_Suc)

lemma boot_is_bsp: "fst (is_bsp (early boot_image (boot_kernel b))) \<longleftrightarrow> b"
  by (simp add: is_bsp_simps(1) boot_early boot_hw_def quiet_hw_def)

lemma boot_can_print: "can_print (early boot_image (boot_kernel b))"
  using quiet_ready by (simp add: can_print_def ready_def boot_early lock_init_def boot_hw_def thr_ready_def)

text \<open>The tables are below all that the boot writes.\<close>

lemma load_idt_low:
  assumes "unat x < 0x20000"
  shows "mem (load_idt idt_layout s) x = mem s x"
proof (rule load_idt_frame [OF idt_layout_apart])
  show "\<not> in_gates idt_layout x"
    using below_diff [of x "0x100000"] assms by (simp add: in_gates_def idt_layout_def)
  show "\<not> unat (x - idt idt_layout) < 10"
    using below_diff [of x "0x102000"] assms by (simp add: idt_layout_def)
qed

lemma boot_holds_acpi: "holds_acpi good_end (mem (load_idt idt_layout (early boot_image (boot_kernel b))))"
proof -
  have "mem (load_idt idt_layout (early boot_image (boot_kernel b))) a = acpi_mem good_end a"
    if "0x40e \<le> a" "a < 0x14000" for a
  proof -
    have "unat a < 0x20000"
      using that(2) by (simp add: word_less_nat_alt)
    then have "mem (load_idt idt_layout (early boot_image (boot_kernel b))) a = boot_mem a"
      by (simp add: load_idt_low map_addr_low boot_early)
    also have "\<dots> = acpi_mem good_end a"
      using that by (auto simp: boot_mem_def)
    finally show ?thesis .
  qed
  then show ?thesis
    by (simp add: holds_acpi_def)
qed

lemma acpi_processors: "holds_acpi good_end m \<Longrightarrow> processors acpi_lits m [3]"
  unfolding processors_def
  using acpi_found acpi_table_ids
  by (intro exI [of _ "0x1010"] exI [of _ "[[3]]"]) (simp add: acpi_lits_def)

lemma boot_processors: "processors acpi_lits (mem (load_idt idt_layout (early boot_image (boot_kernel b)))) [3]"
  using boot_holds_acpi by (rule acpi_processors)

lemma boot_bootable: "bootable boot_image [3] (early boot_image (boot_kernel b))"
proof -
  let ?m = "mem (early boot_image (boot_kernel b))"
  have byte: "?m a = boot_mem a" if "unat a < 0x20000" for a
    using that by (simp add: boot_early map_addr_low)
  have "?m (e20_addr + 0x200) = 2"
    using byte [of "0x14200"] by (simp add: e20_addr_def boot_mem_def)
  moreover have "load_le ?m (e20_entry 0 + 16) = (0 :: u32)"
    by (simp add: e20_entry_def e20_addr_def load_le_def load_bytes_def bytes_word_def upt_rec byte
        boot_mem_def acpi_mem_def acpi_bytes_def)
  moreover have "jj = 0" if "jj < 2 - 1" for jj :: u8
    using that by (simp add: word_less_nat_alt unat_eq_0)
  moreover have "printable 0"
    by (simp add: printable_def)
  moreover have "printable_hw (boot_hw b)"
    by (simp add: printable_hw_def printable_def boot_hw_def quiet_hw_def)
  ultimately show ?thesis
    using boot_can_print boot_processors by (auto simp: bootable_def boot_early)
qed

end
