(* ===== verification/Long_Mode.thy ===== *)
theory Long_Mode
  imports Boot_Sector
begin

text \<open>
  The way of \<open>firststage/bootloader.s\<close> from real mode to long mode: the descriptor tables in the
  boot sector, the control registers and segments, and the stack a processor chooses by the id of
  its APIC. What a privileged instruction demands of the control state is documented behaviour of
  the processor; \<open>None\<close> is the exception it raises when the demand is not met. \<open>enter_kernel\<close>, the
  memory and the accesses of the same code, is the part of the run that the kernel sees.
\<close>

section \<open>Segments and control registers\<close>

record segment =
  seg_base :: u32
  seg_limit :: u32
  seg_code :: bool
  seg_long :: bool
  seg_big :: bool

record control =
  cr0 :: u32
  cr3 :: u32
  cr4 :: u32
  efer :: u64
  gdt_base :: u32
  gdt_limit :: u16
  cs_seg :: segment
  ss_seg :: segment
  ds_seg :: segment
  es_seg :: segment
  fs_seg :: segment
  gs_seg :: segment

datatype cpu_mode = RealMode | ProtectedMode | CompatibilityMode | LongMode

text \<open>Bit 0 of \<open>CR0\<close> is PE, bit 31 PG; bit 5 of \<open>CR4\<close> is PAE; bit 8 of \<open>EFER\<close> is LME, bit 10 LMA.\<close>

definition mode :: "control \<Rightarrow> cpu_mode" where
  "mode c =
     (if \<not> bit (cr0 c) 0 then RealMode
      else if \<not> bit (efer c) 10 then ProtectedMode
      else if seg_long (cs_seg c) then LongMode else CompatibilityMode)"

text \<open>A segment in real mode, and the segment a descriptor of code or data describes.\<close>

definition real_segment :: "u16 \<Rightarrow> segment" where
  "real_segment sel =
     \<lparr>seg_base = 16 * ucast sel, seg_limit = 0xFFFF, seg_code = False, seg_long = False, seg_big = False\<rparr>"

definition descriptor_limit :: "u64 \<Rightarrow> u32" where
  "descriptor_limit d =
     (let l = ucast (d AND 0xFFFF) OR push_bit 16 (ucast (drop_bit 48 d AND 0xF))
      in if bit d 55 then push_bit 12 l OR 0xFFF else l)"

definition decode_descriptor :: "u64 \<Rightarrow> segment option" where
  "decode_descriptor d =
     (if bit d 47 \<and> bit d 44
      then Some \<lparr>seg_base = ucast (drop_bit 16 d AND 0xFFFFFF) OR push_bit 24 (ucast (drop_bit 56 d)),
                 seg_limit = descriptor_limit d, seg_code = bit d 43, seg_long = bit d 53, seg_big = bit d 54\<rparr>
      else None)"

section \<open>Privileged instructions\<close>

text \<open>
  A linear address is physical without paging and goes through the page walk in long mode. The
  code does not page outside long mode.
\<close>

definition linear :: "control \<Rightarrow> memory \<Rightarrow> u32 \<Rightarrow> u64 option" where
  "linear c m a =
     (if \<not> bit (cr0 c) 31 then Some (ucast a)
      else if bit (efer c) 10 then map_option fst (walk (ucast (cr3 c)) m (ucast a))
      else None)"

text \<open>
  \<open>lgdt\<close> reads a limit and a base, of which 16-bit code keeps 24 bits.
\<close>

definition lgdt :: "u32 \<Rightarrow> memory \<Rightarrow> u32 \<Rightarrow> control \<Rightarrow> control option" where
  "lgdt msk m a c =
     map_option (\<lambda>p. c\<lparr>gdt_limit := load_le m p, gdt_base := load_le m (p + 2) AND msk\<rparr>) (linear c m a)"

text \<open>
  Writing \<open>CR0\<close>: paging needs protection; write-through cannot be disabled with the cache on;
  with LME, paging is enabled from PAE and code that is not 64-bit, and long mode is active from
  then on. 64-bit code cannot switch paging off.
\<close>

definition mov_cr0 :: "u32 \<Rightarrow> control \<Rightarrow> control option" where
  "mov_cr0 v c =
     (if (bit v 31 \<and> \<not> bit v 0) \<or> (bit v 29 \<and> \<not> bit v 30) then None
      else if bit v 31 \<and> \<not> bit (cr0 c) 31 \<and> bit (efer c) 8
      then if bit (cr4 c) 5 \<and> \<not> seg_long (cs_seg c) then Some (c\<lparr>cr0 := v, efer := efer c OR 0x400\<rparr>) else None
      else if \<not> bit v 31 \<and> bit (cr0 c) 31
      then if mode c = LongMode then None else Some (c\<lparr>cr0 := v, efer := efer c AND NOT 0x400\<rparr>)
      else Some (c\<lparr>cr0 := v\<rparr>))"

text \<open>PAE cannot be changed in long mode.\<close>

definition mov_cr4 :: "u32 \<Rightarrow> control \<Rightarrow> control option" where
  "mov_cr4 v c = (if bit (efer c) 10 \<and> bit v 5 \<noteq> bit (cr4 c) 5 then None else Some (c\<lparr>cr4 := v\<rparr>))"

text \<open>
  \<open>EFER\<close>: only the bits the processor supports can be set, LME cannot be changed while paging is
  on, and LMA is not changed by a write.
\<close>

definition wrmsr_efer :: "u64 \<Rightarrow> u64 \<Rightarrow> control \<Rightarrow> control option" where
  "wrmsr_efer supported v c =
     (if v AND NOT supported \<noteq> 0 \<or> (bit (cr0 c) 31 \<and> bit v 8 \<noteq> bit (efer c) 8) then None
      else Some (c\<lparr>efer := (v AND NOT 0x400) OR (efer c AND 0x400)\<rparr>))"

text \<open>The descriptor of a selector, read from inside the table.\<close>

definition descriptor :: "memory \<Rightarrow> u16 \<Rightarrow> control \<Rightarrow> segment option" where
  "descriptor m sel c =
     (if unat sel + 7 \<le> unat (gdt_limit c)
      then Option.bind (map_option (load_le m) (linear c m (gdt_base c + ucast sel))) decode_descriptor
      else None)"

definition far_jmp :: "memory \<Rightarrow> u16 \<Rightarrow> control \<Rightarrow> control option" where
  "far_jmp m sel c =
     Option.bind (descriptor m sel c) (\<lambda>d.
     if seg_code d \<and> \<not> (bit (efer c) 10 \<and> seg_long d \<and> seg_big d) then Some (c\<lparr>cs_seg := d\<rparr>) else None)"

text \<open>\<open>mov ds, dx\<close> to \<open>mov gs, dx\<close> with a selector of the table.\<close>

definition load_data_segments :: "memory \<Rightarrow> u16 \<Rightarrow> control \<Rightarrow> control option" where
  "load_data_segments m sel c =
     Option.bind (descriptor m sel c) (\<lambda>d.
     if seg_code d then None else Some (c\<lparr>ds_seg := d, ss_seg := d, es_seg := d, fs_seg := d, gs_seg := d\<rparr>))"

section \<open>The code\<close>

text \<open>The descriptor tables, and the addresses the assembler gave the data of the sector.\<close>

definition gdt :: "u64 list" where
  "gdt = [0x0000000000000000, 0x00cf9a000000ffff, 0x00cf92000000ffff]"

definition lmgdt :: "u64 list" where
  "lmgdt = [0x0000000000000000, 0x00209a0000000000, 0x0000920000000000]"

record sector =
  gdt_at :: u32
  gdt_desc_at :: u32
  lmgdt_at :: u32
  lmgdt_desc_at :: u32

text \<open>From the stack of real mode to the far jump to \<open>entry\<close>.\<close>

definition protect :: "sector \<Rightarrow> memory \<Rightarrow> control \<Rightarrow> control option" where
  "protect L m c =
     Option.bind (lgdt 0xFFFFFF m (gdt_desc_at L) (c\<lparr>ds_seg := real_segment 0\<rparr>)) (\<lambda>c.
     Option.bind (mov_cr0 (cr0 c OR push_bit 0 1) c) (\<lambda>c.
     Option.bind (load_data_segments m 0x10 c) (\<lambda>c.
     far_jmp m 0x0008 c)))"

text \<open>From \<open>CR4\<close> to the far jump to \<open>enter_long\<close>.\<close>

definition setup_lm :: "sector \<Rightarrow> u64 \<Rightarrow> memory \<Rightarrow> control \<Rightarrow> control option" where
  "setup_lm L supported m c =
     Option.bind (mov_cr4 (cr4 c OR push_bit 5 1) c) (\<lambda>c.
     Option.bind (wrmsr_efer supported 0x900 (c\<lparr>cr3 := ucast FIRST_PML4_BASE\<rparr>)) (\<lambda>c.
     Option.bind (mov_cr0 (cr0 c OR push_bit 31 1) c) (\<lambda>c.
     Option.bind (lgdt 0xFFFFFFFF m (lmgdt_desc_at L) c) (\<lambda>c.
     far_jmp m 0x0008 c))))"

text \<open>The comparison that selects the stack is one of signed 16-bit numbers.\<close>

definition enter_long :: "u32 \<Rightarrow> u64" where
  "enter_long ebp =
     (let esp = 0x40000
      in if sint (ucast ebp :: u16) \<ge> 1 then ucast (esp + ebp * 0x4000 :: u32) else ucast esp)"

definition boot_sector :: "sector \<Rightarrow> u64 \<Rightarrow> e20_entry list \<Rightarrow> control \<times> 'a machine_scheme \<Rightarrow>
    (control \<times> 'a machine_scheme \<times> u64) option" where
  "boot_sector L supported es cs =
     (case cs of (c, s) \<Rightarrow>
     (let c = c\<lparr>ss_seg := real_segment 0, es_seg := real_segment 0x1000\<rparr>;
          s = s\<lparr>mem := get_physical es (mem s)\<rparr>
      in Option.bind (protect L (mem s) c) (\<lambda>c.
         let s = s\<lparr>mem := early_page (mem s)\<rparr>;
             ebp = drop_bit 24 (mmio_in (hw s) (trace s) 0xfee00020);
             s = occur (MmioRead 0xfee00020) s;
             s = outb 0xA1 0xFF s;
             s = outb 0x21 0xFF s;
             s = occur (Lidt 0 0) s
         in Option.bind (setup_lm L supported (mem s) c) (\<lambda>c.
            Some (c, wrmsr 0xc0000080 0x900 s, enter_long ebp)))))"

section \<open>The sector in memory\<close>

text \<open>
  What the assembler puts into the 512 bytes at \<open>0x7c00\<close>: the two tables and their limits and
  bases. The boot writes neither.
\<close>

definition in_sector :: "u32 \<Rightarrow> nat \<Rightarrow> bool" where
  "in_sector a n \<longleftrightarrow> 0x7c00 \<le> unat a \<and> unat a + n \<le> 0x7dfe"

definition table_ok :: "memory \<Rightarrow> u32 \<Rightarrow> u32 \<Rightarrow> u64 list \<Rightarrow> bool" where
  "table_ok m desc a ds \<longleftrightarrow> in_sector desc 6 \<and> in_sector a (8 * length ds) \<and>
     load_le m (ucast desc) = (of_nat (8 * length ds) - 1 :: u16) \<and> load_le m (ucast desc + 2) = a \<and>
     (\<forall>k < length ds. load_le m (ucast a + 8 * of_nat k) = ds ! k)"

definition sector_ok :: "sector \<Rightarrow> memory \<Rightarrow> bool" where
  "sector_ok L m \<longleftrightarrow> table_ok m (gdt_desc_at L) (gdt_at L) gdt \<and> table_ok m (lmgdt_desc_at L) (lmgdt_at L) lmgdt"

lemma low_offset:
  assumes "in_sector a n" "k < n"
  shows "unat (ucast a + of_nat k :: u64) = unat a + k"
  using assms by (simp add: in_sector_def unat_word_ariths unat_of_nat_64)

lemma table_ok_cong:
  assumes "table_ok m desc a ds" and same: "\<And>x. 0x7c00 \<le> unat x \<Longrightarrow> unat x < 0x7dfe \<Longrightarrow> m' x = m x"
  shows "table_ok m' desc a ds"
proof -
  have desc: "m' (ucast desc + of_nat k) = m (ucast desc + of_nat k)" if "k < 6" for k
    using assms(1) that low_offset [of desc 6 k] by (intro same) (simp_all add: table_ok_def in_sector_def)
  have tab: "m' (ucast a + of_nat k) = m (ucast a + of_nat k)" if "k < 8 * length ds" for k
    using assms(1) that low_offset [of a "8 * length ds" k] by (intro same) (simp_all add: table_ok_def in_sector_def)
  have "load_le m' (ucast desc) = (load_le m (ucast desc) :: u16)"
    by (rule cell16.ld_cong) (simp add: desc)
  moreover have "load_le m' (ucast desc + 2) = (load_le m (ucast desc + 2) :: u32)"
  proof (rule cell32.ld_cong)
    fix i :: nat assume "i < 4"
    then show "m' (ucast desc + 2 + of_nat i) = m (ucast desc + 2 + of_nat i)"
      using desc [of "2 + i"] by (simp add: add.assoc)
  qed
  moreover have "load_le m' (ucast a + 8 * of_nat k) = (load_le m (ucast a + 8 * of_nat k) :: u64)"
    if "k < length ds" for k
  proof (rule cell64.ld_cong)
    fix i :: nat assume "i < 8"
    then show "m' (ucast a + 8 * of_nat k + of_nat i) = m (ucast a + 8 * of_nat k + of_nat i)"
      using tab [of "8 * k + i"] that by (simp add: add.assoc)
  qed
  ultimately show ?thesis
    using assms(1) by (simp add: table_ok_def)
qed

lemma sector_ok_cong:
  "sector_ok L m \<Longrightarrow> (\<And>x. 0x7c00 \<le> unat x \<Longrightarrow> unat x < 0x7dfe \<Longrightarrow> m' x = m x) \<Longrightarrow> sector_ok L m'"
  by (auto simp: sector_ok_def intro: table_ok_cong)

lemma get_physical_low:
  assumes "length es \<le> 21" "unat x < 0x14000"
  shows "get_physical es m x = m x"
  using assms below_diff [of x "0x14000"] by (intro get_physical_frame) simp_all

lemma sector_kept:
  assumes "sector_ok L m" "length es \<le> 21"
  shows "sector_ok L (get_physical es m)" "sector_ok L (early_page (get_physical es m))"
  using assms(1) by (rule sector_ok_cong, simp add: get_physical_low early_page_low assms(2))+

section \<open>The way to long mode\<close>

text \<open>The segments the descriptors describe: flat code and data, and the code of long mode.\<close>

definition flat_segment :: "bool \<Rightarrow> segment" where
  "flat_segment code = \<lparr>seg_base = 0, seg_limit = 0xFFFFFFFF, seg_code = code, seg_long = False, seg_big = True\<rparr>"

definition code64 :: segment where
  "code64 = \<lparr>seg_base = 0, seg_limit = 0, seg_code = True, seg_long = True, seg_big = False\<rparr>"

lemma decode_gdt:
  "decode_descriptor 0x00cf9a000000ffff = Some (flat_segment True)"
  "decode_descriptor 0x00cf92000000ffff = Some (flat_segment False)"
  "decode_descriptor 0x00209a0000000000 = Some code64"
  by (simp_all add: decode_descriptor_def descriptor_limit_def flat_segment_def code64_def bit_numeral_word_iff)

text \<open>A table that was loaded, and the descriptors read from it where linear addresses are physical.\<close>

definition loaded :: "u32 \<Rightarrow> u64 list \<Rightarrow> control \<Rightarrow> bool" where
  "loaded a ds c \<longleftrightarrow> gdt_base c = a \<and> gdt_limit c = of_nat (8 * length ds) - 1"

definition low_identity :: "control \<Rightarrow> memory \<Rightarrow> bool" where
  "low_identity c m \<longleftrightarrow> (\<forall>a. unat a < 0x7e00 \<longrightarrow> linear c m a = Some (ucast a))"

lemma lgdt_loaded:
  assumes "table_ok m desc a ds" "low_identity c m" "msk = 0xFFFFFF \<or> msk = 0xFFFFFFFF"
  shows "lgdt msk m desc c = Some (c\<lparr>gdt_limit := of_nat (8 * length ds) - 1, gdt_base := a\<rparr>)"
proof -
  have "unat a < 2 ^ 24"
    using assms(1) by (simp add: table_ok_def in_sector_def)
  then have "take_bit 24 a = a"
    by (simp add: word_unat_eq_iff unsigned_take_bit_eq take_bit_nat_eq_self_iff)
  moreover have "a AND 0xFFFFFF = take_bit 24 a" "a AND 0xFFFFFFFF = take_bit 32 a"
    by (simp_all only: take_bit_eq_mask mask_eq_exp_minus_1) simp_all
  ultimately have "a AND msk = a"
    using assms(3) by (auto simp: take_bit_word_eq_self)
  moreover have "linear c m desc = Some (ucast desc)"
    using assms(1,2) by (simp add: low_identity_def table_ok_def in_sector_def)
  ultimately show ?thesis
    using assms(1) by (simp add: lgdt_def table_ok_def)
qed

lemma descriptor_loaded:
  assumes "table_ok m desc a ds" "low_identity c m" "gdt_base c = a" "gdt_limit c = of_nat (8 * length ds) - 1"
    and "k < length ds" "length ds = 3" "sel = of_nat (8 * k)"
  shows "descriptor m sel c = decode_descriptor (ds ! k)"
proof -
  have a: "0x7c00 \<le> unat a" "unat a + 24 \<le> 0x7dfe" "load_le m (ucast a + 8 * of_nat k) = ds ! k"
    using assms(1,5,6) by (simp_all add: table_ok_def in_sector_def)
  have sel: "unat sel = 8 * k" "unat (ucast sel :: u32) = 8 * k"
    using assms(5,6,7) by (auto simp: unsigned_of_nat take_bit_nat_eq_self_iff unsigned_ucast_eq numeral_3_eq_3 less_Suc_eq)
  then have ad: "unat (a + ucast sel) = unat a + 8 * k"
    using a(2) assms(5,6) by (simp add: unat_word_ariths)
  then have "(ucast (a + ucast sel) :: u64) = ucast a + 8 * of_nat k"
    using a(2) assms(5,6) by (simp add: word_unat_eq_iff unat_word_ariths unat_of_nat_64)
  moreover have "linear c m (a + ucast sel) = Some (ucast (a + ucast sel))"
    using assms(2,5,6) a(2) ad by (simp add: low_identity_def)
  moreover have "unat sel + 7 \<le> unat (gdt_limit c)"
    using assms(4,5,6) sel by simp
  ultimately show ?thesis
    using a(3) assms(3) by (simp add: descriptor_def)
qed

lemma flat_fields [simp]:
  "seg_code (flat_segment b) = b" "seg_long (flat_segment b) = False" "seg_code code64" "seg_long code64" "\<not> seg_big code64"
  by (simp_all add: flat_segment_def code64_def)

lemma protect_eq:
  assumes "table_ok m (gdt_desc_at L) (gdt_at L) gdt"
    and "\<not> bit (cr0 c) 31" "bit (cr0 c) 29 \<longrightarrow> bit (cr0 c) 30" "\<not> bit (efer c) 10"
  shows "protect L m c = Some (c\<lparr>cr0 := cr0 c OR 1, gdt_limit := 23, gdt_base := gdt_at L, cs_seg := flat_segment True,
    ds_seg := flat_segment False, ss_seg := flat_segment False, es_seg := flat_segment False, fs_seg := flat_segment False, gs_seg := flat_segment False\<rparr>)"
proof -
  let ?c0 = "c\<lparr>ds_seg := real_segment 0\<rparr>"
  let ?c1 = "?c0\<lparr>gdt_limit := of_nat (8 * length gdt) - 1, gdt_base := gdt_at L\<rparr>"
  let ?c2 = "?c1\<lparr>cr0 := cr0 c OR 1\<rparr>"
  let ?c3 = "?c2\<lparr>ds_seg := flat_segment False, ss_seg := flat_segment False, es_seg := flat_segment False, fs_seg := flat_segment False, gs_seg := flat_segment False\<rparr>"
  have id: "low_identity d m" if "\<not> bit (cr0 d) 31" for d
    using that by (simp add: low_identity_def linear_def)
  have paging: "\<not> bit (cr0 c OR 1) 31"
    using assms(2) by (simp add: bit_or_iff bit_1_iff)
  have read: "descriptor m sel d = decode_descriptor (gdt ! k)"
    if "gdt_base d = gdt_at L" "gdt_limit d = of_nat (8 * length gdt) - 1" "\<not> bit (cr0 d) 31"
      "k < 3" "sel = of_nat (8 * k)" for sel d k
    using descriptor_loaded [OF assms(1) id [OF that(3)] that(1,2)] that(4,5) by (simp add: gdt_def)
  have "lgdt 0xFFFFFF m (gdt_desc_at L) ?c0 = Some ?c1"
    using lgdt_loaded [OF assms(1) id] assms(2) by simp
  moreover have "mov_cr0 (cr0 ?c1 OR push_bit 0 1) ?c1 = Some ?c2"
    using assms(2-4) by (simp add: mov_cr0_def bit_or_iff bit_1_iff)
  moreover have "load_data_segments m 0x10 ?c2 = Some ?c3"
    using read [of ?c2 2 "0x10"] paging by (simp add: load_data_segments_def gdt_def decode_gdt)
  moreover have "far_jmp m 0x0008 ?c3 = Some (?c3\<lparr>cs_seg := flat_segment True\<rparr>)"
    using read [of ?c3 1 "0x0008"] paging assms(4) by (simp add: far_jmp_def gdt_def decode_gdt)
  ultimately show ?thesis
    by (simp add: protect_def gdt_def)
qed

lemma early_linear:
  assumes "bit (cr0 c) 31" "bit (efer c) 10" "cr3 c = ucast FIRST_PML4_BASE" "unat a < 0x40000000"
  shows "linear c (early_page m) a = Some (ucast a)"
proof -
  have "unat (ucast a :: u64) < 0x40000000"
    using assms(4) by simp
  moreover from this have "take_bit 48 (ucast a :: u64) = ucast a"
    by (simp add: word_unat_eq_iff unsigned_take_bit_eq take_bit_nat_eq_self_iff)
  ultimately show ?thesis
    using assms early_walk [of m "ucast a"]
    by (simp add: linear_def FIRST_PML4_BASE_def word_less_nat_alt)
qed

lemma early_identity:
  "bit (cr0 c) 31 \<Longrightarrow> bit (efer c) 10 \<Longrightarrow> cr3 c = ucast FIRST_PML4_BASE \<Longrightarrow> low_identity c (early_page m)"
  by (simp add: low_identity_def early_linear)

lemma setup_lm_eq:
  assumes "table_ok (early_page m) (lmgdt_desc_at L) (lmgdt_at L) lmgdt" "0x900 AND NOT supported = 0"
    and "bit (cr0 c) 0" "\<not> bit (cr0 c) 31" "bit (cr0 c) 29 \<longrightarrow> bit (cr0 c) 30"
    and "\<not> bit (efer c) 10" "\<not> seg_long (cs_seg c)"
  shows "setup_lm L supported (early_page m) c = Some (c\<lparr>cr4 := cr4 c OR 0x20, cr3 := 0x32000, efer := 0xD00,
    cr0 := cr0 c OR 0x80000000, gdt_limit := 23, gdt_base := lmgdt_at L, cs_seg := code64\<rparr>)"
proof -
  let ?c1 = "c\<lparr>cr4 := cr4 c OR 0x20\<rparr>"
  let ?c2 = "?c1\<lparr>cr3 := 0x32000, efer := 0x900\<rparr>"
  let ?c3 = "?c2\<lparr>cr0 := cr0 c OR 0x80000000, efer := 0xD00\<rparr>"
  let ?c4 = "?c3\<lparr>gdt_limit := of_nat (8 * length lmgdt) - 1, gdt_base := lmgdt_at L\<rparr>"
  have "efer c AND 0x400 = 0"
  proof (rule bit_word_eqI)
    fix n
    have "bit (0x400 :: u64) n \<longleftrightarrow> n = 10"
      using bit_push_bit_iff [of 10 "1 :: u64" n] by (auto simp: bit_1_iff push_bit_eq_mult)
    then show "bit (efer c AND 0x400) n = bit 0 n"
      using assms(6) by (auto simp: bit_and_iff)
  qed
  then have "wrmsr_efer supported 0x900 (?c1\<lparr>cr3 := ucast FIRST_PML4_BASE\<rparr>) = Some ?c2"
    using assms(2,4) by (simp add: wrmsr_efer_def FIRST_PML4_BASE_def)
  moreover have "mov_cr4 (cr4 c OR push_bit 5 1) c = Some ?c1"
    using assms(6) by (simp add: mov_cr4_def)
  moreover have "mov_cr0 (cr0 ?c2 OR push_bit 31 1) ?c2 = Some ?c3"
    using assms(3-5,7) by (simp add: mov_cr0_def bit_or_iff bit_numeral_word_iff)
  moreover have id: "low_identity d (early_page m)" if "cr0 d = cr0 ?c3" "efer d = 0xD00" "cr3 d = 0x32000" for d
    using that by (intro early_identity) (simp_all add: bit_or_iff bit_numeral_word_iff FIRST_PML4_BASE_def)
  moreover have "lgdt 0xFFFFFFFF (early_page m) (lmgdt_desc_at L) ?c3 = Some ?c4"
    using lgdt_loaded [OF assms(1) id] by simp
  moreover have "descriptor (early_page m) 8 ?c4 = decode_descriptor (lmgdt ! 1)"
    by (rule descriptor_loaded [OF assms(1) id]) (simp_all add: lmgdt_def)
  then have "far_jmp (early_page m) 8 ?c4 = Some (?c4\<lparr>cs_seg := code64\<rparr>)"
    by (simp add: far_jmp_def lmgdt_def decode_gdt)
  ultimately show ?thesis
    by (simp add: setup_lm_def lmgdt_def)
qed

text \<open>
  The run of the boot sector, from a processor in real mode. Reset and firmware leave write-through
  on or the cache off.
\<close>

definition real_start :: "control \<Rightarrow> bool" where
  "real_start c \<longleftrightarrow> \<not> bit (cr0 c) 0 \<and> \<not> bit (cr0 c) 31 \<and> (bit (cr0 c) 29 \<longrightarrow> bit (cr0 c) 30) \<and> \<not> bit (efer c) 10"

definition in_long_mode :: "sector \<Rightarrow> control \<Rightarrow> control" where
  "in_long_mode L c = c\<lparr>cr0 := cr0 c OR 1 OR 0x80000000, cr3 := 0x32000, cr4 := cr4 c OR 0x20, efer := 0xD00,
     gdt_limit := 23, gdt_base := lmgdt_at L, cs_seg := code64, ss_seg := flat_segment False, ds_seg := flat_segment False,
     es_seg := flat_segment False, fs_seg := flat_segment False, gs_seg := flat_segment False\<rparr>"

definition apic_id_of :: "'a machine_scheme \<Rightarrow> u32" where
  "apic_id_of s = drop_bit 24 (mmio_in (hw s) (trace s) 0xfee00020)"

lemma boot_sector_eq:
  assumes "sector_ok L (mem s)" "length es \<le> 21" "real_start c" "0x900 AND NOT supported = 0"
  shows "boot_sector L supported es (c, s) = Some (in_long_mode L c, enter_kernel es s, enter_long (apic_id_of s))"
proof -
  let ?m = "get_physical es (mem s)"
  let ?c1 = "c\<lparr>ss_seg := real_segment 0, es_seg := real_segment 0x1000\<rparr>"
  have tabs: "table_ok ?m (gdt_desc_at L) (gdt_at L) gdt" "table_ok (early_page ?m) (lmgdt_desc_at L) (lmgdt_at L) lmgdt"
    using sector_kept [OF assms(1,2)] by (simp_all add: sector_ok_def)
  have low: "\<not> bit (cr0 c OR 1) 31" "bit (cr0 c OR 1) 0" "bit (cr0 c OR 1) 29 \<longrightarrow> bit (cr0 c OR 1) 30"
    using assms(3) by (auto simp: real_start_def bit_or_iff bit_1_iff)
  define c2 where "c2 = ?c1\<lparr>cr0 := cr0 ?c1 OR 1, gdt_limit := 23, gdt_base := gdt_at L, cs_seg := flat_segment True,
    ds_seg := flat_segment False, ss_seg := flat_segment False, es_seg := flat_segment False, fs_seg := flat_segment False, gs_seg := flat_segment False\<rparr>"
  have "protect L ?m ?c1 = Some c2"
    using protect_eq [OF tabs(1), of ?c1] assms(3) by (simp add: c2_def real_start_def)
  moreover have "setup_lm L supported (early_page ?m) c2 = Some (in_long_mode L c)"
    using setup_lm_eq [OF tabs(2) assms(4), of c2] low assms(3)
    by (simp add: c2_def in_long_mode_def real_start_def or.assoc)
  ultimately show ?thesis
    by (simp add: boot_sector_def enter_kernel_def apic_id_of_def outb_def wrmsr_eq)
qed

lemma in_long_mode_mode: "mode (in_long_mode L c) = LongMode"
  by (simp add: mode_def in_long_mode_def bit_or_iff bit_numeral_word_iff)

lemma in_long_mode_bits:
  "bit (cr0 (in_long_mode L c)) 31" "bit (cr4 (in_long_mode L c)) 5" "bit (efer (in_long_mode L c)) 8"
  "bit (efer (in_long_mode L c)) 10" "bit (efer (in_long_mode L c)) 11" "cr3 (in_long_mode L c) = ucast FIRST_PML4_BASE"
  by (simp_all add: in_long_mode_def bit_or_iff bit_numeral_word_iff FIRST_PML4_BASE_def)

section \<open>The stacks\<close>

text \<open>The 16 KB below the stack pointer of the processor with the given id.\<close>

definition in_stack :: "u32 \<Rightarrow> u64 \<Rightarrow> bool" where
  "in_stack i x \<longleftrightarrow> unat (enter_long i) \<le> unat x + 0x4000 \<and> unat x < unat (enter_long i)"

lemma stack_pointer:
  assumes "unat i < 256"
  shows "unat (enter_long i) = 0x40000 + 0x4000 * unat i"
proof -
  have "int (unat i) < 256"
    using assms by linarith
  moreover have "- 32768 \<le> uint i"
    by (rule order.trans [of _ 0]) simp_all
  ultimately have "sint (ucast i :: u16) = int (unat i)"
    using signed_take_bit_int_eq_self [of 15 "uint i"] by (simp add: signed_ucast_eq)
  moreover have "i = 0" if "\<not> 1 \<le> int (unat i)"
  proof -
    have "unat i = 0"
      using that by linarith
    then show ?thesis
      by (simp only: word_unat_eq_iff unsigned_0)
  qed
  ultimately show ?thesis
    using assms by (auto simp: enter_long_def unat_word_ariths)
qed

lemma stack_range:
  assumes "unat i < 256"
  shows "in_stack i x \<longleftrightarrow> 0x3c000 + 0x4000 * unat i \<le> unat x \<and> unat x < 0x40000 + 0x4000 * unat i"
  using assms by (auto simp: in_stack_def stack_pointer)

text \<open>The video memory and the ROMs of the PC below one megabyte.\<close>

definition legacy_area :: "u64 \<Rightarrow> bool" where
  "legacy_area x \<longleftrightarrow> 0xA0000 \<le> x \<and> x < 0x100000"

lemma stack_legacy:
  assumes "unat i < 256"
  shows "(\<exists>x. in_stack i x \<and> legacy_area x) \<longleftrightarrow> 25 \<le> unat i \<and> unat i < 49"
proof
  assume "\<exists>x. in_stack i x \<and> legacy_area x"
  then show "25 \<le> unat i \<and> unat i < 49"
    using assms by (auto simp: stack_range legacy_area_def word_le_nat_alt word_less_nat_alt)
next
  assume i: "25 \<le> unat i \<and> unat i < 49"
  let ?a = "max 0xA0000 (0x3c000 + 0x4000 * unat i)"
  have "unat (of_nat ?a :: u64) = ?a"
    using i by (intro unat_of_nat_64) simp
  then have "in_stack i (of_nat ?a) \<and> legacy_area (of_nat ?a)"
    using i unfolding stack_range [OF assms] legacy_area_def word_le_nat_alt word_less_nat_alt by auto
  then show "\<exists>x. in_stack i x \<and> legacy_area x" ..
qed

end
