(* ===== verification/Boot_Properties.thy ===== *)
theory Boot_Properties
  imports Boot_Example Kernel_Properties Long_Mode
begin

text \<open>
  The properties of the boot as a whole: the token that lets one processor at a time through the
  boot sector and the kernel, the end of all their runs, the address space they run in, the shape
  of the kernel's state, and how each processor gets to long mode and to its stack.
\<close>

section \<open>Two processors\<close>

text \<open>A boot processor and another one, with a memory map of one entry and the lock's constructor.\<close>

definition pair_image :: "unit image" where
  "pair_image = boot_image\<lparr>init_array := [lock_constructor]\<rparr>"

definition pair :: "nat \<Rightarrow> processor" where
  "pair i = \<lparr>its_hw = boot_hw (i = 0), its_map = [\<lparr>e20_base = 0, e20_len = 0x100000, e20_type = 1, e20_res0 = 0\<rparr>]\<rparr>"

definition pair_state :: kernel where
  "pair_state = (boot_kernel True)\<lparr>mem := boot_mem(0x7e00 := 1)\<rparr>"

definition pair_start :: "unit platform" where
  "pair_start = \<lparr>world = pair_state, cores = \<lambda>_. InReset\<rparr>"

lemma pair_image_simps [simp]:
  "init_array pair_image = [lock_constructor]" "printf_buffer pair_image = 0x200000" "lits pair_image = acpi_lits"
  "idt_addrs pair_image = idt_layout" "buf pair_image = 0x300000"
  by (simp_all add: pair_image_def boot_image_def)

lemma pair_init: "boot_init pair_start" "world pair_start = pair_state"
  by (simp_all add: boot_init_def pair_start_def pair_state_def)

lemma pair_not_written:
  assumes "unat x < 0x14000" "x \<noteq> 0x7e00"
  shows "\<not> written pair_image x"
proof -
  have "\<not> unat (x - c) < n" if "0x14000 \<le> unat c" "unat c < 2 ^ 63" "n \<le> 2 ^ 63" for c n
    using below_diff [of x c] that assms(1) by linarith
  from this [of "0x14000" "0x204"] this [of "0x22000" "0x2000"] this [of FIRST_PML4_BASE "0x4000"]
    this [of "0x100000" 4096] this [of "0x102000" 10] this [of "0x300000" "0x10000"]
  show ?thesis
    using assms(2) by (simp add: written_def in_gates_def idt_layout_def FIRST_PML4_BASE_def)
qed

lemma pair_agree:
  assumes "agree pair_image (mem pair_state) m" "unat x < 0x14000" "x \<noteq> 0x7e00"
  shows "m x = boot_mem x"
  using assms pair_not_written [OF assms(2,3)] by (simp add: agree_def pair_state_def)

lemma pair_ports:
  assumes "agree pair_image (mem pair_state) m"
  shows "map (com_port m) [0..<4] = [0x3f8, 0, 0, 0]"
proof -
  have "com_port m i = com_port boot_mem i" if "i < 4" for i
    unfolding com_port_def
  proof (rule cell16.ld_cong)
    fix j :: nat assume "j < 2"
    then have "unat (0x400 + 2 * of_nat i + of_nat j :: u64) = 0x400 + 2 * i + j"
      using that unat_of_nat_64 [of "0x400 + 2 * i + j"] by simp
    then have "unat (0x400 + 2 * of_nat i + of_nat j :: u64) < 0x410"
      using that \<open>j < 2\<close> by linarith
    moreover have "\<not> unat (0x7e00 :: u64) < 0x410"
      by simp
    then have "0x400 + 2 * of_nat i + of_nat j \<noteq> (0x7e00 :: u64)"
      using calculation by metis
    ultimately show "m (0x400 + 2 * of_nat i + of_nat j) = boot_mem (0x400 + 2 * of_nat i + of_nat j)"
      by (intro pair_agree [OF assms]) auto
  qed
  then have "map (com_port m) [0..<4] = map (com_port boot_mem) [0..<4]"
    by simp
  then show ?thesis
    using boot_ports by simp
qed

lemma pair_processors:
  assumes "agree pair_image (mem pair_state) m"
  shows "processors acpi_lits m [3]"
proof -
  have "m a = acpi_mem good_end a" if "0x40e \<le> a" "a < 0x14000" "a \<noteq> 0x7e00" for a
    using pair_agree [OF assms, of a] that by (simp add: boot_mem_def word_less_nat_alt word_le_nat_alt) auto
  then have "holds_acpi good_end m"
    by (simp add: holds_acpi_def)
  then show ?thesis
    using acpi_processors by simp
qed

lemma pair_ok: "boot_ok pair_image pair [3] [0x3f8, 0, 0, 0] 2 pair_state"
proof -
  have "thr_ready (boot_hw b) 0x3f8" for b
    using quiet_ready [of "0x3f8"] by (simp add: boot_hw_def thr_ready_def)
  moreover have "printable_hw (boot_hw b)" for b
    by (simp add: printable_hw_def printable_def boot_hw_def quiet_hw_def)
  ultimately have "processor_ok [0x3f8, 0, 0, 0] (pair i)" for i
    by (simp add: processor_ok_def pair_def printable_def)
  moreover have "platform_ok pair_image (mem pair_state) [3] [0x3f8, 0, 0, 0]"
    using pair_ports pair_processors lock_constructor_ok idt_layout_apart
    by (simp add: platform_ok_def del: upt_Suc)
  ultimately show ?thesis
    by (simp add: boot_ok_def pair_state_def boot_kernel_def lock_init_def)
qed

text \<open>Processor 0 has taken the token, processor 1 waits for it.\<close>

definition pair_waiting :: "unit platform" where
  "pair_waiting =
    \<lparr>world = set_a20 ((set_a20 (pair_state\<lparr>hw := its_hw (pair 0)\<rparr>))\<lparr>hw := its_hw (pair 1)\<rparr>)\<lparr>mem := boot_mem(0x7e00 := 0)\<rparr>,
     cores = (\<lambda>_. InReset)(0 := InKernel, 1 := AtToken)\<rparr>"

lemma pair_reach: "(boot_step pair_image pair 2)\<^sup>*\<^sup>* pair_start pair_waiting"
proof -
  let ?w1 = "set_a20 (pair_state\<lparr>hw := its_hw (pair 0)\<rparr>)"
  let ?p1 = "pair_start\<lparr>world := ?w1, cores := (\<lambda>_. InReset)(0 := AtToken)\<rparr>"
  let ?w2 = "set_a20 (?w1\<lparr>hw := its_hw (pair 1)\<rparr>)"
  let ?p2 = "?p1\<lparr>world := ?w2, cores := (\<lambda>_. InReset)(0 := AtToken, 1 := AtToken)\<rparr>"
  have 1: "boot_step pair_image pair 2 pair_start ?p1"
    using boot_step.reset [of 0 2 pair_start pair_image pair] by (simp add: pair_start_def)
  have 2: "boot_step pair_image pair 2 ?p1 ?p2"
    using boot_step.reset [of 1 2 ?p1 pair_image pair] by simp
  have t: "xchg_token (mem (world ?p2)) = (1, boot_mem(0x7e00 := 0))" "(1 :: u8) \<noteq> 0"
    by (simp_all add: xchg_token_def pair_state_def)
  have 3: "boot_step pair_image pair 2 ?p2
      (?p2\<lparr>world := (world ?p2)\<lparr>mem := boot_mem(0x7e00 := 0)\<rparr>, cores := (cores ?p2)(0 := InKernel)\<rparr>)"
    by (rule boot_step.take_token [OF _ _ t]) simp_all
  have "?p2\<lparr>world := (world ?p2)\<lparr>mem := boot_mem(0x7e00 := 0)\<rparr>, cores := (cores ?p2)(0 := InKernel)\<rparr> = pair_waiting"
    by (simp add: pair_waiting_def pair_start_def fun_upd_twist)
  with 1 2 3 show ?thesis
    by (auto intro: converse_rtranclp_into_rtranclp)
qed

section \<open>One at a time\<close>



text \<open>
  C5. All processors come to their halt. With ports that get ready, printable numbers, memory
  maps of one to 21 entries and firmware tables that lie where the boot does not write: as long
  as a processor is not stopped some processor can make a step that leaves less work, every
  other step changes nothing, and so every reachable state can be left for one in which all
  have stopped. There the token is free again, the core counter has counted every processor, and
  if one of them is the boot processor the table of processors holds what the ACPI tables list.
\<close>

theorem all_processors_stop:
  assumes "boot_init p0" "boot_ok I ps ids ports N (world p0)" "(boot_step I ps N)\<^sup>*\<^sup>* p0 p"
  shows "((\<exists>i<N. cores p i \<noteq> Stopped) \<longrightarrow> (\<exists>q. boot_step I ps N p q \<and> work N q < work N p)) \<and>
    (\<forall>q. boot_step I ps N p q \<longrightarrow> q = p \<or> work N q < work N p) \<and>
    (\<exists>q. (boot_step I ps N)\<^sup>*\<^sup>* p q \<and> (\<forall>i<N. cores q i = Stopped)) \<and>
    ((\<forall>i<N. cores p i = Stopped) \<longrightarrow>
      mem (world p) 0x7e00 = 1 \<and> CORE_ID (world p) = CORE_ID (world p0) + of_nat N \<and>
      ((\<exists>i<N. always_bsp (ps i)) \<longrightarrow> registered ids (cpu_nodes (world p0)) (cpu_nodes (world p))))"
proof -
  have inv: "boot_inv I ps ids N (world p0) p"
    using boot.invar_reachable [OF _ assms(3)] assms(1,2) by blast
  have "mem (world p) 0x7e00 = 1 \<and> CORE_ID (world p) = CORE_ID (world p0) + of_nat N \<and>
      ((\<exists>i<N. always_bsp (ps i)) \<longrightarrow> registered ids (cpu_nodes (world p0)) (cpu_nodes (world p)))"
    if "\<forall>i<N. cores p i = Stopped"
    using boot_inv_stopped [OF inv that] by blast
  then show ?thesis
    using boot_progress [OF inv assms(2)] step_work boot_finishes [OF inv assms(2)] by blast
qed

theorem all_processors_stop_witness:
  "\<exists>q. (boot_step pair_image pair 2)\<^sup>*\<^sup>* pair_start q \<and> CORE_ID (world q) = 2 \<and>
    cpu_nodes (world q) ! 3 = 3 \<and> cpu_nodes (world q) ! 4 = 0"
proof -
  have ok: "boot_ok pair_image pair [3] [0x3f8, 0, 0, 0] 2 (world pair_start)"
    using pair_ok by (simp add: pair_init)
  obtain q where q: "(boot_step pair_image pair 2)\<^sup>*\<^sup>* pair_start q" "\<forall>i<2. cores q i = Stopped"
    using all_processors_stop [OF pair_init(1) ok rtranclp.rtrancl_refl] by blast
  have "always_bsp (pair 0)"
    by (simp add: always_bsp_def pair_def boot_hw_def)
  then have "CORE_ID (world q) = CORE_ID pair_state + of_nat 2" "registered [3] (cpu_nodes pair_state) (cpu_nodes (world q))"
    using all_processors_stop [OF pair_init(1) ok q(1)] q(2) unfolding pair_init(2) by (blast intro: zero_less_numeral)+
  moreover from this(2) have nth: "cpu_nodes (world q) ! unat i = (if i = 3 then i else cpu_nodes pair_state ! unat i)"
    if "unat i < 18" for i
    using that by (simp add: registered_def pair_state_def boot_kernel_def)
  ultimately have "CORE_ID (world q) = 2" "cpu_nodes (world q) ! 3 = 3" "cpu_nodes (world q) ! 4 = 0"
    using nth [of 3] nth [of 4] by (simp_all add: pair_state_def boot_kernel_def)
  then show ?thesis
    using q(1) by auto
qed

section \<open>The address space\<close>

text \<open>
  C13. The address space of the kernel, from the tables of the boot sector and the mapping of the
  APIC, by the processor's page walk: the first gigabyte is mapped to itself in pages of 2 MB,
  the page at \<open>0x13370000000\<close> to the registers of the local APIC, uncached and writable, and
  outside the 512 GB of that page's first-level entry nothing else is mapped.
\<close>

theorem boot_address_space:
  assumes "\<forall>f \<in> set (init_array I). constructor_ok f" "m = mem (early I (enter_kernel es s))"
  shows "(drop_bit 39 v AND 0x1ff \<noteq> 2 \<longrightarrow>
      walk FIRST_PML4_BASE m v = (if take_bit 48 v < 0x40000000 then Some (take_bit 48 v, leaf v) else None)) \<and>
    (page_2mb v = page_2mb 0x13370000000 \<longrightarrow>
      walk FIRST_PML4_BASE m v = Some (0xfee00000 OR v AND 0x1FFFFF, 0xfee00093))"
proof -
  have m: "m = map_addr 0x13370000000 0xfee00000 (PAGE_PRESENT OR PAGE_WRITE OR PAGE_UC)
      (early_page (get_physical es (mem s)))"
    by (simp add: assms early_simps(1) static_init_ok enter_kernel_simps)
  have "(PAGE_PRESENT OR PAGE_WRITE OR PAGE_UC) OR PAGE_SIZE_2MB OR 0xfee00000 = (0xfee00093 :: u64)"
    by (simp add: paging_consts)
  then show ?thesis
    using apic_walk [of v] map_addr_walk [OF apic_mapping, of v "0x13370000000"] by (auto simp: m)
qed

theorem boot_address_space_witness:
  "walk FIRST_PML4_BASE (mem (early pair_image (enter_kernel [] pair_state))) 0x7e00 = Some (0x7e00, 0x83) \<and>
    walk FIRST_PML4_BASE (mem (early pair_image (enter_kernel [] pair_state))) 0x40000000 = None \<and>
    walk FIRST_PML4_BASE (mem (early pair_image (enter_kernel [] pair_state))) 0x133700000b0 = Some (0xfee000b0, 0xfee00093)"
proof -
  have c: "\<forall>f \<in> set (init_array pair_image). constructor_ok f"
    using lock_constructor_ok by simp
  have "drop_bit 39 (0x7e00 :: u64) AND 0x1ff \<noteq> 2" "drop_bit 39 (0x40000000 :: u64) AND 0x1ff \<noteq> 2"
    "page_2mb 0x133700000b0 = page_2mb 0x13370000000" "leaf 0x7e00 = 0x83"
    "take_bit 48 (0x7e00 :: u64) = 0x7e00" "take_bit 48 (0x40000000 :: u64) = 0x40000000"
    by (simp_all add: page_2mb_def leaf_def drop_bit_eq_div take_bit_eq_mod)
  then show ?thesis
    using boot_address_space [OF c refl, where v = "0x7e00" and es = "[]" and s = pair_state] boot_address_space [OF c refl, where v = "0x40000000" and es = "[]" and s = pair_state]
      boot_address_space [OF c refl, where v = "0x133700000b0" and es = "[]" and s = pair_state] by simp
qed

section \<open>The memory map\<close>

text \<open>
  C27. The memory map arrives. With at most 21 entries, what the kernel reads at \<open>0x14000\<close> as the
  \<open>jj\<close>-th entry is the \<open>jj\<close>-th entry the firmware gave the boot sector, and the byte at \<open>0x14200\<close>
  is their number, also after the page tables were written.
\<close>

theorem memory_map_arrives:
  assumes "\<forall>f \<in> set (init_array I). constructor_ok f" "length es \<le> 21" "unat jj < length es"
  shows "load_e20_entry (mem (early I (enter_kernel es s))) (e20_entry jj) = es ! unat jj \<and>
    mem (early I (enter_kernel es s)) (e20_addr + 0x200) = of_nat (length es)"
  using memory_map_entry [OF assms] memory_map_count [OF assms(1,2)] by blast

theorem memory_map_arrives_witness:
  "e20_len (load_e20_entry (mem (early pair_image (enter_kernel (its_map (pair 0)) pair_state))) (e20_entry 0)) = 0x100000"
proof -
  have "\<forall>f \<in> set (init_array pair_image). constructor_ok f" "length (its_map (pair 0)) \<le> 21"
    "unat (0 :: u8) < length (its_map (pair 0))"
    using lock_constructor_ok by (simp_all add: pair_def)
  from memory_map_arrives [OF this, of pair_state]
  have "load_e20_entry (mem (early pair_image (enter_kernel (its_map (pair 0)) pair_state))) (e20_entry 0) =
      its_map (pair 0) ! unat (0 :: u8)"
    by blast
  then show ?thesis
    by (simp only:) (simp add: pair_def)
qed

section \<open>The state of the kernel\<close>

text \<open>
  C26. Whatever the hardware and the tables hold, a run of \<open>start_kernel\<close> that comes to its end
  leaves the kernel's state in shape: four ports, eighteen entries of \<open>cpu_nodes\<close> of which each is
  free or its own index. It counts itself in \<open>CORE_ID\<close> once.
\<close>

theorem start_kernel_shape:
  assumes "start_kernel I s = Inr t" "\<forall>f \<in> set (init_array I). constructor_ok f" "kernel_wf s"
  shows "kernel_wf t \<and> CORE_ID t = CORE_ID s + 1 \<and> hw t = hw s"
  using start_kernel_wf [OF assms] by blast

theorem start_kernel_shape_witness:
  "\<exists>t. start_kernel boot_image (boot_kernel True) = Inr t \<and> kernel_wf t \<and> CORE_ID t = 1"
proof -
  obtain t where t: "start_kernel boot_image (boot_kernel True) = Inr t"
    using start_kernel_returns [of boot_image "boot_kernel True" "[3]"] boot_is_bsp [of True] boot_bootable [of True]
    by blast
  have "kernel_wf (boot_kernel True)" "\<forall>f \<in> set (init_array boot_image). constructor_ok f"
    by (simp_all add: kernel_wf_def boot_kernel_simps MAX_CPUS_def)
  from start_kernel_shape [OF t this(2,1)] show ?thesis
    using t by (simp add: boot_kernel_def)
qed

section \<open>Long mode\<close>

text \<open>The boot sector in the memory of the two processors, and a processor after reset.\<close>

definition disk_sector :: sector where
  "disk_sector = \<lparr>gdt_at = 0x7d00, gdt_desc_at = 0x7d18, lmgdt_at = 0x7d20, lmgdt_desc_at = 0x7d38\<rparr>"

definition reset_control :: control where
  "reset_control = \<lparr>cr0 = 0x60000010, cr3 = 0, cr4 = 0, efer = 0, gdt_base = 0, gdt_limit = 0xffff,
     cs_seg = real_segment 0, ss_seg = real_segment 0, ds_seg = real_segment 0, es_seg = real_segment 0,
     fs_seg = real_segment 0, gs_seg = real_segment 0\<rparr>"

lemmas disk_eval = pair_state_def boot_mem_def acpi_mem_def acpi_bytes_def load_le_def load_bytes_def bytes_word_def
  upt_rec

lemma disk_gdt: "table_ok (mem pair_state) 0x7d18 0x7d00 gdt"
  by (simp add: table_ok_def in_sector_def gdt_def disk_eval All_less_Suc)

lemma disk_lmgdt: "table_ok (mem pair_state) 0x7d38 0x7d20 lmgdt"
  by (simp add: table_ok_def in_sector_def lmgdt_def disk_eval All_less_Suc)

lemma reset_ok: "real_start reset_control" "sector_ok disk_sector (mem pair_state)"
  by (simp_all add: real_start_def reset_control_def bit_numeral_word_iff sector_ok_def disk_sector_def
      disk_gdt disk_lmgdt)

text \<open>
  C12. Long mode. From real mode, with the boot sector in memory, every processor comes through the
  code without an exception: each privileged instruction finds its demands met and each selector
  is in the table that is loaded at that point. It then runs in long mode on the page tables of
  the boot sector, with physical address extension, no-execute and flat data segments, what it
  did to memory and devices is \<open>enter_kernel\<close>, and every address below one gigabyte is its own
  translation, so that the code, its tables and its stack stay where they are.
\<close>

theorem long_mode_entered:
  assumes "sector_ok L (mem s)" "length es \<le> 21" "real_start c" "0x900 AND NOT supported = 0"
  shows "\<exists>d. boot_sector L supported es (c, s) = Some (d, enter_kernel es s, enter_long (apic_id_of s)) \<and>
    mode d = LongMode \<and> ucast (cr3 d) = FIRST_PML4_BASE \<and> bit (cr0 d) 31 \<and> bit (cr4 d) 5 \<and>
    bit (efer d) 8 \<and> bit (efer d) 11 \<and> ds_seg d = flat_segment False \<and> ss_seg d = flat_segment False \<and>
    (\<forall>a. unat a < 0x40000000 \<longrightarrow> linear d (mem (enter_kernel es s)) a = Some (ucast a))"
proof (intro exI [of _ "in_long_mode L c"] conjI allI impI)
  show "boot_sector L supported es (c, s) = Some (in_long_mode L c, enter_kernel es s, enter_long (apic_id_of s))"
    by (rule boot_sector_eq [OF assms])
  show "linear (in_long_mode L c) (mem (enter_kernel es s)) a = Some (ucast a)" if "unat a < 0x40000000" for a
    unfolding enter_kernel_simps using that by (intro early_linear) (simp_all only: in_long_mode_bits)
  show "ucast (cr3 (in_long_mode L c)) = FIRST_PML4_BASE"
    by (simp add: in_long_mode_bits FIRST_PML4_BASE_def)
qed (simp_all add: in_long_mode_mode in_long_mode_bits(1-5), simp_all add: in_long_mode_def)

theorem long_mode_entered_witness:
  "\<exists>d. boot_sector disk_sector 0xD01 (its_map (pair 0)) (reset_control, pair_state) =
      Some (d, enter_kernel (its_map (pair 0)) pair_state, 0x40000) \<and> mode d = LongMode"
proof -
  have "apic_id_of pair_state = 0"
    by (simp add: apic_id_of_def pair_state_def boot_kernel_def boot_hw_def quiet_hw_def)
  then have "enter_long (apic_id_of pair_state) = 0x40000"
    by (simp add: enter_long_def)
  then show ?thesis
    using long_mode_entered [of disk_sector pair_state "its_map (pair 0)" reset_control "0xD01"] reset_ok by (auto simp: pair_def)
qed

text \<open>
  C7. Every processor of the boot gets to long mode. In every reachable state of the boot, as long as
  the kernel's data does not lie in the boot sector, the sector is still what was loaded: a
  processor that has the token comes through the code without an exception, into long mode and
  with the stack pointer of its APIC id, and hands \<open>start_kernel\<close> the memory and the devices the
  steps of the boot give it.
\<close>

theorem processors_reach_long_mode:
  assumes "boot_init p0" "boot_ok I ps ids ports N (world p0)" "(boot_step I ps N)\<^sup>*\<^sup>* p0 p" "i < N"
    and "sector_ok L (mem (world p0))" "\<And>x. 0x7c00 \<le> unat x \<Longrightarrow> unat x < 0x7dfe \<Longrightarrow> \<not> written I x"
    and "real_start c" "0x900 AND NOT supported = 0"
  shows "\<exists>d. boot_sector L supported (its_map (ps i)) (c, (world p)\<lparr>hw := its_hw (ps i)\<rparr>) =
      Some (d, enter_kernel (its_map (ps i)) ((world p)\<lparr>hw := its_hw (ps i)\<rparr>),
        enter_long (apic_id_of ((world p)\<lparr>hw := its_hw (ps i)\<rparr>))) \<and>
    mode d = LongMode \<and> ss_seg d = flat_segment False"
proof -
  have "boot_inv I ps ids N (world p0) p"
    using boot.invar_reachable [OF _ assms(3)] assms(1,2) by blast
  then have "agree I (mem (world p0)) (mem (world p))"
    by (simp add: boot_inv_def between_def)
  then have "sector_ok L (mem ((world p)\<lparr>hw := its_hw (ps i)\<rparr>))"
    using assms(6) by (auto simp: agree_def intro: sector_ok_cong [OF assms(5)])
  moreover have "length (its_map (ps i)) \<le> 21"
    using assms(2,4) by (simp add: boot_ok_def processor_ok_def)
  ultimately have "boot_sector L supported (its_map (ps i)) (c, (world p)\<lparr>hw := its_hw (ps i)\<rparr>) =
      Some (in_long_mode L c, enter_kernel (its_map (ps i)) ((world p)\<lparr>hw := its_hw (ps i)\<rparr>),
        enter_long (apic_id_of ((world p)\<lparr>hw := its_hw (ps i)\<rparr>)))"
    by (rule boot_sector_eq [OF _ _ assms(7,8)])
  then show ?thesis
    using in_long_mode_mode by (simp add: in_long_mode_def)
qed

theorem processors_reach_long_mode_witness:
  "\<exists>d. boot_sector disk_sector 0xD01 (its_map (pair 0)) (reset_control, (world pair_waiting)\<lparr>hw := its_hw (pair 0)\<rparr>) =
      Some (d, enter_kernel (its_map (pair 0)) ((world pair_waiting)\<lparr>hw := its_hw (pair 0)\<rparr>), 0x40000) \<and>
    mode d = LongMode"
proof -
  have "apic_id_of ((world pair_waiting)\<lparr>hw := its_hw (pair 0)\<rparr>) = 0"
    by (simp add: apic_id_of_def pair_def boot_hw_def quiet_hw_def)
  then have "enter_long (apic_id_of ((world pair_waiting)\<lparr>hw := its_hw (pair 0)\<rparr>)) = 0x40000"
    by (simp add: enter_long_def)
  moreover have "\<not> written pair_image x" if "0x7c00 \<le> unat x" "unat x < 0x7dfe" for x
    using that by (intro pair_not_written) auto
  ultimately show ?thesis
    using processors_reach_long_mode [OF pair_init(1) _ pair_reach, of "[3]" "[0x3f8, 0, 0, 0]" 0 disk_sector
        reset_control "0xD01"] pair_ok reset_ok by (auto simp: pair_init(2))
qed

text \<open>
  C28. The stacks. The 16 KB stacks of processors with different APIC ids have no byte in common;
  none holds the token, the memory map or a page table, and every byte of them is mapped to
  itself, present and writable. The ids from 25 to 48, and only these, put the stack on video
  memory and ROMs.
\<close>

theorem boot_stacks:
  assumes "unat i < 256" "unat j < 256"
  shows "(i \<noteq> j \<longrightarrow> \<not> (in_stack i x \<and> in_stack j x)) \<and>
    (in_stack i x \<longrightarrow> x \<noteq> 0x7e00 \<and> \<not> unat (x - 0x14000) < 0x204 \<and> \<not> unat (x - APIC_PDPTE) < 0x2000 \<and>
      \<not> unat (x - FIRST_PML4_BASE) < 0x4000 \<and>
      walk FIRST_PML4_BASE (mem (enter_kernel es s)) x = Some (x, leaf x) \<and> bit (leaf x) 0 \<and> bit (leaf x) 1) \<and>
    ((\<exists>y. in_stack i y \<and> legacy_area y) \<longleftrightarrow> 25 \<le> unat i \<and> unat i < 49)"
proof (intro conjI impI)
  show "\<not> (in_stack i x \<and> in_stack j x)" if "i \<noteq> j"
  proof -
    have "unat i \<noteq> unat j"
      using that by (simp only: word_unat_eq_iff) simp
    then consider "unat i < unat j" | "unat j < unat i"
      by linarith
    then show ?thesis
      unfolding stack_range [OF assms(1)] stack_range [OF assms(2)] by cases linarith+
  qed
  assume "in_stack i x"
  then have x: "0x3c000 \<le> unat x" "unat x < 0x440000"
    using assms(1) by (simp_all add: stack_range)
  then have above: "\<not> unat (x - a) < n" if "unat a + n \<le> 0x3c000" for a n
  proof -
    have "a \<le> x"
      unfolding word_le_nat_alt using that x(1) by linarith
    then have "unat (x - a) = unat x - unat a"
      by (rule unat_sub)
    then show ?thesis
      using that x(1) by linarith
  qed
  show "\<not> unat (x - 0x14000) < 0x204" "\<not> unat (x - APIC_PDPTE) < 0x2000" "\<not> unat (x - FIRST_PML4_BASE) < 0x4000"
    by (rule above, simp add: paging_consts)+
  show "x \<noteq> 0x7e00"
    using x by auto
  have "take_bit 48 x = x"
    using x(2) by (simp add: word_unat_eq_iff unsigned_take_bit_eq take_bit_nat_eq_self_iff)
  then show "walk FIRST_PML4_BASE (mem (enter_kernel es s)) x = Some (x, leaf x)"
    using x(2) by (simp add: enter_kernel_simps early_walk word_less_nat_alt)
  show "bit (leaf x) 0" "bit (leaf x) 1"
    by (simp_all add: leaf_def bit_or_iff bit_numeral_word_iff)
qed (use stack_legacy [OF assms(1)] in auto)

theorem boot_stacks_witness:
  "\<not> in_stack 1 0x3fff8 \<and> (\<exists>y. in_stack 25 y \<and> legacy_area y)"
  using boot_stacks [of 0 1 "0x3fff8" "[]" pair_state] boot_stacks [of 25 1 0 "[]" pair_state]
  by (auto simp: in_stack_def enter_long_def)

end
