(* ===== verification/Spec2Isabelle.thy ===== *)
theory Spec2Isabelle
  imports Lock_Properties Printf_Properties Kernel_Properties Elf_Properties Boot_Properties
begin

text \<open>
  Delice OS: a verification of its boot kernel and of the host tool that builds its image.

  The program. \<open>src/bootloader/delice_pxe\<close> is a kernel that the boot sector
  \<open>src/bootloader/firststage/bootloader.s\<close> loads. Every processor waits for the token of the boot
  stack, stores the firmware's memory map, builds the page tables and enters \<open>start_kernel\<close>
  (\<open>init.cc\<close>): it runs the constructors, disables interrupts, sets up the serial ports and maps
  the local APIC. The boot processor prints the memory map,
  loads the interrupt descriptor table, enables interrupts, collects the processors from the
  ACPI tables, enables its local APIC, and measures a block fill with a performance counter;
  the others print their APIC id. Each then releases its stack and halts. All output goes
  through \<open>printf_\<close> (\<open>printf.cc\<close>), which holds a ticket lock (\<open>atomic.h\<close>) and sends every
  character to all serial ports (\<open>serial.cc\<close>). \<open>src/elf_parse\<close> flattens the linked kernel,
  \<open>src/memlib\<close> holds two block functions.

  The theories, in the order of their imports, and what they model.
  \<^item> \<open>Prelude\<close>: machine integers, the faults of a C++ program (signed overflow, an index or an
    address outside an object, a conversion without a defined value, no return), the result
    type \<open>'a res\<close>, and the locales \<open>transition_system\<close> and \<open>simulation\<close>.
  \<^item> \<open>Memory\<close>: memory as bytes, typed loads and stores (locale \<open>memory_cell\<close>, interpreted for
    16, 32 and 64 bits), \<open>memset\<close> (\<open>stdlib.cc\<close>), \<open>memset\<close> and \<open>memmove\<close> (\<open>memlib/memcpy.cc\<close>).
  \<^item> \<open>Layout\<close>: the packed structures the code reads through pointers, as records with a load at
    the offsets of the fields (locale \<open>packed\<close>, interpreted for each of the eight).
  \<^item> \<open>Printf_Output\<close>, \<open>Printf_Int\<close>, \<open>Double\<close>, \<open>Printf_Float\<close>, \<open>Printf\<close>: \<open>printf.cc\<close> in the order of
    the file, function by function and loop by loop: the output functions and text helpers,
    the integer conversions, the type \<open>double\<close> and the floating-point conversions, the
    interpreter of formats and the entry points. \<open>sink\<close> is the contract of an output
    function, interpreted on the buffer, on no output and on the serial ports. \<open>Printf_Text\<close>, \<open>Printf_Spec\<close>,
    \<open>Printf_Format\<close>, \<open>Printf_Fixed\<close>, \<open>Double_Bounds\<close> and \<open>Printf_Total\<close> hold the reasoning.
  \<^item> \<open>Lock\<close>: \<open>Lock\<close> and \<open>Guard\<close> of \<open>atomic.h\<close>, with the step relation of all interleavings of
    their atomic operations, and the first-in first-out queue they implement.
  \<^item> \<open>Machine\<close>: \<open>misc/cpu.h\<close>, \<open>misc/io.h\<close>, \<open>cpu.cc\<close>. Ports, model-specific registers, APIC
    registers and control instructions are events of a trace; the hardware that answers the
    reads is a parameter, a function of the trace so far.
  \<^item> \<open>Serial\<close>, \<open>Paging\<close>, \<open>Interrupt\<close>, \<open>Apic\<close>, \<open>Perf\<close>: the source files of these names
    (\<open>perfctr.cc\<close> for the last). The state is a record that grows with the components:
    \<open>machine\<close> (memory, trace, hardware), \<open>serial_machine\<close> (ports, lock), \<open>kernel\<close> (the core table
    \<open>cpu_nodes\<close>, the core counter).
  \<^item> \<open>Printing\<close>: the calls of \<open>printf_\<close> of several processors, interleaved, and the spooler they
    implement.
  \<^item> \<open>Interrupt_Entry\<close>: the exception stubs of \<open>interrupt.s\<close> around \<open>interrupt_handler\<close>.
  \<^item> \<open>Init\<close>: \<open>start_kernel\<close> and \<open>static_init\<close>, composed from the above; \<open>Boot\<close> proves that it
    comes to its end, \<open>Kernel_State\<close> that it keeps the shape of the kernel's state (locale
    \<open>preorder_of_states\<close>).
  \<^item> \<open>Boot_Sector\<close>: the memory map and the page tables of \<open>bootloader.s\<close>, and what the page walk
    makes of them; \<open>Processors\<close>: the step relation of all processors from reset to the halt.
  \<^item> \<open>Elf\<close>: \<open>parser.cc\<close>, \<open>parser.h\<close>, \<open>Utils/file.cc\<close> of the host tool.
  \<^item> \<open>Examples\<close>, \<open>Acpi_Example\<close>, \<open>Boot_Example\<close>: concrete machines, ACPI tables and a kernel
    image to which the properties are applied.
  \<^item> \<open>Lock_Properties\<close>, \<open>Printf_Properties\<close>, \<open>Kernel_Properties\<close>, \<open>Elf_Properties\<close>,
    \<open>Boot_Properties\<close> and this theory: the properties, numbered C1 to C40 in the order of their weight.

  What the lemmas show.
  \<^item> The lock: mutual exclusion, refinement of a queue, bounded waiting for up to \<open>2 ^ 32\<close>
    processors (the range of the counters), and that it is not reentrant; under it, the texts
    of different processors reach the ports one after the other.
  \<^item> printf: the text of a call depends on its format and arguments only (\<open>Printf_Text\<close>);
    \<open>snprintf\<close> stores it, cut off and terminated, inside its buffer; every specifier that can be
    spelled is read back (\<open>Printf_Format\<close>); integers agree with a
    reference definition and read back; fixed-point output has the digits of the rounded
    value and is defined for every number up to a thousand millions with a precision up to
    41. The conversions that fault or print the wrong text are stated as such.
  \<^item> The kernel: what a text puts on each port, what the page walk makes of the tables, what
    the processor reads from the descriptor table, which registers the set-up writes, which
    ids the ACPI walk enters, when it does not end, the order of all events of the boot, and
    that an exception restores all registers.
  \<^item> The boot: one processor at a time runs the boot sector and the kernel, all of them come to
    their halt, the first gigabyte is mapped to itself, the memory map arrives, and the state of
    the kernel keeps its shape.
  \<^item> The tool: which bytes of the file the image holds.

  Bounds and fuel. \<open>_ftoa\<close> and \<open>_etoa\<close> call each other and are unrolled to a depth of four
  calls; \<open>float_depth_independent\<close> shows that a greater depth changes no result that is
  returned. Loops that wait for the hardware or walk memory that may have no end
  (\<open>poll\<close>, \<open>madt_loop\<close>, \<open>check_core_loop\<close>) are partial functions, whose value \<open>None\<close> is a loop
  that does not return. All others are total, with a measure. Sizes of \<open>memmove\<close> are below
  two gigabytes, where its \<open>int\<close> counter ends; the fill is described below \<open>2 ^ 35\<close> bytes, where
  its 32-bit count of words ends.

  Not modelled. Of the boot sector: segment registers and their descriptor tables, control
  registers, and the stack pointer it chooses by the APIC id; the answers of the firmware to its
  \<open>e820\<close> calls are a parameter. Of \<open>interrupt.s\<close>: \<open>default_trap_handler\<close>, which writes to the screen
  and stops; the addresses of the stubs are parameters. The screen and \<open>cpuid.cc\<close>, which have no
  code; \<open>lapic_init\<close>, which has comments only; \<open>get_current_ip\<close>, which rewrites its own return
  address, and \<open>nothing\<close>, which is a nop; the build files and the linker script, whose addresses
  are the parameters of the record \<open>image\<close>. Several processors are interleaved in \<open>Lock\<close>,
  \<open>Printing\<close> and \<open>Processors\<close>, where the run of the one that has the token is a single step: the
  others touch nothing it uses. The other components run one processor, and a lock that is not
  free at the start of a \<open>printf\<close> is a wait without an end. Interrupts that arrive while
  \<open>start_kernel\<close> runs are described by \<open>Interrupt_Entry\<close>, not interleaved with it.
\<close>

text \<open>
  C4. The boot processor: with the lock free, transmitters that get ready, printable register
  values and ACPI tables in order, \<open>start_kernel\<close> comes to its end. Every processor the tables
  list is then entered in \<open>cpu_nodes\<close> at its own index, the buffer of the measurement is zero,
  the stack flag at \<open>0x7e00\<close> is one, and all other memory is as the page entries, the descriptor
  table and its operand left it; the processor stops with interrupts disabled.
\<close>

theorem boot_processor:
  fixes s :: "'a kernel_scheme"
  assumes "fst (is_bsp (early I s))" "bootable I ids (early I s)"
  shows "\<exists>t. start_kernel I s = Inr t \<and> length (cpu_nodes t) = length (cpu_nodes (early I s)) \<and>
    (\<forall>i. unat i < length (cpu_nodes t) \<longrightarrow>
      cpu_nodes t ! unat i = (if i \<in> set ids then i else cpu_nodes (early I s) ! unat i)) \<and>
    (\<forall>a. mem t a = (if a = 0x7e00 then 1 else if unat (a - buf I) < 0x10000 then 0
      else mem (load_idt (idt_addrs I) (early I s)) a)) \<and>
    (\<exists>tr. trace t = Hlt # Cli # tr)"
proof -
  obtain t where t: "start_kernel I s = Inr t" "cpu_nodes t = register_all ids (cpu_nodes (early I s))"
    "mem t = (unoptimized_function2 (buf I) BUF_SIZE (mem (load_idt (idt_addrs I) (early I s))))(0x7e00 := 1)"
    using start_kernel_returns [OF assms] by blast
  have "length (cpu_nodes t) = length (cpu_nodes (early I s))"
    by (simp add: t(2) register_all_length)
  moreover have "\<forall>i. unat i < length (cpu_nodes t) \<longrightarrow>
      cpu_nodes t ! unat i = (if i \<in> set ids then i else cpu_nodes (early I s) ! unat i)"
    unfolding t(2) register_all_length by (blast intro: register_all_nth)
  moreover have "\<forall>a. mem t a = (if a = 0x7e00 then 1 else if unat (a - buf I) < 0x10000 then 0
      else mem (load_idt (idt_addrs I) (early I s)) a)"
    by (simp add: t(3) fill_buf_byte)
  ultimately show ?thesis
    using t(1) start_kernel_end [OF t(1)] by blast
qed

theorem boot_processor_witness:
  "\<exists>t. start_kernel boot_image (boot_kernel True) = Inr t \<and> cpu_nodes t ! 3 = 3 \<and> cpu_nodes t ! 4 = 0 \<and>
    mem t 0x7e00 = 1 \<and> mem t 0x30ffff = 0"
proof -
  obtain t where t: "start_kernel boot_image (boot_kernel True) = Inr t" "length (cpu_nodes t) = 18"
    "\<forall>i. unat i < length (cpu_nodes t) \<longrightarrow> cpu_nodes t ! unat i = (if i \<in> set [3] then i else replicate 18 0 ! unat i)"
    "\<forall>a. mem t a = (if a = 0x7e00 then 1 else if unat (a - 0x300000) < 0x10000 then 0
      else mem (load_idt idt_layout (early boot_image (boot_kernel True))) a)"
    using boot_processor [of boot_image "boot_kernel True" "[3]"] boot_is_bsp [of True] boot_bootable [of True]
    unfolding boot_early(5) boot_image_simps length_replicate by blast
  have "cpu_nodes t ! 3 = 3" "cpu_nodes t ! 4 = 0"
    using t(3) [rule_format, of 3] t(3) [rule_format, of 4] t(2) by simp_all
  with t(1,4) show ?thesis
    by simp
qed

text \<open>
  C8. Interrupts are enabled only after the descriptor table was loaded, whatever the hardware
  answers, and every end of \<open>start_kernel\<close> disables them again before the processor halts, as
  long as the constructors that run first do not enable them.
\<close>

theorem interrupts_after_idt:
  assumes "start_kernel I s = Inr t" "Sti \<notin> set (trace (static_init (init_array I) s))"
  shows "guarded (trace t) \<and> (\<exists>tr. trace t = Hlt # Cli # tr) \<and> mem t 0x7e00 = 1"
  using start_kernel_guarded [OF assms] start_kernel_end [OF assms(1)] by blast

theorem interrupts_after_idt_witness:
  "\<exists>t. start_kernel boot_image (boot_kernel True) = Inr t \<and> guarded (trace t)"
proof -
  obtain t where t: "start_kernel boot_image (boot_kernel True) = Inr t"
    using start_kernel_returns [of boot_image "boot_kernel True" "[3]"] boot_is_bsp [of True] boot_bootable [of True]
    by blast
  from interrupts_after_idt [OF this] show ?thesis
    using t by (simp add: boot_kernel_simps)
qed

text \<open>
  C24. Another processor: with the lock free and transmitters that get ready, \<open>start_kernel\<close>
  sends the processor's APIC id on every serial port, sets the flag that releases the stack,
  and leaves the registers of the local APIC mapped at \<open>0x13370000000\<close>, uncached and writable.
\<close>

theorem application_processor:
  assumes "\<not> fst (is_bsp (early I s))" "can_print (early I s)" "printf_buffer I \<noteq> 0"
  shows "\<exists>t. start_kernel I s = Inr t \<and> mem t 0x7e00 = 1 \<and>
    (\<forall>p. p \<noteq> 0 \<longrightarrow> p \<in> set (device (early I s)) \<longrightarrow> sent p (trace t) = sent p (trace (early I s)) @
      wire_text (''Dragon rocket CPU Core id: '' @ nat_text 10 (unat (ap_id I s)) @ [CHR 0x0A])) \<and>
    (\<forall>w. page_2mb w = page_2mb 0x13370000000 \<longrightarrow> walk FIRST_PML4_BASE (mem t) w =
      Some (0xfee00000 OR w AND 0x1FFFFF, PAGE_PRESENT OR PAGE_WRITE OR PAGE_UC OR PAGE_SIZE_2MB OR 0xfee00000))"
proof -
  obtain t where t: "start_kernel I s = Inr t" "mem t = (mem (early I s))(0x7e00 := 1)"
    "\<forall>p. p \<noteq> 0 \<longrightarrow> p \<in> set (device (early I s)) \<longrightarrow> sent p (trace t) = sent p (trace (early I s)) @
      wire_text (''Dragon rocket CPU Core id: '' @ nat_text 10 (unat (ap_id I s)) @ [CHR 0x0A])"
    using ap_boot [OF assms] by blast
  have "walk FIRST_PML4_BASE (mem t) w =
      Some (0xfee00000 OR w AND 0x1FFFFF, (PAGE_PRESENT OR PAGE_WRITE OR PAGE_UC) OR PAGE_SIZE_2MB OR 0xfee00000)"
    if "page_2mb w = page_2mb 0x13370000000" for w
    unfolding t(2) early_simps(1)
    by (rule map_addr_walk_low [OF apic_mapping that]) simp
  then show ?thesis
    using t by (simp add: or.assoc)
qed

theorem application_processor_witness:
  "\<exists>t. start_kernel boot_image (boot_kernel False) = Inr t \<and>
    walk FIRST_PML4_BASE (mem t) 0x133700000b0 = Some (0xfee000b0, 0xfee00093)"
proof -
  obtain t where t: "start_kernel boot_image (boot_kernel False) = Inr t"
    "\<forall>w. page_2mb w = page_2mb 0x13370000000 \<longrightarrow> walk FIRST_PML4_BASE (mem t) w =
      Some (0xfee00000 OR w AND 0x1FFFFF, PAGE_PRESENT OR PAGE_WRITE OR PAGE_UC OR PAGE_SIZE_2MB OR 0xfee00000)"
    using application_processor [of boot_image "boot_kernel False"] boot_is_bsp [of False] boot_can_print [of False]
      boot_image_simps(2) by auto
  have "page_2mb 0x133700000b0 = page_2mb 0x13370000000"
    by (simp add: page_2mb_def)
  with t show ?thesis
    by (auto simp: paging_consts)
qed



end
